(* ===== verification/Prelude.thy ===== *)
theory Prelude
  imports Main "HOL-Library.Sublist"
begin

text \<open>
  Shared vocabulary of the development: Go's byte strings and the functions of Go's
  standard library (\<open>strings\<close>, \<open>bytes\<close>, \<open>strconv\<close>) that the proxy calls, with the
  lemmas every component uses about them.

  A Go \<open>string\<close> and a Go \<open>[]byte\<close> are both a list of bytes, and an Isabelle \<open>char\<close> is
  one byte, so both are \<open>bytes\<close> here; a multi-byte UTF-8 rune is several list elements,
  as it is several bytes in Go. Go's \<open>int\<close> and \<open>int64\<close> are 64 bits wide; they are
  modelled by \<open>int\<close>, and \<open>wrap64\<close> is written where an operation of the source can
  leave the 64-bit range.
\<close>

section \<open>Automation\<close>

named_theorems go_str "evaluation rules of the string functions"
named_theorems inv_intro "a step keeps an invariant"
named_theorems failure_simps "the fields of the failures the classifiers build"

section \<open>Bytes and 64-bit integers\<close>

type_synonym bytes = string

abbreviation byte_val :: "char \<Rightarrow> int" where
  "byte_val c \<equiv> of_char c"

lemma byte_val_range [simp]: "0 \<le> byte_val c" "byte_val c < 256" "byte_val c \<le> 255"
proof -
  have m: "int (of_char c) = byte_val c" by (rule of_nat_of_char)
  show "0 \<le> byte_val c" unfolding m [symmetric] by (rule of_nat_0_le_iff)
  have "(of_char c :: nat) < 256" by (rule nat_of_char_less_256)
  hence "int (of_char c) < int 256" by (simp only: of_nat_less_iff)
  thus "byte_val c < 256" unfolding m by simp
  thus "byte_val c \<le> 255" by (rule zle_diff1_eq [THEN iffD2, of _ 256, simplified])
qed

definition max_int64 :: int where
  "max_int64 = 9223372036854775807"

definition min_int64 :: int where
  "min_int64 = - 9223372036854775808"

definition wrap64 :: "int \<Rightarrow> int" where
  "wrap64 x = (x + 9223372036854775808) mod 18446744073709551616 - 9223372036854775808"

lemma wrap64_id [simp]: "min_int64 \<le> x \<Longrightarrow> x \<le> max_int64 \<Longrightarrow> wrap64 x = x"
  by (simp add: wrap64_def min_int64_def max_int64_def)

lemma wrap64_range: "min_int64 \<le> wrap64 x \<and> wrap64 x \<le> max_int64"
  using pos_mod_bound [of 18446744073709551616 "x + 9223372036854775808"]
    pos_mod_sign [of 18446744073709551616 "x + 9223372036854775808"]
  by (simp add: wrap64_def min_int64_def max_int64_def)

text \<open>Go's integer division truncates towards zero.\<close>

definition go_div :: "int \<Rightarrow> int \<Rightarrow> int" where
  "go_div a b = sgn a * sgn b * (\<bar>a\<bar> div \<bar>b\<bar>)"

lemma go_div_nonneg: "0 \<le> a \<Longrightarrow> 0 < b \<Longrightarrow> go_div a b = a div b"
  by (cases "a = 0") (auto simp: go_div_def)

section \<open>strings.HasPrefix, HasSuffix, Contains, Cut, Split\<close>

fun has_prefix :: "bytes \<Rightarrow> bytes \<Rightarrow> bool" where
  "has_prefix s [] = True"
| "has_prefix [] (p # ps) = False"
| "has_prefix (c # s) (p # ps) = (c = p \<and> has_prefix s ps)"

definition has_suffix :: "bytes \<Rightarrow> bytes \<Rightarrow> bool" where
  "has_suffix s p = has_prefix (rev s) (rev p)"

fun contains :: "bytes \<Rightarrow> bytes \<Rightarrow> bool" where
  "contains [] p = (p = [])"
| "contains (c # s) p = (has_prefix (c # s) p \<or> contains s p)"

definition cut_prefix :: "bytes \<Rightarrow> bytes \<Rightarrow> bytes option" where
  "cut_prefix s p = (if has_prefix s p then Some (drop (length p) s) else None)"

definition trim_prefix :: "bytes \<Rightarrow> bytes \<Rightarrow> bytes" where
  "trim_prefix s p = (if has_prefix s p then drop (length p) s else s)"

text \<open>\<open>strings.Cut\<close>: the text around the first occurrence, \<open>None\<close> when there is none.\<close>

fun str_cut :: "bytes \<Rightarrow> bytes \<Rightarrow> (bytes \<times> bytes) option" where
  "str_cut [] sep = (if sep = [] then Some ([], []) else None)"
| "str_cut (c # s) sep =
     (if has_prefix (c # s) sep then Some ([], drop (length sep) (c # s))
      else map_option (\<lambda>(a, b). (c # a, b)) (str_cut s sep))"

text \<open>\<open>strings.Split\<close> on a separator of one byte.\<close>

fun split_on :: "char \<Rightarrow> bytes \<Rightarrow> bytes list" where
  "split_on d [] = [[]]"
| "split_on d (c # s) =
     (if c = d then [] # split_on d s
      else (case split_on d s of [] \<Rightarrow> [[c]] | w # ws \<Rightarrow> (c # w) # ws))"

lemma has_prefix_iff: "has_prefix s p \<longleftrightarrow> (\<exists>t. s = p @ t)"
  by (induction s p rule: has_prefix.induct) auto

lemma has_prefix_append [simp]: "has_prefix (p @ t) p"
  by (auto simp: has_prefix_iff)

lemma has_prefix_length: "has_prefix s p \<Longrightarrow> length p \<le> length s"
  by (auto simp: has_prefix_iff)

lemma contains_iff: "contains s p \<longleftrightarrow> (\<exists>a b. s = a @ p @ b)"
proof (induction s)
  case (Cons c s)
  have "contains (c # s) p \<longleftrightarrow> (\<exists>t. c # s = p @ t) \<or> (\<exists>a b. s = a @ p @ b)"
    using Cons.IH by (simp add: has_prefix_iff)
  also have "\<dots> \<longleftrightarrow> (\<exists>a b. c # s = a @ p @ b)"
    by (metis (no_types, opaque_lifting) append_Cons append_Nil append_eq_Cons_conv)
  finally show ?case .
qed auto

lemma contains_append_left: "contains s p \<Longrightarrow> contains (t @ s) p"
  by (metis append.assoc contains_iff)

lemma contains_append_right: "contains s p \<Longrightarrow> contains (s @ t) p"
  by (metis append.assoc contains_iff)

lemma str_cut_Some: "str_cut s sep = Some (a, b) \<Longrightarrow> s = a @ sep @ b"
  by (induction s arbitrary: a b) (auto simp: has_prefix_iff split: if_splits)

lemma str_cut_None: "sep \<noteq> [] \<Longrightarrow> str_cut s sep = None \<longleftrightarrow> \<not> contains s sep"
  by (induction s) auto

lemma trim_prefix_length: "length (trim_prefix s p) \<le> length s"
  by (simp add: trim_prefix_def)

section \<open>strings.TrimSpace, ToLower, ToUpper\<close>

text \<open>
  The UTF-8 encodings of the code points \<open>unicode.IsSpace\<close> accepts. A rune of the list
  can only be decoded where its lead byte stands, so stripping encodings from either
  end is what \<open>strings.TrimSpace\<close> and \<open>bytes.TrimSpace\<close> do.
\<close>

definition space_runes :: "bytes list" where
  "space_runes =
     [[CHR 0x20], [CHR 0x09], [CHR 0x0A], [CHR 0x0B], [CHR 0x0C], [CHR 0x0D],
      [CHR 0xC2, CHR 0x85], [CHR 0xC2, CHR 0xA0], [CHR 0xE1, CHR 0x9A, CHR 0x80],
      [CHR 0xE2, CHR 0x80, CHR 0x80], [CHR 0xE2, CHR 0x80, CHR 0x81],
      [CHR 0xE2, CHR 0x80, CHR 0x82], [CHR 0xE2, CHR 0x80, CHR 0x83],
      [CHR 0xE2, CHR 0x80, CHR 0x84], [CHR 0xE2, CHR 0x80, CHR 0x85],
      [CHR 0xE2, CHR 0x80, CHR 0x86], [CHR 0xE2, CHR 0x80, CHR 0x87],
      [CHR 0xE2, CHR 0x80, CHR 0x88], [CHR 0xE2, CHR 0x80, CHR 0x89],
      [CHR 0xE2, CHR 0x80, CHR 0x8A], [CHR 0xE2, CHR 0x80, CHR 0xA8],
      [CHR 0xE2, CHR 0x80, CHR 0xA9], [CHR 0xE2, CHR 0x80, CHR 0xAF],
      [CHR 0xE2, CHR 0x81, CHR 0x9F], [CHR 0xE3, CHR 0x80, CHR 0x80]]"

definition strip_one :: "bytes list \<Rightarrow> bytes \<Rightarrow> bytes option" where
  "strip_one rs s = (case filter (has_prefix s) rs of [] \<Rightarrow> None | r # _ \<Rightarrow> Some (drop (length r) s))"

function trim_left_runes :: "bytes list \<Rightarrow> bytes \<Rightarrow> bytes" where
  "trim_left_runes rs s =
     (case strip_one rs s of
        None \<Rightarrow> s
      | Some t \<Rightarrow> if length t < length s then trim_left_runes rs t else s)"
  by pat_completeness auto
termination
  by (relation "measure (\<lambda>(rs, s). length s)") auto

declare trim_left_runes.simps [simp del]

definition trim_space :: "bytes \<Rightarrow> bytes" where
  "trim_space s = rev (trim_left_runes (map rev space_runes)
                    (rev (trim_left_runes space_runes s)))"

text \<open>
  \<open>strings.ToLower\<close> and \<open>strings.ToUpper\<close> as far as an ASCII comparison can see: ASCII
  letters are mapped, and so are the four non-ASCII letters whose image is an ASCII
  letter (dotted capital I and the Kelvin sign; dotless i and long s). Other non-ASCII
  text is kept as it is: every use of a folded string in the proxy compares it with, or
  searches it for, ASCII text.
\<close>

definition lower_char :: "char \<Rightarrow> char" where
  "lower_char c = (if 65 \<le> byte_val c \<and> byte_val c \<le> 90 then char_of (byte_val c + 32) else c)"

definition upper_char :: "char \<Rightarrow> char" where
  "upper_char c = (if 97 \<le> byte_val c \<and> byte_val c \<le> 122 then char_of (byte_val c - 32) else c)"

fun to_lower :: "bytes \<Rightarrow> bytes" where
  "to_lower [] = []"
| "to_lower (c # s) =
     (if has_prefix (c # s) [CHR 0xC4, CHR 0xB0] then CHR ''i'' # to_lower (drop 1 s)
      else if has_prefix (c # s) [CHR 0xE2, CHR 0x84, CHR 0xAA] then CHR ''k'' # to_lower (drop 2 s)
      else lower_char c # to_lower s)"

fun to_upper :: "bytes \<Rightarrow> bytes" where
  "to_upper [] = []"
| "to_upper (c # s) =
     (if has_prefix (c # s) [CHR 0xC4, CHR 0xB1] then CHR ''I'' # to_upper (drop 1 s)
      else if has_prefix (c # s) [CHR 0xC5, CHR 0xBF] then CHR ''S'' # to_upper (drop 1 s)
      else upper_char c # to_upper s)"

section \<open>strconv: decimal integers\<close>

definition is_digit :: "char \<Rightarrow> bool" where
  "is_digit c = (48 \<le> byte_val c \<and> byte_val c \<le> 57)"

definition digit_val :: "char \<Rightarrow> int" where
  "digit_val c = byte_val c - 48"

definition digit_char :: "int \<Rightarrow> char" where
  "digit_char d = char_of (48 + d)"

fun digits_val :: "int \<Rightarrow> bytes \<Rightarrow> int" where
  "digits_val acc [] = acc"
| "digits_val acc (c # s) = digits_val (10 * acc + digit_val c) s"

text \<open>
  \<open>strconv.ParseUint (s, 10, 64)\<close>: it reads digit by digit and stops at the first byte
  that is not a digit (\<open>Inl False\<close>, a syntax error) or at the digit that leaves 64 bits
  (\<open>Inl True\<close>, a range error), whichever comes first.
\<close>

fun parse_uint64 :: "int \<Rightarrow> bytes \<Rightarrow> bool + int" where
  "parse_uint64 acc [] = Inr acc"
| "parse_uint64 acc (c # s) =
     (if \<not> is_digit c then Inl False
      else let v = 10 * acc + digit_val c
           in if 18446744073709551615 < v then Inl True else parse_uint64 v s)"

text \<open>
  \<open>strconv.ParseInt (s, 10, 64)\<close>: an optional sign and decimal digits. \<open>Inr\<close> the value,
  or \<open>Inl\<close> the value Go returns beside its error: 0 for a syntax error, the nearest
  bound for a range error.
\<close>

definition parse_int64 :: "bytes \<Rightarrow> int + int" where
  "parse_int64 s =
     (let neg = has_prefix s ''-'';
          body = (if neg \<or> has_prefix s ''+'' then tl s else s)
      in if body = [] then Inl 0
         else case parse_uint64 0 body of
                Inl False \<Rightarrow> Inl 0
              | Inl True \<Rightarrow> Inl (if neg then min_int64 else max_int64)
              | Inr v \<Rightarrow> if neg then (if v > - min_int64 then Inl min_int64 else Inr (- v))
                         else (if v > max_int64 then Inl max_int64 else Inr v))"

lemma digit_char_cases: "0 \<le> d \<Longrightarrow> d < 10 \<Longrightarrow> is_digit (digit_char d) \<and> digit_val (digit_char d) = d"
  by (simp add: is_digit_def digit_val_def digit_char_def)

lemma digits_val_append [simp]: "digits_val acc (s @ t) = digits_val (digits_val acc s) t"
  by (induction s arbitrary: acc) auto

lemma digits_val_shift: "digits_val a s = a * 10 ^ length s + digits_val 0 s"
proof (induction s arbitrary: a)
  case (Cons c s)
  from Cons [of "10 * a + digit_val c"] Cons [of "digit_val c"] show ?case by (simp add: algebra_simps)
qed simp

lemma digit_val_0: "digit_val c = 0 \<longleftrightarrow> c = CHR ''0''"
proof
  assume "digit_val c = 0"
  then have "byte_val c = byte_val (CHR ''0'')" by (simp add: digit_val_def)
  then show "c = CHR ''0''" by (simp only: of_char_eq_iff)
qed (simp add: digit_val_def)

lemma digit_val_bounds: "is_digit c \<Longrightarrow> 0 \<le> digit_val c \<and> digit_val c \<le> 9"
  by (simp add: is_digit_def digit_val_def)

lemma digits_val_nonneg: "0 \<le> acc \<Longrightarrow> list_all is_digit s \<Longrightarrow> 0 \<le> digits_val acc s"
  by (induction s arbitrary: acc) (auto simp: is_digit_def digit_val_def)

lemma digits_val_mono: "0 \<le> acc \<Longrightarrow> list_all is_digit s \<Longrightarrow> acc \<le> digits_val acc s"
proof (induction s arbitrary: acc)
  case (Cons c s)
  hence d: "0 \<le> digit_val c" by (simp add: is_digit_def digit_val_def)
  from Cons.IH [of "10 * acc + digit_val c"] Cons.prems d show ?case by simp
qed simp

lemma parse_uint64_digits:
  "0 \<le> acc \<Longrightarrow> list_all is_digit s \<Longrightarrow> digits_val acc s \<le> 18446744073709551615 \<Longrightarrow>
   parse_uint64 acc s = Inr (digits_val acc s)"
proof (induction s arbitrary: acc)
  case (Cons c s)
  hence d: "0 \<le> digit_val c" by (simp add: is_digit_def digit_val_def)
  moreover have "10 * acc + digit_val c \<le> digits_val (10 * acc + digit_val c) s"
    using Cons.prems d by (intro digits_val_mono) auto
  ultimately show ?case using Cons by simp
qed simp

lemma parse_uint64_nonneg: "parse_uint64 acc b = Inr v \<Longrightarrow> 0 \<le> acc \<Longrightarrow> 0 \<le> v"
  by (induction acc b rule: parse_uint64.induct)
    (auto simp: is_digit_def digit_val_def Let_def split: if_splits)

lemma parse_int64_range:
  assumes "parse_int64 s = Inr n"
  shows "n \<le> max_int64"
proof -
  define b where "b = (if has_prefix s ''-'' \<or> has_prefix s ''+'' then tl s else s)"
  show ?thesis
    using assms parse_uint64_nonneg [of 0 b]
    by (auto simp: parse_int64_def Let_def b_def [symmetric] max_int64_def
        split: sum.splits bool.splits if_splits)
qed

text \<open>\<open>atoiSafe\<close>'s \<open>strconv.Atoi\<close>: the value beside an error counts too.\<close>

definition atoi :: "bytes \<Rightarrow> int" where
  "atoi s = (case parse_int64 s of Inl v \<Rightarrow> v | Inr v \<Rightarrow> v)"

section \<open>Lists and maps\<close>

lemma sum_fun_upd_insert:
  fixes f :: "'b \<Rightarrow> int"
  assumes "finite A" "k \<in> A"
  shows "(\<Sum>x\<in>A. f (g x)) = f (g k) + (\<Sum>x\<in>A - {k}. f (g x))"
  using assms by (simp add: sum.remove)

end
