(* ===== verification/Http.thy ===== *)
theory Http
  imports Prelude
begin

text \<open>
  HTTP headers as Go's \<open>net/http\<close> keeps them, the header filters of main.go (hop-by-hop
  headers, headers named by \<open>Connection\<close>, headers a client may not send), and the
  outcomes of I/O the classifiers read: the state of the request context and the error
  of a read.
\<close>

section \<open>Headers\<close>

text \<open>\<open>http.Header\<close>: from the stored key to its values.\<close>

type_synonym header = "bytes \<rightharpoonup> bytes list"

definition token_char :: "char \<Rightarrow> bool" where
  "token_char c =
     (let b = byte_val c in
      (48 \<le> b \<and> b \<le> 57) \<or> (65 \<le> b \<and> b \<le> 90) \<or> (97 \<le> b \<and> b \<le> 122)
      \<or> c \<in> set ''!#$%&*+-.^_`|~'' \<or> b = 39)"

fun canonical_from :: "bool \<Rightarrow> bytes \<Rightarrow> bytes" where
  "canonical_from up [] = []"
| "canonical_from up (c # s) =
     (if up then upper_char c else lower_char c) # canonical_from (c = CHR ''-'') s"

text \<open>\<open>textproto.CanonicalMIMEHeaderKey\<close>: a key that is not a token is left unchanged.\<close>

definition canonical_key :: "bytes \<Rightarrow> bytes" where
  "canonical_key k = (if list_all token_char k then canonical_from True k else k)"

definition header_values :: "header \<Rightarrow> bytes \<Rightarrow> bytes list" where
  "header_values h k = (case h (canonical_key k) of None \<Rightarrow> [] | Some vs \<Rightarrow> vs)"

definition header_get :: "header \<Rightarrow> bytes \<Rightarrow> bytes" where
  "header_get h k = (case header_values h k of [] \<Rightarrow> [] | v # _ \<Rightarrow> v)"

definition header_set :: "header \<Rightarrow> bytes \<Rightarrow> bytes \<Rightarrow> header" where
  "header_set h k v = h(canonical_key k \<mapsto> [v])"

definition header_del :: "header \<Rightarrow> bytes \<Rightarrow> header" where
  "header_del h k = h(canonical_key k := None)"

section \<open>Header filters\<close>

definition hopByHop :: "bytes list" where
  "hopByHop = [''connection'', ''proxy-connection'', ''keep-alive'', ''transfer-encoding'',
     ''te'', ''trailer'', ''upgrade'', ''proxy-authorization'', ''proxy-authenticate'']"

definition stripFromClient :: "bytes list" where
  "stripFromClient = [''x-gateway-error-stage'', ''x-gateway-error-code'', ''x-gateway-retryable'']"

text \<open>The lowercased header names the \<open>Connection\<close> header lists.\<close>

definition connectionTokens :: "header \<Rightarrow> bytes list" where
  "connectionTokens src =
     filter (\<lambda>t. t \<noteq> [])
       (concat (map (\<lambda>v. map (\<lambda>tok. to_lower (trim_space tok)) (split_on CHR '','' v))
          (header_values src ''Connection'')))"

text \<open>\<open>copyForwardHeaders (dst, src)\<close>: what the upstream request carries.\<close>

definition copyForwardHeaders :: "header \<Rightarrow> header \<Rightarrow> header" where
  "copyForwardHeaders dst src =
     (let dropped = connectionTokens src in
      (\<lambda>k. case src k of
            None \<Rightarrow> dst k
          | Some vv \<Rightarrow>
              let lk = to_lower k in
              if lk \<in> set hopByHop \<or> lk \<in> set stripFromClient \<or> lk \<in> set dropped
                 \<or> lk = ''host'' \<or> lk = ''content-length''
              then dst k else Some vv))"

definition safeResponseHeaders :: "header \<Rightarrow> bool \<Rightarrow> header" where
  "safeResponseHeaders src preserveLength =
     (let dropped = connectionTokens src in
      (\<lambda>k. case src k of
            None \<Rightarrow> None
          | Some vv \<Rightarrow>
              let lk = to_lower k in
              if lk \<in> set hopByHop \<or> lk \<in> set dropped \<or> (lk = ''content-length'' \<and> \<not> preserveLength)
              then None else Some vv))"

text \<open>Copying filtered headers over a response's own: \<open>for k, v := range ... { w.Header()[k] = v }\<close>.\<close>

definition header_overlay :: "header \<Rightarrow> header \<Rightarrow> header" where
  "header_overlay base src = (\<lambda>k. case src k of None \<Rightarrow> base k | Some v \<Rightarrow> Some v)"

definition isEventStream :: "bytes \<Rightarrow> bool" where
  "isEventStream ct = contains (to_lower ct) ''text/event-stream''"

section \<open>Contexts and I/O errors\<close>

text \<open>\<open>ctx.Err ()\<close>.\<close>

datatype ctx_err = CtxOk | CtxDeadline | CtxCanceled

text \<open>
  The errors a read or a round trip returns: a clean end, a short body, or any other
  error with its text and whether \<open>errors.Is\<close> finds \<open>context.DeadlineExceeded\<close> or
  \<open>context.Canceled\<close> in it.
\<close>

datatype go_error = EOF | UnexpectedEOF | OtherError bytes bool bool

fun is_deadline :: "go_error \<Rightarrow> bool" where
  "is_deadline (OtherError m d c) = d"
| "is_deadline _ = False"

fun is_canceled :: "go_error \<Rightarrow> bool" where
  "is_canceled (OtherError m d c) = c"
| "is_canceled _ = False"

fun error_text :: "go_error \<Rightarrow> bytes" where
  "error_text EOF = ''EOF''"
| "error_text UnexpectedEOF = ''unexpected EOF''"
| "error_text (OtherError m d c) = m"

section \<open>Lemmas\<close>

lemma safeResponseHeaders_le: "safeResponseHeaders src p \<subseteq>\<^sub>m src"
  by (auto simp: map_le_def safeResponseHeaders_def Let_def split: option.splits if_splits)

lemma header_get_set [simp]: "header_get (header_set h k v) k = v"
  by (simp add: header_get_def header_values_def header_set_def)

lemma header_get_set_other:
  "canonical_key k \<noteq> canonical_key k' \<Longrightarrow> header_get (header_set h k v) k' = header_get h k'"
  by (simp add: header_get_def header_values_def header_set_def)

text \<open>
  Nothing hop-by-hop, reserved for the gateway or named by \<open>Connection\<close> is added to the
  upstream request.
\<close>

lemma copyForwardHeaders_blocked:
  assumes "to_lower k \<in> set hopByHop \<union> set stripFromClient \<union> set (connectionTokens src)
             \<union> {''host'', ''content-length''}"
  shows "copyForwardHeaders dst src k = dst k"
  using assms by (auto simp: copyForwardHeaders_def Let_def split: option.splits)

lemma safeResponseHeaders_blocked:
  assumes "to_lower k \<in> set hopByHop \<union> set (connectionTokens src)"
  shows "safeResponseHeaders src p k = None"
  using assms by (auto simp: safeResponseHeaders_def Let_def split: option.splits)

end
