(* ===== verification/Routes.thy ===== *)
theory Routes
  imports Prelude
begin

text \<open>
  Which wire a request path belongs to (wire.go, systemone.go): segment-exact matching
  of the Messages, Responses and System One routes and the recogniser of Gemini model
  methods, with the theorem that no path belongs to two wires.
\<close>

definition pathIs :: "bytes \<Rightarrow> bytes \<Rightarrow> bool" where
  "pathIs path base = (path = base \<or> has_prefix path (base @ ''/''))"

definition isMessagesPath :: "bytes \<Rightarrow> bool" where
  "isMessagesPath path = (pathIs path ''/v1/messages'' \<and> \<not> contains path ''count_tokens'')"

definition isResponsesPath :: "bytes \<Rightarrow> bool" where
  "isResponsesPath path = pathIs path ''/v1/responses''"

definition isSystemOnePath :: "bytes \<Rightarrow> bool" where
  "isSystemOnePath path = pathIs path ''/v1/systemone''"

definition ascii_letter :: "char \<Rightarrow> bool" where
  "ascii_letter c = ((97 \<le> byte_val c \<and> byte_val c \<le> 122) \<or> (65 \<le> byte_val c \<and> byte_val c \<le> 90))"

definition isASCIILetters :: "bytes \<Rightarrow> bool" where
  "isASCIILetters s = (s \<noteq> [] \<and> list_all ascii_letter s)"

text \<open>
  The resource name after the version segment: under \<open>projects/P/locations/L\<close>, under
  \<open>publishers/google\<close>, or directly under \<open>models/\<close>.
\<close>

definition gemini_name :: "bytes \<Rightarrow> bytes option" where
  "gemini_name resource =
     (case cut_prefix resource ''projects/'' of
        Some rest \<Rightarrow>
          (case str_cut rest ''/locations/'' of
             None \<Rightarrow> None
           | Some (project, rest2) \<Rightarrow>
               if project = [] \<or> contains project ''/'' then None
               else (case str_cut rest2 ''/publishers/google/models/'' of
                       None \<Rightarrow> None
                     | Some (location, rest3) \<Rightarrow>
                         if location = [] \<or> contains location ''/'' then None else Some rest3))
      | None \<Rightarrow>
          (case cut_prefix resource ''publishers/google/models/'' of
             Some rest \<Rightarrow> Some rest
           | None \<Rightarrow> cut_prefix resource ''models/''))"

definition geminiTarget :: "bytes \<Rightarrow> bytes \<times> bytes" where
  "geminiTarget path =
     (case str_cut (trim_prefix path ''/'') ''/'' of
        None \<Rightarrow> ([], [])
      | Some (version, resource) \<Rightarrow>
          if version \<notin> {''v1'', ''v1beta'', ''v1alpha'', ''v1beta1''} then ([], [])
          else (case gemini_name resource of
                  None \<Rightarrow> ([], [])
                | Some name \<Rightarrow>
                    if contains name ''/'' then ([], [])
                    else (case str_cut name '':'' of
                            None \<Rightarrow> ([], [])
                          | Some (model, method) \<Rightarrow>
                              if model = [] \<or> \<not> isASCIILetters method then ([], [])
                              else (model, method))))"

definition isGeminiPath :: "bytes \<Rightarrow> bool" where
  "isGeminiPath path = (snd (geminiTarget path) \<noteq> [])"

section \<open>Lemmas\<close>

lemma pathIs_iff: "pathIs path base \<longleftrightarrow> (\<exists>rest. path = base @ rest \<and> (rest = [] \<or> hd rest = CHR ''/''))"
proof
  assume "pathIs path base"
  then show "\<exists>rest. path = base @ rest \<and> (rest = [] \<or> hd rest = CHR ''/'')"
    by (auto simp: pathIs_def has_prefix_iff)
next
  assume "\<exists>rest. path = base @ rest \<and> (rest = [] \<or> hd rest = CHR ''/'')"
  then obtain rest where r: "path = base @ rest" "rest = [] \<or> hd rest = CHR ''/''" by blast
  then show "pathIs path base"
    by (cases rest) (auto simp: pathIs_def has_prefix_iff)
qed

text \<open>
  The resource of a Gemini path starts with one of three words, none of which starts a
  resource of the other wires.
\<close>

lemma gemini_name_prefix:
  assumes "gemini_name r = Some n"
  shows "has_prefix r ''projects/'' \<or> has_prefix r ''publishers/'' \<or> has_prefix r ''models/''"
  using assms
  by (auto simp: gemini_name_def cut_prefix_def has_prefix_iff split: option.splits if_splits)

lemma str_cut_v1: "str_cut (trim_prefix (''/v1/'' @ r) ''/'') ''/'' = Some (''v1'', r)"
  by (simp add: trim_prefix_def)

lemma isGeminiPath_v1:
  assumes "isGeminiPath (''/v1/'' @ r)"
  shows "has_prefix r ''projects/'' \<or> has_prefix r ''publishers/'' \<or> has_prefix r ''models/''"
proof -
  from assms obtain n where "gemini_name r = Some n"
    unfolding isGeminiPath_def geminiTarget_def str_cut_v1
    by (auto split: option.splits)
  then show ?thesis by (rule gemini_name_prefix)
qed

lemma pathIs_not_gemini:
  assumes "pathIs path (''/v1/'' @ base)" "base \<noteq> []" "hd base \<in> {CHR ''r'', CHR ''s''} \<or> has_prefix base ''mes''"
  shows "\<not> isGeminiPath path"
proof
  assume g: "isGeminiPath path"
  from assms(1) obtain rest where p: "path = ''/v1/'' @ (base @ rest)"
    by (auto simp: pathIs_iff)
  with g have "has_prefix (base @ rest) ''projects/'' \<or> has_prefix (base @ rest) ''publishers/''
      \<or> has_prefix (base @ rest) ''models/''"
    by (simp only: isGeminiPath_v1)
  with assms(2,3) show False
    by (cases base) (auto simp: has_prefix_iff append_eq_Cons_conv Cons_eq_append_conv)
qed

theorem routes_disjoint:
  "\<not> (isMessagesPath path \<and> isResponsesPath path) \<and>
   \<not> (isMessagesPath path \<and> isSystemOnePath path) \<and>
   \<not> (isResponsesPath path \<and> isSystemOnePath path) \<and>
   \<not> (isGeminiPath path \<and>
       (isMessagesPath path \<or> isResponsesPath path \<or> isSystemOnePath path))"
  using pathIs_not_gemini [of path "''responses''"] pathIs_not_gemini [of path "''systemone''"]
    pathIs_not_gemini [of path "''messages''"]
  by (auto simp: isMessagesPath_def isResponsesPath_def isSystemOnePath_def pathIs_iff)

end
