(* ===== verification/Failure.thy ===== *)
theory Failure
  imports Http Routes
begin

text \<open>
  The outcome of a failed upstream attempt (classify.go): the \<open>failure\<close> struct, what of it
  the logs and the client see, and the surfacing rules that hide every retryable
  identity behind one generic 503 and give a client that ignores \<open>X-Should-Retry\<close> a
  status it will not retry.
\<close>

section \<open>itoa\<close>

text \<open>
  The loop of \<open>itoa\<close>: decimal digits of a positive \<open>int\<close>, written from the back. For the
  least 64-bit value the negation wraps to itself and the loop body never runs.
\<close>

function itoa_loop :: "int \<Rightarrow> bytes \<Rightarrow> bytes" where
  "itoa_loop n b = (if 0 < n then itoa_loop (n div 10) (digit_char (n mod 10) # b) else b)"
  by pat_completeness auto
termination
  by (relation "measure (\<lambda>(n, b). nat n)") auto

declare itoa_loop.simps [simp del]

definition itoa :: "int \<Rightarrow> bytes" where
  "itoa n =
     (if n = 0 then ''0''
      else let neg = n < 0; m = (if neg then wrap64 (- n) else n); b = itoa_loop m []
           in if neg then CHR ''-'' # b else b)"

lemma itoa_loop_spec:
  "0 \<le> n \<Longrightarrow> list_all is_digit b \<Longrightarrow>
   list_all is_digit (itoa_loop n b) \<and> (0 < n \<or> b \<noteq> [] \<longrightarrow> itoa_loop n b \<noteq> []) \<and>
   digits_val 0 (itoa_loop n b) = digits_val n b"
proof (induction n b rule: itoa_loop.induct)
  case (1 n b)
  show ?case
  proof (cases "0 < n")
    case True
    have d: "is_digit (digit_char (n mod 10)) \<and> digit_val (digit_char (n mod 10)) = n mod 10"
      by (rule digit_char_cases) auto
    with "1.IH" [OF True] "1.prems" True show ?thesis
      by (subst (1 2 3) itoa_loop.simps) (simp add: d)
  next
    case False
    with "1.prems" show ?thesis
      by (subst (1 2 3) itoa_loop.simps) simp
  qed
qed

text \<open>\<open>strconv.Atoi\<close> reads back what \<open>itoa\<close> writes, except for the least 64-bit value.\<close>

lemma parse_itoa:
  assumes "min_int64 < n" "n \<le> max_int64"
  shows "parse_int64 (itoa n) = Inr n"
proof -
  have w: "n < 0 \<Longrightarrow> wrap64 (- n) = - n"
    using assms by (simp add: min_int64_def max_int64_def)
  have no_sign: "\<not> has_prefix b ''-'' \<and> \<not> has_prefix b ''+''" if "list_all is_digit b" for b
    using that by (cases b) (auto simp: is_digit_def)
  consider "n = 0" | "0 < n" | "n < 0" by linarith
  then show ?thesis
  proof cases
    case 2
    with itoa_loop_spec [of n "[]"] no_sign [of "itoa_loop n []"] assms show ?thesis
      by (auto simp: parse_int64_def itoa_def Let_def parse_uint64_digits max_int64_def)
  next
    case 3
    with itoa_loop_spec [of "- n" "[]"] assms show ?thesis
      by (auto simp: parse_int64_def itoa_def Let_def w parse_uint64_digits min_int64_def)
  qed (simp add: parse_int64_def itoa_def is_digit_def digit_val_def min_int64_def max_int64_def)
qed

section \<open>Failures\<close>

text \<open>A fully read upstream HTTP error response.\<close>

record upstreamReply =
  ur_status :: int
  ur_header :: header
  ur_body :: bytes

record failure =
  f_transient :: bool
  f_fastRetry :: bool
  f_delivered :: bool
  f_status :: int
  f_origStatus :: int
  f_atype :: bytes
  f_code :: bytes
  f_origType :: bytes
  f_origCode :: bytes
  f_message :: bytes
  f_retryAfter :: int
  f_upstream :: "upstreamReply option"

text \<open>The zero value of the struct; a composite literal names the fields it sets.\<close>

definition failure0 :: failure where
  "failure0 = \<lparr>f_transient = False, f_fastRetry = False, f_delivered = False, f_status = 0,
     f_origStatus = 0, f_atype = [], f_code = [], f_origType = [], f_origCode = [],
     f_message = [], f_retryAfter = 0, f_upstream = None\<rparr>"

lemmas failure0_fields [simp, failure_simps] = failure0_def

definition programName :: bytes where
  "programName = ''steady-proxy''"

definition statusFor :: "failure \<Rightarrow> int" where
  "statusFor f = (if f_status f = 0 then 502 else f_status f)"

definition msgFor :: "failure \<Rightarrow> bytes" where
  "msgFor f = (if f_message f = [] then programName @ '': upstream failure''
               else programName @ '': '' @ f_message f)"

definition statusField :: "int \<Rightarrow> int \<Rightarrow> bytes" where
  "statusField orig surfaced =
     (if surfaced = 0 \<or> orig = surfaced then itoa orig else itoa orig @ ''->'' @ itoa surfaced)"

definition origStatusOf :: "failure \<Rightarrow> int" where
  "origStatusOf f = (if f_origStatus f \<noteq> 0 then f_origStatus f else statusFor f)"

definition origTypeOf :: "failure \<Rightarrow> bytes" where
  "origTypeOf f = (if f_origType f \<noteq> [] then f_origType f else f_atype f)"

definition errTooLarge :: go_error where
  "errTooLarge = OtherError ''response too large to buffer'' False False"

definition classifyBufferError :: "go_error \<Rightarrow> failure" where
  "classifyBufferError err =
     (if err = errTooLarge then
        failure0\<lparr>f_status := 502, f_atype := ''api_error'', f_code := ''response_too_large'',
          f_message := ''response exceeded proxy buffer cap''\<rparr>
      else
        failure0\<lparr>f_transient := True, f_status := 502, f_atype := ''api_error'',
          f_code := ''spool_error'', f_message := ''buffering upstream response: '' @ error_text err\<rparr>)"

definition malformedSSE :: "bytes \<Rightarrow> failure" where
  "malformedSSE m = failure0\<lparr>f_transient := True, f_status := 502, f_atype := ''api_error'',
     f_code := ''malformed_sse'', f_message := m\<rparr>"

definition failDeadline :: failure where
  "failDeadline = failure0\<lparr>f_transient := True, f_status := 504, f_atype := ''timeout_error'',
     f_code := ''deadline'', f_message := ''attempt deadline exceeded''\<rparr>"

definition classifyTransport :: "go_error \<Rightarrow> ctx_err \<Rightarrow> failure" where
  "classifyTransport err ctx =
     (if ctx = CtxDeadline \<or> is_deadline err then failDeadline
      else if ctx = CtxCanceled \<or> is_canceled err then
        failure0\<lparr>f_transient := False, f_status := 499, f_atype := ''api_error'',
          f_code := ''client_gone'', f_message := ''client cancelled''\<rparr>
      else
        failure0\<lparr>f_transient := True, f_fastRetry := True, f_status := 502,
          f_atype := ''api_error'', f_code := ''transport_error'',
          f_message := ''upstream connection failed''\<rparr>)"

section \<open>What the client sees\<close>

definition retryableSurfaceStatus :: int where
  "retryableSurfaceStatus = 503"

definition surface :: "failure \<Rightarrow> int \<times> bytes" where
  "surface f = (if f_transient f then (retryableSurfaceStatus, ''api_error'')
                else (statusFor f, f_atype f))"

definition surfaceFor :: "bytes \<Rightarrow> failure \<Rightarrow> int \<times> bytes" where
  "surfaceFor path f =
     (case surface f of (status, atype) \<Rightarrow>
        if \<not> f_transient f \<and> isResponsesPath path \<and> status \<noteq> 400 \<and> status \<noteq> 429
        then (400, atype) else (status, atype))"

definition retrySurfaceFor :: "bytes \<Rightarrow> failure \<Rightarrow> bool \<Rightarrow> int \<times> bytes" where
  "retrySurfaceFor path f canRetry =
     (let f' =
        (if (isResponsesPath path \<or> isGeminiPath path \<or> isSystemOnePath path) \<and> \<not> canRetry then
           (let wasTransient = f_transient f; g = f\<lparr>f_transient := False\<rparr>; status = statusFor g in
            if (isGeminiPath path \<or> isSystemOnePath path)
               \<and> (wasTransient \<or> status = 408 \<or> status = 429 \<or> 500 \<le> status)
            then g\<lparr>f_status := 400\<rparr> else g)
         else f)
      in surfaceFor path f')"

section \<open>Properties of the surfacing rules\<close>

lemma surface_transient: "f_transient f \<Longrightarrow> surface f = (503, ''api_error'')"
  by (simp add: surface_def retryableSurfaceStatus_def)

lemma surfaceFor_transient: "f_transient f \<Longrightarrow> surfaceFor path f = (503, ''api_error'')"
  by (simp add: surfaceFor_def surface_transient)

text \<open>
  A retryable failure that is handed to the client for retry carries no identity of
  its cause: on every route, whatever status, type, code or message was classified, the
  client is shown status 503 and type api_error.
\<close>

theorem retry_masks_identity:
  assumes "f_transient f"
  shows "retrySurfaceFor path f True = (503, ''api_error'')"
  using assms by (simp add: retrySurfaceFor_def surfaceFor_transient)

theorem retry_masks_identity_witness:
  "retrySurfaceFor ''/v1/messages''
     (failure0\<lparr>f_transient := True, f_status := 529, f_atype := ''overloaded_error''\<rparr>) True
   = (503, ''api_error'')"
  by (rule retry_masks_identity) simp

text \<open>
  The statuses at which the SDK of each status-driven client repeats a request by
  itself: Codex repeats everything but 400 and 429; the Google and TypeSafe SDKs repeat
  408, 429 and the server errors.
\<close>

definition client_retries_status :: "bytes \<Rightarrow> int \<Rightarrow> bool" where
  "client_retries_status path st =
     (if isResponsesPath path then st \<noteq> 400 \<and> st \<noteq> 429
      else if isGeminiPath path \<or> isSystemOnePath path then st = 408 \<or> st = 429 \<or> 500 \<le> st
      else False)"

lemma surfaced_status_stops: "\<not> client_retries_status path (fst (retrySurfaceFor path f False))"
  using routes_disjoint [of path]
  by (auto simp: client_retries_status_def retrySurfaceFor_def surfaceFor_def surface_def
      statusFor_def Let_def split: if_splits)

text \<open>
  When no retry is offered (a terminal failure, or the retry budget is spent), the
  surfaced status is never one a status-driven client would retry by itself, whatever
  failure was classified.
\<close>

theorem terminal_status_stops_client:
  "\<not> client_retries_status path (fst (retrySurfaceFor path f False))"
  by (rule surfaced_status_stops)

text \<open>
  The Anthropic-shaped routes keep the classified status and type of a terminal failure.
\<close>

lemma terminal_keeps_identity:
  assumes "\<not> f_transient f" "\<not> isResponsesPath path" "\<not> isGeminiPath path" "\<not> isSystemOnePath path"
  shows "retrySurfaceFor path f canRetry = (statusFor f, f_atype f)"
  using assms by (simp add: retrySurfaceFor_def surfaceFor_def surface_def)

end
