(* ===== verification/Sse_Parser.thy ===== *)
theory Sse_Parser
  imports Failure
begin

text \<open>
  The incremental server-sent-events parser (sse.go: \<open>event\<close>, \<open>curEvent\<close>, \<open>sseParser\<close>,
  \<open>feedChunk\<close>, \<open>appendRaw\<close>, \<open>finishLine\<close>). Every event carries the exact bytes it was
  parsed from, which is what the spool stores and replays.

  The reference the parser is proved against is \<open>feed_bytes\<close>, which looks at one byte at a
  time: it gives independence from the chunk boundaries of the upstream reads, and the
  round trip that re-parsing what was spooled gives the same events.
\<close>

section \<open>State\<close>

record event =
  ev_name :: bytes
  ev_data :: bytes
  ev_raw :: bytes

record curEvent =
  cur_has :: bool
  cur_hasData :: bool
  cur_name :: bytes
  cur_data :: bytes

record sseParser =
  p_max :: int
  p_err :: "go_error option"
  p_raw :: bytes
  p_lineStart :: nat
  p_cr :: bool
  p_started :: bool
  p_cur :: curEvent

abbreviation LF :: char where "LF \<equiv> CHR 0x0A"
abbreviation CR :: char where "CR \<equiv> CHR 0x0D"

definition bom :: bytes where
  "bom = [CHR 0xEF, CHR 0xBB, CHR 0xBF]"

definition cur0 :: curEvent where
  "cur0 = \<lparr>cur_has = False, cur_hasData = False, cur_name = [], cur_data = []\<rparr>"

definition newParser :: "int \<Rightarrow> sseParser" where
  "newParser maxEventBytes = \<lparr>p_max = maxEventBytes, p_err = None, p_raw = [], p_lineStart = 0,
     p_cr = False, p_started = False, p_cur = cur0\<rparr>"

section \<open>Operations\<close>

definition appendRaw :: "sseParser \<Rightarrow> bytes \<Rightarrow> sseParser \<times> bool" where
  "appendRaw p b =
     (if 0 < p_max p \<and> p_max p - int (length (p_raw p)) < int (length b)
      then (p\<lparr>p_err := Some errTooLarge\<rparr>, False)
      else (p\<lparr>p_raw := p_raw p @ b\<rparr>, True))"

text \<open>The fields of one line: \<open>field: value\<close> with one optional space.\<close>

definition line_field :: "bytes \<Rightarrow> bytes \<times> bytes" where
  "line_field line =
     (case str_cut line '':'' of
        None \<Rightarrow> (line, [])
      | Some (field, value) \<Rightarrow> (field, trim_prefix value '' ''))"

definition set_field :: "bytes \<times> bytes \<Rightarrow> curEvent \<Rightarrow> curEvent" where
  "set_field fv c0 =
     (let (field, value) = fv; c = c0\<lparr>cur_has := True\<rparr>
      in if field = ''event'' then c\<lparr>cur_name := value\<rparr>
         else if field = ''data''
         then c\<lparr>cur_data := (if cur_hasData c then cur_data c @ [LF] else cur_data c) @ value,
                cur_hasData := True\<rparr>
         else c)"

definition finishLine :: "nat \<Rightarrow> sseParser \<Rightarrow> sseParser \<times> event list" where
  "finishLine ending p =
     (let line0 = drop (p_lineStart p) (take (length (p_raw p) - ending) (p_raw p));
          line = (if p_started p then line0 else trim_prefix line0 bom);
          q = p\<lparr>p_lineStart := length (p_raw p), p_started := True\<rparr>
      in if line = [] then
           (q\<lparr>p_raw := [], p_lineStart := 0, p_cur := (if cur_has (p_cur p) then cur0 else p_cur p)\<rparr>,
            if cur_has (p_cur p)
            then [\<lparr>ev_name = cur_name (p_cur p), ev_data = cur_data (p_cur p), ev_raw = p_raw p\<rparr>]
            else [])
         else if hd line = CHR '':'' then (q, [])
         else (q\<lparr>p_cur := set_field (line_field line) (p_cur p)\<rparr>, []))"

definition is_eol :: "char \<Rightarrow> bool" where
  "is_eol c = (c = CR \<or> c = LF)"

text \<open>The bytes up to and including the first line ending, if there is one, and the rest.\<close>

fun next_seg :: "bytes \<Rightarrow> bytes \<times> bytes" where
  "next_seg [] = ([], [])"
| "next_seg (c # b) =
     (if is_eol c then ([c], b) else (case next_seg b of (s, r) \<Rightarrow> (c # s, r)))"

text \<open>
  The head of the loop body: a pending CR is resolved by the next byte or by the end of
  the stream. \<open>Inl\<close> leaves the loop.
\<close>

definition resolve_cr ::
    "sseParser \<Rightarrow> bytes \<Rightarrow> bool \<Rightarrow> (sseParser \<times> event list) + (sseParser \<times> bytes \<times> event list)" where
  "resolve_cr p b eof =
     (if p_cr p then
        if b = [] \<and> \<not> eof then Inl (p, [])
        else if b \<noteq> [] \<and> hd b = LF then
          (case appendRaw p [hd b] of (p1, ok) \<Rightarrow>
             if \<not> ok then Inl (p1, [])
             else (case finishLine 2 (p1\<lparr>p_cr := False\<rparr>) of (p2, es) \<Rightarrow> Inr (p2, tl b, es)))
        else (case finishLine 1 (p\<lparr>p_cr := False\<rparr>) of (p2, es) \<Rightarrow> Inr (p2, b, es))
      else Inr (p, b, []))"

lemma next_seg_append: "next_seg b = (s, r) \<Longrightarrow> b = s @ r"
  by (induction b arbitrary: s r) (auto split: if_splits prod.splits)

lemma next_seg_nonempty: "b \<noteq> [] \<Longrightarrow> fst (next_seg b) \<noteq> []"
  by (cases b) (auto split: prod.splits)

lemma next_seg_shorter:
  assumes "b \<noteq> []" "next_seg b = (s, r)"
  shows "length r < length b"
  using next_seg_append [OF assms(2)] next_seg_nonempty [OF assms(1)] assms(2) by auto

lemma finishLine_keeps [simp]:
  "p_cr (fst (finishLine n p)) = p_cr p" "p_err (fst (finishLine n p)) = p_err p"
  "p_max (fst (finishLine n p)) = p_max p" "p_started (fst (finishLine n p))"
  by (simp_all add: finishLine_def Let_def)

lemma appendRaw_keeps [simp]:
  "p_cr (fst (appendRaw p b)) = p_cr p" "p_max (fst (appendRaw p b)) = p_max p"
  "snd (appendRaw p b) \<Longrightarrow> p_err (fst (appendRaw p b)) = p_err p"
  by (auto simp: appendRaw_def)

lemma resolve_cr_length:
  assumes "resolve_cr p b eof = Inr (q, b', es)"
  shows "length b' \<le> length b" "\<not> p_cr q"
  using assms finishLine_keeps(1) [of 1 "p\<lparr>p_cr := False\<rparr>"]
    finishLine_keeps(1) [of 2 "fst (appendRaw p [hd b])\<lparr>p_cr := False\<rparr>"]
  by (auto simp: resolve_cr_def case_prod_beta split: if_splits simp del: finishLine_keeps)

function feed_loop :: "sseParser \<Rightarrow> bytes \<Rightarrow> bool \<Rightarrow> event list \<Rightarrow> sseParser \<times> event list" where
  "feed_loop p b eof out =
     (if p_err p \<noteq> None then (p, out)
      else case resolve_cr p b eof of
             Inl (q, es) \<Rightarrow> (q, out @ es)
           | Inr (q, b1, es) \<Rightarrow>
               if b1 = [] then (q, out @ es)
               else (case next_seg b1 of (s, r) \<Rightarrow>
                       (case appendRaw q s of (q1, ok) \<Rightarrow>
                          if \<not> ok \<or> \<not> is_eol (last s) then (q1, out @ es)
                          else if last s = CR then feed_loop (q1\<lparr>p_cr := True\<rparr>) r eof (out @ es)
                          else (case finishLine 1 q1 of (q2, es2) \<Rightarrow>
                                  feed_loop q2 r eof (out @ es @ es2)))))"
  by pat_completeness auto
termination
proof (relation "measure (\<lambda>(p, b, eof, out). length b)")
qed (auto dest!: resolve_cr_length(1) dest: next_seg_shorter [OF _ sym])

declare feed_loop.simps [simp del]

definition feedChunk :: "sseParser \<Rightarrow> bytes \<Rightarrow> bool \<Rightarrow> sseParser \<times> event list" where
  "feedChunk p b eof = feed_loop p b eof []"

definition feed :: "sseParser \<Rightarrow> bytes \<Rightarrow> sseParser \<times> event list" where
  "feed p b = feedChunk p b False"

section \<open>The byte-at-a-time reference\<close>

definition add_byte :: "sseParser \<Rightarrow> char \<Rightarrow> sseParser \<times> event list" where
  "add_byte p c =
     (case appendRaw p [c] of (q, ok) \<Rightarrow>
        if \<not> ok then (q, [])
        else if c = CR then (q\<lparr>p_cr := True\<rparr>, [])
        else if c = LF then finishLine 1 q
        else (q, []))"

definition feed_byte :: "sseParser \<Rightarrow> char \<Rightarrow> sseParser \<times> event list" where
  "feed_byte p c =
     (if p_err p \<noteq> None then (p, [])
      else if p_cr p then
        (if c = LF then
           (case appendRaw p [c] of (q, ok) \<Rightarrow>
              if ok then finishLine 2 (q\<lparr>p_cr := False\<rparr>) else (q, []))
         else (case finishLine 1 (p\<lparr>p_cr := False\<rparr>) of (q, es) \<Rightarrow>
                 (case add_byte q c of (r, fs) \<Rightarrow> (r, es @ fs))))
      else add_byte p c)"

fun feed_bytes :: "sseParser \<Rightarrow> bytes \<Rightarrow> sseParser \<times> event list" where
  "feed_bytes p [] = (p, [])"
| "feed_bytes p (c # b) =
     (case feed_byte p c of (q, es) \<Rightarrow> (case feed_bytes q b of (r, fs) \<Rightarrow> (r, es @ fs)))"

lemma feed_bytes_err: "p_err p \<noteq> None \<Longrightarrow> feed_bytes p b = (p, [])"
  by (induction b) (auto simp: feed_byte_def)

text \<open>
  After an over-long event only the error is used, so two results agree when the events
  and the error agree and, without an error, the states do.
\<close>

definition agree :: "sseParser \<times> event list \<Rightarrow> sseParser \<times> event list \<Rightarrow> bool" where
  "agree x y = (snd x = snd y \<and> p_err (fst x) = p_err (fst y) \<and> (p_err (fst x) = None \<longrightarrow> fst x = fst y))"

lemma agree_refl [simp]: "agree x x"
  by (simp add: agree_def)

lemma agree_sym: "agree x y \<Longrightarrow> agree y x"
  unfolding agree_def by metis

lemma agree_trans: "agree x y \<Longrightarrow> agree y z \<Longrightarrow> agree x z"
  unfolding agree_def by metis

definition emit :: "event list \<Rightarrow> sseParser \<times> event list \<Rightarrow> sseParser \<times> event list" where
  "emit es x = (fst x, es @ snd x)"

lemma emit_simps [simp]: "emit es (q, fs) = (q, es @ fs)" "emit es (emit fs x) = emit (es @ fs) x" "emit [] x = x"
  by (simp_all add: emit_def)

lemma agree_emit: "agree x y \<Longrightarrow> agree (emit es x) (emit es y)"
  unfolding agree_def emit_def fst_conv snd_conv by metis

lemma feed_bytes_Cons: "feed_bytes p (c # b) = emit (snd (feed_byte p c)) (feed_bytes (fst (feed_byte p c)) b)"
  unfolding feed_bytes.simps emit_def case_prod_beta by (rule refl)

lemma feed_bytes_app: "feed_bytes p (a @ b) = emit (snd (feed_bytes p a)) (feed_bytes (fst (feed_bytes p a)) b)"
  by (induction a arbitrary: p) (simp_all add: emit_def case_prod_beta)

text \<open>The end of the stream completes the line a final CR ended.\<close>

definition close_line :: "sseParser \<Rightarrow> sseParser \<times> event list" where
  "close_line p = (if p_err p = None \<and> p_cr p then finishLine 1 (p\<lparr>p_cr := False\<rparr>) else (p, []))"

definition feed_end :: "bool \<Rightarrow> sseParser \<Rightarrow> bytes \<Rightarrow> sseParser \<times> event list" where
  "feed_end eof p b =
     emit (snd (feed_bytes p b))
       (if eof then close_line (fst (feed_bytes p b)) else (fst (feed_bytes p b), []))"

lemma feed_end_err: "p_err p \<noteq> None \<Longrightarrow> feed_end eof p b = (p, [])"
  by (auto simp: feed_end_def feed_bytes_err close_line_def)

lemma feed_end_Nil: "\<not> p_cr p \<Longrightarrow> feed_end eof p [] = (p, [])"
  by (simp add: feed_end_def close_line_def)

lemma feed_end_app: "feed_end eof p (a @ b) = emit (snd (feed_bytes p a)) (feed_end eof (fst (feed_bytes p a)) b)"
  unfolding feed_end_def feed_bytes_app by (simp add: emit_def)

lemma feed_end_False: "feed_end False p b = feed_bytes p b"
  by (simp add: feed_end_def)

lemma agree_feed:
  "agree x y \<Longrightarrow> agree (emit (snd x) (feed_end eof (fst x) b)) (emit (snd y) (feed_end eof (fst y) b))"
proof (cases "p_err (fst x) = None")
  case True
  assume "agree x y"
  with True have "x = y" by (simp add: agree_def prod_eq_iff)
  thus ?thesis by simp
next
  case False
  assume "agree x y"
  moreover from this False have "p_err (fst y) \<noteq> None" unfolding agree_def by metis
  ultimately show ?thesis
    unfolding agree_def emit_def fst_conv snd_conv
      feed_end_err [OF False] feed_end_err [OF \<open>p_err (fst y) \<noteq> None\<close>] append_Nil2
    by metis
qed

lemma appendRaw_err [simp]: "\<not> snd (appendRaw p s) \<Longrightarrow> p_err (fst (appendRaw p s)) = Some errTooLarge"
  by (simp add: appendRaw_def split: if_splits)

text \<open>What the loop body does with a segment is what the bytes do one at a time.\<close>

definition take_seg :: "sseParser \<Rightarrow> bytes \<Rightarrow> sseParser \<times> event list" where
  "take_seg p s =
     (case appendRaw p s of (q, ok) \<Rightarrow>
        if \<not> ok \<or> \<not> is_eol (last s) then (q, [])
        else if last s = CR then (q\<lparr>p_cr := True\<rparr>, [])
        else finishLine 1 q)"

lemma take_seg_single: "take_seg p [c] = add_byte p c"
  by (auto simp: take_seg_def add_byte_def is_eol_def split: prod.splits)

lemma feed_byte_plain:
  "\<not> p_cr p \<Longrightarrow> p_err p = None \<Longrightarrow> \<not> is_eol c \<Longrightarrow> feed_byte p c = (fst (appendRaw p [c]), [])"
  by (auto simp: feed_byte_def add_byte_def is_eol_def split: prod.splits)

lemma take_seg_Cons:
  assumes "s \<noteq> []"
  shows "agree (if snd (appendRaw p [c]) then take_seg (fst (appendRaw p [c])) s
                else (fst (appendRaw p [c]), [])) (take_seg p (c # s))"
proof (cases "snd (appendRaw p [c]) \<and> snd (appendRaw (fst (appendRaw p [c])) s)")
  case True
  hence "appendRaw p (c # s) = appendRaw (fst (appendRaw p [c])) s"
    by (auto simp: appendRaw_def split: if_splits)
  with True assms show ?thesis by (simp add: take_seg_def case_prod_beta)
next
  case False
  hence "\<not> snd (appendRaw p (c # s))" by (auto simp: appendRaw_def split: if_splits)
  with False appendRaw_err show ?thesis
    by (simp add: take_seg_def agree_def case_prod_beta)
qed

lemma feed_bytes_seg:
  assumes "s \<noteq> []" "\<not> p_cr p" "p_err p = None" "\<forall>c \<in> set (butlast s). \<not> is_eol c"
  shows "agree (feed_bytes p s) (take_seg p s)"
  using assms
proof (induction s arbitrary: p rule: list_nonempty_induct)
  case (single c)
  then show ?case by (simp add: take_seg_single feed_byte_def case_prod_beta)
next
  case (cons c s)
  let ?q = "fst (appendRaw p [c])"
  have b: "feed_byte p c = (?q, [])" using cons.prems cons.hyps by (simp add: feed_byte_plain)
  have "agree (feed_bytes ?q s) (if snd (appendRaw p [c]) then take_seg ?q s else (?q, []))"
  proof (cases "snd (appendRaw p [c])")
    case True
    with cons.prems cons.hyps have "agree (feed_bytes ?q s) (take_seg ?q s)"
      by (intro cons.IH) auto
    with True show ?thesis by simp
  next
    case False
    then show ?thesis by (simp add: feed_bytes_err)
  qed
  from agree_trans [OF this take_seg_Cons [OF cons.hyps]] b show ?case
    by (simp add: feed_bytes_Cons)
qed

text \<open>A pending CR that the next byte resolves.\<close>

lemma resolve_cr_bytes:
  assumes "p_err p = None" "b \<noteq> []"
  shows "case resolve_cr p b eof of
           Inl x \<Rightarrow> agree (feed_bytes p b) x \<and> p_err (fst x) \<noteq> None
         | Inr (q, b', es) \<Rightarrow> p_err q = None \<and> \<not> p_cr q \<and> feed_bytes p b = emit es (feed_bytes q b')"
proof (cases "p_cr p")
  case False
  with assms show ?thesis by (simp add: resolve_cr_def)
next
  case True
  obtain c b' where b: "b = c # b'" using assms(2) by (cases b) auto
  show ?thesis
  proof (cases "c = LF")
    case False
    have "feed_byte p c = emit (snd (finishLine 1 (p\<lparr>p_cr := False\<rparr>)))
            (feed_byte (fst (finishLine 1 (p\<lparr>p_cr := False\<rparr>))) c)"
      using True False assms(1) by (simp add: feed_byte_def emit_def case_prod_beta)
    with True False assms(1) b show ?thesis
      by (simp add: resolve_cr_def case_prod_beta feed_bytes_Cons emit_def)
  next
    case c: True
    show ?thesis
    proof (cases "snd (appendRaw p [c])")
      case ok: True
      with True assms(1) b c show ?thesis
        by (simp add: resolve_cr_def case_prod_beta feed_bytes_Cons feed_byte_def emit_def)
    next
      case bad: False
      with True assms(1) b c show ?thesis
        by (simp add: resolve_cr_def case_prod_beta feed_bytes_Cons feed_byte_def feed_bytes_err emit_def)
    qed
  qed
qed

lemma next_seg_butlast: "\<forall>c \<in> set (butlast (fst (next_seg b))). \<not> is_eol c"
  by (induction b) (auto split: prod.splits)

lemma next_seg_eol: "snd (next_seg b) \<noteq> [] \<Longrightarrow> is_eol (last (fst (next_seg b)))"
proof (induction b)
  case (Cons c b)
  show ?case
  proof (cases "is_eol c")
    case False
    with Cons have "is_eol (last (fst (next_seg b)))" "b \<noteq> []" by (auto split: prod.splits)
    with False next_seg_nonempty [of b] show ?thesis by (simp add: case_prod_beta)
  qed simp
qed simp

lemma feed_loop_step:
  assumes "p_err p = None" "resolve_cr p b eof = Inr (q, b1, es)" "b1 \<noteq> []" "next_seg b1 = (s, r)"
  shows "feed_loop p b eof out =
     (if snd (appendRaw q s) \<and> is_eol (last s)
      then feed_loop (fst (take_seg q s)) r eof (out @ es @ snd (take_seg q s))
      else (fst (appendRaw q s), out @ es))"
  using assms by (subst feed_loop.simps) (simp add: take_seg_def case_prod_beta)

lemma feed_loop_stop:
  "p_err p \<noteq> None \<Longrightarrow> feed_loop p b eof out = (p, out)"
  "p_err p = None \<Longrightarrow> resolve_cr p b eof = Inl x \<Longrightarrow> feed_loop p b eof out = emit out x"
  "p_err p = None \<Longrightarrow> resolve_cr p b eof = Inr (q, [], es) \<Longrightarrow> feed_loop p b eof out = (q, out @ es)"
  by (subst feed_loop.simps, simp add: emit_def case_prod_beta)+

lemma feed_loop_seg:
  assumes "p_err q = None" "\<not> p_cr q" "b1 \<noteq> []" "next_seg b1 = (s, r)"
    and IH: "\<And>p out. agree (feed_loop p r eof out) (emit out (feed_end eof p r))"
  shows "agree (if snd (appendRaw q s) \<and> is_eol (last s)
      then feed_loop (fst (take_seg q s)) r eof (out @ snd (take_seg q s))
      else (fst (appendRaw q s), out)) (emit out (feed_end eof q b1))"
proof -
  have s: "s \<noteq> []" "\<forall>c \<in> set (butlast s). \<not> is_eol c"
    using next_seg_nonempty [OF assms(3)] next_seg_butlast [of b1] assms(4) by auto
  let ?t = "take_seg q s"
  have "agree (emit (snd (feed_bytes q s)) (feed_end eof (fst (feed_bytes q s)) r))
              (emit (snd ?t) (feed_end eof (fst ?t) r))"
    using agree_feed [OF feed_bytes_seg [OF s(1) assms(2,1) s(2)]] .
  then have fb: "agree (emit (snd ?t) (feed_end eof (fst ?t) r)) (feed_end eof q b1)"
    using feed_end_app [of eof q s r] next_seg_append [OF assms(4)] by (metis agree_sym)
  show ?thesis
  proof (cases "snd (appendRaw q s) \<and> is_eol (last s)")
    case True
    with agree_trans [OF IH [of "fst ?t" "out @ snd ?t"] agree_emit [OF fb, of out, unfolded emit_simps]]
    show ?thesis by (simp only: simp_thms if_True)
  next
    case False
    hence t: "take_seg q s = (fst (appendRaw q s), [])"
      by (auto simp: take_seg_def case_prod_beta)
    have "feed_end eof (fst (appendRaw q s)) r = (fst (appendRaw q s), [])"
    proof (cases "snd (appendRaw q s)")
      case True
      with False next_seg_eol [of b1] assms(4) have "r = []" by auto
      with assms(2) show ?thesis by (simp add: feed_end_Nil)
    next
      case False
      then show ?thesis by (simp add: feed_end_err)
    qed
    with agree_emit [OF fb, of out] False t show ?thesis by (simp only: if_False) simp
  qed
qed

text \<open>The loop is the byte-at-a-time parser on every chunk.\<close>

lemma feed_loop_bytes: "agree (feed_loop p b eof out) (emit out (feed_end eof p b))"
proof (induction b arbitrary: p out rule: length_induct)
  case (1 b)
  consider "p_err p \<noteq> None" | "p_err p = None" "b = []" | "p_err p = None" "b \<noteq> []" by blast
  then show ?case
  proof cases
    case 1
    then show ?thesis by (simp add: feed_loop_stop(1) feed_end_err)
  next
    case 2
    then show ?thesis
      by (subst feed_loop.simps) (simp add: resolve_cr_def feed_end_def close_line_def emit_def case_prod_beta)
  next
    case 3
    note res = resolve_cr_bytes [OF 3, of eof]
    show ?thesis
    proof (cases "resolve_cr p b eof")
      case (Inl x)
      with res have x: "agree (feed_bytes p b) x" "p_err (fst x) \<noteq> None" by auto
      from agree_feed [OF x(1), of eof "[]"] x(2) have "agree (feed_end eof p b) x"
        using feed_end_app [of eof p b "[]"] by (simp add: feed_end_err emit_def)
      from agree_emit [OF agree_sym [OF this], of out] show ?thesis
        using feed_loop_stop(2) [OF 3(1) Inl] by simp
    next
      case (Inr y)
      obtain q b1 es where y: "y = (q, b1, es)" by (cases y)
      from Inr y res have q: "p_err q = None" "\<not> p_cr q"
        and fb: "feed_bytes p b = emit es (feed_bytes q b1)" by auto
      have fe: "feed_end eof p b = emit es (feed_end eof q b1)"
        unfolding feed_end_def fb by (simp add: emit_def)
      show ?thesis
      proof (cases "b1 = []")
        case True
        with Inr y 3 q fe show ?thesis by (simp add: feed_loop_stop(3) feed_end_Nil)
      next
        case False
        obtain s r where sr: "next_seg b1 = (s, r)" by force
        have "length r < length b"
          using next_seg_shorter [OF False sr] resolve_cr_length(1) [OF Inr [unfolded y]] by simp
        with "1.IH" have "agree (feed_loop p r eof out) (emit out (feed_end eof p r))" for p out
          by blast
        from feed_loop_seg [OF q False sr this, of "out @ es"]
          feed_loop_step [OF 3(1) Inr [unfolded y] False sr, of out] fe
        show ?thesis by (simp only: emit_simps append_assoc)
      qed
    qed
  qed
qed

lemma feedChunk_bytes: "agree (feedChunk p b eof) (feed_end eof p b)"
  using feed_loop_bytes [of p b eof "[]"] by (simp add: feedChunk_def)

section \<open>Blocks\<close>

text \<open>
  Between two blank lines the parser is a function of the bytes it holds: reading them
  again from the start of a block leads to the same state and emits nothing.
\<close>

definition at_start :: "int \<Rightarrow> bool \<Rightarrow> sseParser" where
  "at_start m st = (newParser m)\<lparr>p_started := st\<rparr>"

lemma at_start_simps [simp]:
  "p_max (at_start m st) = m" "p_err (at_start m st) = None" "p_raw (at_start m st) = []"
  "p_lineStart (at_start m st) = 0" "\<not> p_cr (at_start m st)" "p_started (at_start m st) = st"
  "p_cur (at_start m st) = cur0"
  by (simp_all add: at_start_def newParser_def)

text \<open>
  \<open>st\<close> tells whether the first line of the stream has been read when the block begins. Of
  some events in order only the first can belong to a block that begins before it has.
\<close>

definition block_inv :: "bool \<Rightarrow> sseParser \<Rightarrow> bool" where
  "block_inv st p = (p_err p = None \<and> feed_bytes (at_start (p_max p) st) (p_raw p) = (p, []) \<and>
     (p_raw p = [] \<or> hd (p_raw p) \<noteq> LF) \<and> (cur_has (p_cur p) \<or> p_cur p = cur0))"

definition good_event :: "int \<Rightarrow> bool \<Rightarrow> event \<Rightarrow> bool" where
  "good_event m st ev =
     (feed_end True (at_start m st) (ev_raw ev) = (at_start m True, [ev]) \<and>
      ev_raw ev \<noteq> [] \<and> hd (ev_raw ev) \<noteq> LF)"

fun good_events :: "int \<Rightarrow> bool \<Rightarrow> event list \<Rightarrow> bool" where
  "good_events m st [] = True"
| "good_events m st (ev # evs) =
     ((\<exists>st'. (st \<longrightarrow> st') \<and> good_event m st' ev) \<and> (\<forall>e \<in> set evs. good_event m True e))"

lemma good_events_True: "good_events m True evs \<longleftrightarrow> (\<forall>e \<in> set evs. good_event m True e)"
  by (cases evs) auto

lemma good_events_append:
  "good_events m st es \<Longrightarrow> good_events m st' fs \<Longrightarrow> (st \<or> es \<noteq> [] \<longrightarrow> st') \<Longrightarrow> good_events m st (es @ fs)"
  by (cases es; cases fs) (auto simp: good_events_True)

lemma block_inv_start: "block_inv st (at_start m st)"
  by (auto simp: block_inv_def)

lemma block_inv_empty: "block_inv st p \<Longrightarrow> p_raw p = [] \<Longrightarrow> p = at_start (p_max p) st"
  by (auto simp: block_inv_def)

lemma set_field_has: "cur_has (set_field fv c)"
  by (auto simp: set_field_def Let_def split: prod.splits)

lemma finishLine_cases:
  assumes "finishLine n p = (q, es)" "p_err p = None" "\<not> p_cr p" "cur_has (p_cur p) \<or> p_cur p = cur0"
  obtains (blank) "q = at_start (p_max p) True" "es = []"
  | (event) ev where "q = at_start (p_max p) True" "es = [ev]" "ev_raw ev = p_raw p" "cur_has (p_cur p)"
  | (line) "es = []" "p_raw q = p_raw p" "cur_has (p_cur q) \<or> p_cur q = cur0"
  using assms
  by (cases p; cases "p_cur p")
    (auto simp: finishLine_def Let_def at_start_def newParser_def cur0_def set_field_has split: if_splits)

definition step_ok :: "bool \<Rightarrow> sseParser \<Rightarrow> sseParser \<times> event list \<Rightarrow> bool" where
  "step_ok st p x = (p_max (fst x) = p_max p \<and>
     (p_err (fst x) = None \<longrightarrow> (\<exists>st'. (st \<or> snd x \<noteq> [] \<longrightarrow> st') \<and> block_inv st' (fst x))) \<and>
     good_events (p_max p) st (snd x))"

lemma step_ok_start: "p_max p = m \<Longrightarrow> step_ok st p (at_start m True, [])"
  using block_inv_start [of True m] by (auto simp: step_ok_def)

lemma start_finish_LF:
  "finishLine 1 ((at_start m st)\<lparr>p_raw := [LF]\<rparr>) = (at_start m True, [])"
  by (cases st) (simp_all add: finishLine_def Let_def at_start_def newParser_def cur0_def trim_prefix_def bom_def)

text \<open>One finished line, from the state a read of the block leads to.\<close>

lemma finish_step:
  assumes q: "finishLine n p = (q, es)"
    and fe: "feed_end True (at_start m st) (p_raw p) = emit es (close_line q)"
    and fl: "p_raw q = p_raw p \<Longrightarrow> es = [] \<Longrightarrow> feed_bytes (at_start m st) (p_raw p) = (q, [])"
    and p: "p_err p = None" "\<not> p_cr p" "cur_has (p_cur p) \<or> p_cur p = cur0" "p_max p = m"
      "p_raw p \<noteq> []" "hd (p_raw p) \<noteq> LF"
  shows "step_ok st p (q, es)"
  using q p(1,2,3)
proof (cases rule: finishLine_cases)
  case blank
  with p(4) show ?thesis by (simp add: step_ok_start)
next
  case (event ev)
  with fe have "feed_end True (at_start m st) (ev_raw ev) = (at_start m True, [ev])"
    by (simp add: close_line_def p(4))
  with event p have "good_event (p_max p) st ev" by (simp add: good_event_def)
  with event p(4) block_inv_start [of True m] show ?thesis by (auto simp: step_ok_def)
next
  case line
  from q p(1,4) have "p_err q = None" "p_max q = m"
    using finishLine_keeps(2,3) [of n p] by simp_all
  with line fl p(4-6) show ?thesis
    by (auto simp: step_ok_def block_inv_def)
qed

lemma feed_snoc:
  "feed_bytes s r = (p, []) \<Longrightarrow> feed_bytes s (r @ [c]) = feed_byte p c"
  by (simp add: feed_bytes_app emit_def case_prod_beta)

lemma add_byte_ok:
  assumes err: "p_err p = None" and cr: "\<not> p_cr p" and cur: "cur_has (p_cur p) \<or> p_cur p = cur0"
    and hd: "p_raw p = [] \<or> hd (p_raw p) \<noteq> LF"
    and start: "p_raw p = [] \<Longrightarrow> \<exists>st'. p = at_start (p_max p) st'"
    and fb0: "feed_bytes (at_start (p_max p) st) (p_raw p @ [c]) = add_byte p c"
  shows "step_ok st p (add_byte p c)"
proof (cases "snd (appendRaw p [c])")
  case False
  then show ?thesis
    by (simp add: add_byte_def case_prod_beta step_ok_def)
next
  case True
  let ?p = "p\<lparr>p_raw := p_raw p @ [c]\<rparr>"
  from True have a: "appendRaw p [c] = (?p, True)" by (auto simp: appendRaw_def split: if_splits)
  let ?s = "at_start (p_max p) st"
  have fb: "feed_bytes ?s (p_raw ?p) = add_byte p c"
    using fb0 by simp
  have keep: "p_raw p \<noteq> [] \<or> c \<noteq> LF \<Longrightarrow> hd (p_raw ?p) \<noteq> LF"
    using hd by (cases "p_raw p") auto
  consider "c = LF" "p_raw p = []" | "c = LF" "p_raw p \<noteq> []" | "c = CR" | "\<not> is_eol c"
    by (auto simp: is_eol_def)
  then show ?thesis
  proof cases
    case 1
    from start [OF 1(2)] obtain st' where "p = at_start (p_max p) st'" by blast
    with 1 a start_finish_LF [of "p_max p" st'] have "add_byte p c = (at_start (p_max p) True, [])"
      by (simp add: add_byte_def)
    then show ?thesis by (simp add: step_ok_start)
  next
    case 2
    obtain q es where q: "finishLine 1 ?p = (q, es)" by force
    with 2 a have add: "add_byte p c = (q, es)" by (simp add: add_byte_def)
    have "step_ok st ?p (q, es)"
    proof (rule finish_step [OF q])
      show "feed_end True ?s (p_raw ?p) = emit es (close_line q)"
        unfolding feed_end_def fb add by simp
    qed (use fb add err cr cur keep 2 in auto)
    with add show ?thesis by (simp add: step_ok_def)
  next
    case 3
    with a have "add_byte p c = (?p\<lparr>p_cr := True\<rparr>, [])" by (simp add: add_byte_def)
    with fb err cur keep 3 show ?thesis by (auto simp: step_ok_def block_inv_def)
  next
    case 4
    with a have "add_byte p c = (?p, [])" by (auto simp: add_byte_def is_eol_def)
    with fb err cur keep 4 show ?thesis by (auto simp: step_ok_def block_inv_def is_eol_def)
  qed
qed

lemma step_ok_trans:
  assumes "step_ok st p (q, es)" "p_err q = None" "\<And>st'. block_inv st' q \<Longrightarrow> step_ok st' q (r, fs)"
  shows "step_ok st p (r, es @ fs)"
proof -
  from assms(1,2) obtain st' where "st \<or> es \<noteq> [] \<longrightarrow> st'" "block_inv st' q" by (auto simp: step_ok_def)
  have r: "step_ok st' q (r, fs)" by (rule assms(3)) fact
  have "good_events (p_max p) st (es @ fs)"
    using assms(1) r \<open>st \<or> es \<noteq> [] \<longrightarrow> st'\<close> by (intro good_events_append) (simp_all add: step_ok_def)
  moreover have "p_err r = None \<Longrightarrow> \<exists>st''. (st \<or> es @ fs \<noteq> [] \<longrightarrow> st'') \<and> block_inv st'' r"
    using r \<open>st \<or> es \<noteq> [] \<longrightarrow> st'\<close> by (simp add: step_ok_def) blast
  ultimately show ?thesis using assms(1) r by (simp add: step_ok_def)
qed

text \<open>The line a pending CR ended is finished by the next byte or by the end.\<close>

lemma close_cases:
  assumes inv: "block_inv st p" and cr: "p_cr p"
  obtains (blank) "close_line p = (at_start (p_max p) True, [])"
  | (event) ev where "close_line p = (at_start (p_max p) True, [ev])" "ev_raw ev = p_raw p" "good_event (p_max p) st ev"
  | (line) q where "close_line p = (q, [])" "p_raw q = p_raw p" "cur_has (p_cur q) \<or> p_cur q = cur0"
      "p_err q = None" "\<not> p_cr q" "p_max q = p_max p" "p_raw q \<noteq> []" "hd (p_raw q) \<noteq> LF"
proof -
  from inv have st: "feed_bytes (at_start (p_max p) st) (p_raw p) = (p, [])"
    and err: "p_err p = None" and hd: "p_raw p = [] \<or> hd (p_raw p) \<noteq> LF"
    and cur: "cur_has (p_cur p) \<or> p_cur p = cur0"
    by (auto simp: block_inv_def)
  have ne: "p_raw p \<noteq> []" using block_inv_empty [OF inv] cr by (metis at_start_simps(5))
  let ?p = "p\<lparr>p_cr := False\<rparr>"
  obtain q es where q: "finishLine 1 ?p = (q, es)" by force
  have cl: "close_line p = (q, es)" using cr err q by (simp add: close_line_def)
  have keep: "\<not> p_cr q" "p_err q = None" "p_max q = p_max p"
    using finishLine_keeps(1-3) [of 1 ?p] q err by (simp_all del: finishLine_keeps)
  have p: "p_err ?p = None" "\<not> p_cr ?p" "cur_has (p_cur ?p) \<or> p_cur ?p = cur0"
    using err cur by simp_all
  from q p show thesis
  proof (cases rule: finishLine_cases)
    case blank
    with cl that(1) show thesis by simp
  next
    case (event ev)
    have "feed_end True (at_start (p_max p) st) (p_raw p) = close_line p"
      using st by (simp add: feed_end_def)
    with event cl ne hd have "good_event (p_max p) st ev" by (auto simp: good_event_def)
    with event cl that(2) show thesis by simp
  next
    case line
    with cl keep ne hd that(3) show thesis by simp
  qed
qed

lemma feed_byte_cr:
  "p_err p = None \<Longrightarrow> p_cr p \<Longrightarrow> c \<noteq> LF \<Longrightarrow>
   feed_byte p c = emit (snd (close_line p)) (add_byte (fst (close_line p)) c)"
  by (simp add: feed_byte_def close_line_def emit_def case_prod_beta)

lemma feed_byte_ok:
  assumes inv: "block_inv st p"
  shows "step_ok st p (feed_byte p c)"
proof -
  from inv have st: "feed_bytes (at_start (p_max p) st) (p_raw p) = (p, [])"
    and err: "p_err p = None" and hd: "p_raw p = [] \<or> hd (p_raw p) \<noteq> LF"
    and cur: "cur_has (p_cur p) \<or> p_cur p = cur0"
    by (auto simp: block_inv_def)
  note snoc = feed_snoc [OF st, of c]
  show ?thesis
  proof (cases "p_cr p")
    case False
    with err have "feed_byte p c = add_byte p c" by (simp add: feed_byte_def)
    moreover have "step_ok st p (add_byte p c)"
      by (rule add_byte_ok [OF err False cur hd]) (use block_inv_empty [OF inv] snoc calculation in auto)
    ultimately show ?thesis by simp
  next
    case cr: True
    show ?thesis
    proof (cases "c = LF")
      case False
      note fb = feed_byte_cr [OF err cr False]
      have start: "step_ok st p (emit es (add_byte (at_start (p_max p) True) c))"
        if "good_events (p_max p) st es" for es
      proof -
        have "step_ok True (at_start (p_max p) True) (add_byte (at_start (p_max p) True) c)"
          by (rule add_byte_ok) (auto simp: feed_byte_def case_prod_beta)
        with that good_events_append [OF that, of True] show ?thesis by (auto simp: step_ok_def emit_def)
      qed
      from inv cr show ?thesis
      proof (cases rule: close_cases)
        case blank
        with fb start [of "[]"] show ?thesis by simp
      next
        case (event ev)
        with fb start [of "[ev]"] show ?thesis by auto
      next
        case (line q)
        have "step_ok st q (add_byte q c)"
          by (rule add_byte_ok) (use line snoc fb in auto)
        with line fb show ?thesis by (simp add: step_ok_def)
      qed
    next
      case c: True
      show ?thesis
      proof (cases "snd (appendRaw p [c])")
        case False
        with cr c err show ?thesis by (simp add: feed_byte_def case_prod_beta step_ok_def)
      next
        case True
        let ?p = "p\<lparr>p_raw := p_raw p @ [c], p_cr := False\<rparr>"
        obtain q es where q: "finishLine 2 ?p = (q, es)" by force
        from True have "appendRaw p [c] = (p\<lparr>p_raw := p_raw p @ [c]\<rparr>, True)"
          by (auto simp: appendRaw_def split: if_splits)
        with q cr c err have fb: "feed_byte p c = (q, es)" by (simp add: feed_byte_def)
        have "p_raw p \<noteq> []" using block_inv_empty [OF inv] cr by (metis at_start_simps(5))
        then have "step_ok st ?p (q, es)"
          using snoc fb err cur hd by (intro finish_step [OF q]) (auto simp: feed_end_def)
        with fb show ?thesis by (simp add: step_ok_def)
      qed
    qed
  qed
qed

lemma feed_bytes_ok:
  "block_inv st p \<Longrightarrow> step_ok st p (feed_bytes p b)"
proof (induction b arbitrary: st p)
  case Nil
  then show ?case by (auto simp: step_ok_def)
next
  case (Cons c b)
  obtain q es where q: "feed_byte p c = (q, es)" by force
  obtain r fs where r: "feed_bytes q b = (r, fs)" by force
  from feed_byte_ok [OF Cons.prems, of c] q have 1: "step_ok st p (q, es)" by simp
  show ?case
  proof (cases "p_err q = None")
    case True
    from step_ok_trans [OF 1 True] Cons.IH [of _ q] q r show ?thesis by simp
  next
    case False
    with 1 q r feed_bytes_err [OF False, of b] show ?thesis by simp
  qed
qed

lemma feed_end_ok:
  assumes "block_inv st p"
  shows "good_events (p_max p) st (snd (feed_end eof p b))"
proof -
  obtain q es where q: "feed_bytes p b = (q, es)" by force
  with feed_bytes_ok [OF assms, of b] have ok: "step_ok st p (q, es)" by simp
  show ?thesis
  proof (cases "p_err q = None \<and> p_cr q")
    case True
    with ok obtain st' where st': "st \<or> es \<noteq> [] \<longrightarrow> st'" "block_inv st' q" "p_max q = p_max p" by (auto simp: step_ok_def)
    from st'(2) True [THEN conjunct2] have "good_events (p_max p) st' (snd (close_line q))"
      by (cases rule: close_cases) (use st'(3) in auto)
    with ok st'(1) q show ?thesis by (auto simp: feed_end_def step_ok_def emit_def intro: good_events_append)
  next
    case False
    with ok q show ?thesis by (auto simp: feed_end_def step_ok_def emit_def close_line_def)
  qed
qed

section \<open>Reading an event's bytes with another parser\<close>

text \<open>The byte limit only matters when it is hit.\<close>

abbreviation unlimited :: "sseParser \<Rightarrow> sseParser" where
  "unlimited p \<equiv> p\<lparr>p_max := 0\<rparr>"

lemma appendRaw_unlimited: "snd (appendRaw p b) \<Longrightarrow> appendRaw (unlimited p) b = (unlimited (fst (appendRaw p b)), True)"
  by (auto simp: appendRaw_def split: if_splits)

lemma finishLine_unlimited:
  "finishLine n (unlimited p) = (unlimited (fst (finishLine n p)), snd (finishLine n p))"
  by (simp add: finishLine_def Let_def)

lemma finishLine_unlimited_cr:
  "finishLine n (p\<lparr>p_max := 0, p_cr := False\<rparr>) =
   (unlimited (fst (finishLine n (p\<lparr>p_cr := False\<rparr>))), snd (finishLine n (p\<lparr>p_cr := False\<rparr>)))"
  by (simp add: finishLine_def Let_def)

lemma add_byte_unlimited:
  "p_err p = None \<Longrightarrow> p_err (fst (add_byte p c)) = None \<Longrightarrow>
   add_byte (unlimited p) c = (unlimited (fst (add_byte p c)), snd (add_byte p c))"
  by (cases "snd (appendRaw p [c])")
    (auto simp: add_byte_def case_prod_beta appendRaw_unlimited finishLine_unlimited)

lemma feed_byte_unlimited:
  assumes "p_err p = None" "p_err (fst (feed_byte p c)) = None"
  shows "feed_byte (unlimited p) c = (unlimited (fst (feed_byte p c)), snd (feed_byte p c))"
proof (cases "p_cr p \<and> c = LF")
  case True
  with assms show ?thesis
    by (cases "snd (appendRaw p [c])")
      (auto simp: feed_byte_def case_prod_beta appendRaw_unlimited finishLine_unlimited_cr)
next
  case False
  with assms show ?thesis
    by (auto simp: feed_byte_def case_prod_beta finishLine_unlimited_cr add_byte_unlimited)
qed

lemma feed_bytes_unlimited:
  "p_err p = None \<Longrightarrow> p_err (fst (feed_bytes p b)) = None \<Longrightarrow>
   feed_bytes (unlimited p) b = (unlimited (fst (feed_bytes p b)), snd (feed_bytes p b))"
proof (induction b arbitrary: p)
  case (Cons c b)
  have "p_err (fst (feed_byte p c)) = None"
  proof (rule ccontr)
    assume e: "p_err (fst (feed_byte p c)) \<noteq> None"
    from Cons.prems(2) e show False
      unfolding feed_bytes_Cons emit_def fst_conv feed_bytes_err [OF e] by simp
  qed
  with Cons feed_byte_unlimited [of p c] show ?case
    by (simp add: feed_bytes_Cons emit_def del: feed_bytes.simps)
qed simp

text \<open>
  Whether the first line has been read only matters to a byte order mark: a parser that
  is new and one that is not agree on a block that does not begin with one.
\<close>

definition same_or_new :: "bytes \<Rightarrow> bytes \<Rightarrow> sseParser \<Rightarrow> sseParser \<Rightarrow> bool" where
  "same_or_new block rest p q =
     (p = q \<or> (p = q\<lparr>p_started := False\<rparr> \<and> p_started q \<and> p_lineStart q = 0 \<and>
               p_raw q @ rest = block \<and> \<not> has_prefix block bom))"

lemma has_prefix_take: "has_prefix (take n s) b \<Longrightarrow> has_prefix (s @ t) b"
  by (metis append.assoc append_take_drop_id has_prefix_iff)

lemma finishLine_new:
  assumes "same_or_new block rest p q"
  shows "finishLine n p = finishLine n q"
proof (cases "p = q")
  case False
  with assms have q: "p = q\<lparr>p_started := False\<rparr>" "p_started q" "p_lineStart q = 0"
    and "\<not> has_prefix (p_raw q @ rest) bom"
    by (auto simp: same_or_new_def)
  then have "\<not> has_prefix (take m (p_raw q)) bom" for m
    using has_prefix_take by blast
  then show ?thesis
    by (cases q) (use q in \<open>simp add: finishLine_def Let_def trim_prefix_def\<close>)
qed simp

lemma appendRaw_new:
  assumes "same_or_new block (c # rest) p q"
  shows "snd (appendRaw p [c]) = snd (appendRaw q [c])" "p_err p = p_err q" "p_cr p = p_cr q"
    "same_or_new block rest (fst (appendRaw p [c])) (fst (appendRaw q [c])) \<or> \<not> snd (appendRaw q [c])"
    "snd (appendRaw q [c]) \<Longrightarrow> same_or_new block rest (fst (appendRaw p [c])\<lparr>p_cr := x\<rparr>) (fst (appendRaw q [c])\<lparr>p_cr := x\<rparr>)"
    "same_or_new block (c # rest) (p\<lparr>p_cr := x\<rparr>) (q\<lparr>p_cr := x\<rparr>)"
  using assms by (auto simp: same_or_new_def appendRaw_def)

definition new_result :: "bytes \<Rightarrow> bytes \<Rightarrow> sseParser \<times> event list \<Rightarrow> sseParser \<times> event list \<Rightarrow> bool" where
  "new_result block rest x y = (p_err (fst y) = None \<longrightarrow> p_err (fst x) = None \<and> snd x = snd y \<and> same_or_new block rest (fst x) (fst y))"

lemma same_or_new_refl [simp]: "same_or_new block rest p p"
  by (simp add: same_or_new_def)

lemma add_byte_new:
  assumes "same_or_new block (c # rest) p q"
  shows "new_result block rest (add_byte p c) (add_byte q c)"
proof (cases "snd (appendRaw q [c])")
  case True
  note a = appendRaw_new [OF assms]
  from True a(4) have s: "same_or_new block rest (fst (appendRaw p [c])) (fst (appendRaw q [c]))" by simp
  from True assms a(1,2) have e: "p_err (fst (appendRaw p [c])) = p_err (fst (appendRaw q [c]))"
    by simp
  from True a(1) a(5) [of True] finishLine_new [OF s] s e show ?thesis
    by (cases "c = CR"; cases "c = LF") (simp_all add: add_byte_def case_prod_beta new_result_def)
next
  case False
  then show ?thesis by (simp add: add_byte_def case_prod_beta new_result_def)
qed

lemma feed_byte_new:
  assumes "same_or_new block (c # rest) p q" "p_err q = None"
  shows "new_result block rest (feed_byte p c) (feed_byte q c)"
proof -
  note a = appendRaw_new [OF assms(1)]
  show ?thesis
  proof (cases "p_cr q")
    case False
    with assms a(2,3) add_byte_new [OF assms(1)] show ?thesis by (simp add: feed_byte_def)
  next
    case cr: True
    show ?thesis
    proof (cases "c = LF")
      case True
      with cr assms(2) a(1-3) finishLine_new [OF a(5) [of False]] show ?thesis
        by (cases "snd (appendRaw q [c])")
          (auto simp: feed_byte_def case_prod_beta new_result_def)
    next
      case False
      with cr assms(2) a(2,3) finishLine_new [OF a(6) [of False]] show ?thesis
        by (simp add: feed_byte_def new_result_def)
    qed
  qed
qed

lemma feed_bytes_new:
  "same_or_new block (b @ rest) p q \<Longrightarrow> p_err q = None \<Longrightarrow> new_result block rest (feed_bytes p b) (feed_bytes q b)"
proof (induction b arbitrary: p q)
  case Nil
  then show ?case by (auto simp: new_result_def same_or_new_def)
next
  case (Cons c b)
  from feed_byte_new [of block c "b @ rest" p q] Cons.prems
  have 1: "new_result block (b @ rest) (feed_byte p c) (feed_byte q c)" by simp
  show ?case
  proof (cases "p_err (fst (feed_byte q c)) = None")
    case True
    with 1 Cons.IH [of "fst (feed_byte p c)" "fst (feed_byte q c)"] show ?thesis
      by (simp add: new_result_def feed_bytes_Cons emit_def del: feed_bytes.simps)
  next
    case False
    then show ?thesis
      by (simp add: new_result_def feed_bytes_Cons emit_def feed_bytes_err del: feed_bytes.simps) auto
  qed
qed

lemma feed_bytes_max0:
  "p_max p = 0 \<Longrightarrow> p_err p = None \<Longrightarrow> p_max (fst (feed_bytes p b)) = 0 \<and> p_err (fst (feed_bytes p b)) = None"
proof (induction b arbitrary: p)
  case (Cons c b)
  have "p_max (fst (feed_byte p c)) = 0 \<and> p_err (fst (feed_byte p c)) = None"
    using Cons.prems by (auto simp: feed_byte_def add_byte_def appendRaw_def case_prod_beta)
  with Cons.IH show ?case by (simp add: feed_bytes_Cons emit_def del: feed_bytes.simps)
qed simp

lemma close_line_unlimited: "close_line (unlimited p) = (unlimited (fst (close_line p)), snd (close_line p))"
  by (simp add: close_line_def finishLine_unlimited_cr)

text \<open>An event's bytes give that event to a parser at the same line start, whatever its limit.\<close>

lemma good_event_unlimited:
  assumes "good_event m st0 ev"
  shows "feed_end True (at_start 0 st0) (ev_raw ev) = (at_start 0 True, [ev])"
proof -
  let ?R = "ev_raw ev"
  from assms have g: "feed_end True (at_start m st0) ?R = (at_start m True, [ev])"
    by (auto simp: good_event_def)
  obtain p es where p: "feed_bytes (at_start m st0) ?R = (p, es)" by force
  have e: "p_err p = None"
  proof (rule ccontr)
    assume "p_err p \<noteq> None"
    with g p have "p = at_start m True" by (auto simp: feed_end_def close_line_def emit_def split: if_splits)
    with \<open>p_err p \<noteq> None\<close> show False by simp
  qed
  have u: "unlimited (at_start k x) = at_start 0 x" for k x by (simp add: at_start_def newParser_def)
  from feed_bytes_unlimited [of "at_start m st0" ?R] p e
  have p0: "feed_bytes (at_start 0 st0) ?R = (unlimited p, es)" by (simp add: u)
  with g p show ?thesis by (simp add: feed_end_def close_line_unlimited emit_def u)
qed

text \<open>Without a byte order mark, to every parser at a line start.\<close>

lemma good_event_read:
  assumes "good_event m st0 ev" "\<not> has_prefix (ev_raw ev) bom"
  shows "feed_end True (at_start 0 st) (ev_raw ev) = (at_start 0 True, [ev])"
proof -
  let ?R = "ev_raw ev"
  note g0 = good_event_unlimited [OF assms(1)]
  have ne: "?R \<noteq> []" using assms(1) by (simp add: good_event_def)
  obtain x ex where x: "feed_bytes (at_start 0 False) ?R = (x, ex)" by force
  obtain y ey where y: "feed_bytes (at_start 0 True) ?R = (y, ey)" by force
  have err: "p_err x = None" "p_err y = None"
    using feed_bytes_max0 [of "at_start 0 False" ?R] feed_bytes_max0 [of "at_start 0 True" ?R] x y by auto
  have "same_or_new ?R (?R @ []) (at_start 0 False) (at_start 0 True)"
    using assms(2) by (simp add: same_or_new_def at_start_def newParser_def)
  from feed_bytes_new [OF this] x y err have s: "ex = ey" "same_or_new ?R [] x y"
    by (auto simp: new_result_def)
  have "close_line x = close_line y \<or> (\<not> p_cr x \<and> \<not> p_cr y \<and> p_raw x = ?R \<and> p_raw y = ?R)"
    using s(2) err finishLine_new [of ?R "[]" "x\<lparr>p_cr := False\<rparr>" "y\<lparr>p_cr := False\<rparr>" 1]
    by (auto simp: close_line_def same_or_new_def)
  then show ?thesis
  proof
    assume "close_line x = close_line y"
    with s(1) x y have "feed_end True (at_start 0 False) ?R = feed_end True (at_start 0 True) ?R"
      by (simp add: feed_end_def)
    with g0 show ?thesis by (cases st; cases st0) simp_all
  next
    assume n: "\<not> p_cr x \<and> \<not> p_cr y \<and> p_raw x = ?R \<and> p_raw y = ?R"
    with g0 x y have "p_raw (at_start 0 True) = ?R"
      by (cases st0) (auto simp: feed_end_def close_line_def)
    with ne show ?thesis by simp
  qed
qed

text \<open>Bytes that do not begin with LF leave a finished block finished.\<close>

lemma feed_end_join:
  assumes "feed_end True s a = (s', es)" "p_err s' = None" "\<not> p_cr s'" "b = [] \<or> hd b \<noteq> LF"
  shows "feed_end True s (a @ b) = emit es (feed_end True s' b)"
proof -
  obtain p fs where p: "feed_bytes s a = (p, fs)" by force
  obtain q gs where q: "close_line p = (q, gs)" by force
  from assms(1) p q have s': "q = s'" "es = fs @ gs" by (auto simp: feed_end_def)
  have "feed_end True p b = emit gs (feed_end True s' b)"
  proof (cases "p_err p = None \<and> p_cr p \<and> b \<noteq> []")
    case True
    then obtain c b' where b: "b = c # b'" "c \<noteq> LF" using assms(4) by (cases b) auto
    from feed_byte_cr [of p c] True b q s'(1) have "feed_byte p c = emit gs (add_byte s' c)" by simp
    moreover have "feed_byte s' c = add_byte s' c" using assms(2,3) by (simp add: feed_byte_def)
    ultimately show ?thesis unfolding b feed_end_def by (simp add: emit_def case_prod_beta)
  next
    case False
    show ?thesis
    proof (cases "b = []")
      case True
      moreover have "close_line s' = (s', [])" using assms(3) by (simp add: close_line_def)
      ultimately show ?thesis using q s' by (simp add: feed_end_def)
    next
      case nb: False
      with False q s'(1) have "s' = p" "gs = []" by (auto simp: close_line_def split: if_splits)
      then show ?thesis by simp
    qed
  qed
  with p s' show ?thesis by (simp add: feed_end_app)
qed

section \<open>Properties of the parser\<close>

fun feed_all :: "sseParser \<Rightarrow> bytes list \<Rightarrow> sseParser \<times> event list" where
  "feed_all p [] = (p, [])"
| "feed_all p (b # bs) =
     (case feed p b of (q, es) \<Rightarrow> (case feed_all q bs of (r, fs) \<Rightarrow> (r, es @ fs)))"

lemma feed_bytes_of: "agree (feed p b) (feed_bytes p b)"
  using feedChunk_bytes [of p b False] by (simp add: feed_def feed_end_False)

lemma feed_all_err: "p_err p \<noteq> None \<Longrightarrow> feed_all p bs = (p, [])"
  by (induction bs) (simp_all add: feed_def feedChunk_def feed_loop_stop)

lemma feed_all_bytes: "agree (feed_all p bs) (feed_bytes p (concat bs))"
proof (induction bs arbitrary: p)
  case (Cons b bs)
  let ?q = "fst (feed p b)"
  have "agree (feed_all p (b # bs)) (emit (snd (feed p b)) (feed_bytes ?q (concat bs)))"
    using agree_emit [OF Cons.IH, of "snd (feed p b)" ?q] by (simp add: emit_def case_prod_beta)
  moreover have "agree (emit (snd (feed p b)) (feed_bytes ?q (concat bs))) (feed_bytes p (b @ concat bs))"
    using agree_feed [OF feed_bytes_of [of p b], of False "concat bs"]
    by (simp add: feed_end_False feed_bytes_app)
  ultimately show ?case by (simp add: agree_trans [of _ _ "feed_bytes p (b @ concat bs)"] del: feed_all.simps)
qed simp

text \<open>
  C4. The events, and whether an event was too long, depend only on the bytes the
  upstream sent, never on how the reads cut them into chunks.
\<close>

theorem sse_chunk_independent:
  "snd (feed_all p bs) = snd (feed p (concat bs)) \<and>
   p_err (fst (feed_all p bs)) = p_err (fst (feed p (concat bs)))"
  using agree_trans [OF feed_all_bytes [of p bs] agree_sym [OF feed_bytes_of [of p "concat bs"]]]
  by (simp add: agree_def)

definition parse_stream :: "int \<Rightarrow> bytes \<Rightarrow> event list" where
  "parse_stream m b = snd (feedChunk (newParser m) b True)"

lemma newParser_start: "newParser m = at_start m False"
  by (simp add: at_start_def newParser_def)

lemma parse_stream_end: "parse_stream m b = snd (feed_end True (at_start m False) b)"
  using feedChunk_bytes [of "newParser m" b True] by (simp add: parse_stream_def agree_def newParser_start)

definition example_stream :: bytes where
  "example_stream = '':c'' @ [CR, CR] @ ''event: a'' @ [CR, LF] @ ''data:1'' @ [LF] @ ''data: 2'' @ [CR, CR]
     @ ''data:3'' @ [LF, LF] @ ''data:4''"

lemma example_stream_events:
  "parse_stream 64 example_stream =
     [\<lparr>ev_name = ''a'', ev_data = ''1'' @ [LF] @ ''2'',
       ev_raw = ''event: a'' @ [CR, LF] @ ''data:1'' @ [LF] @ ''data: 2'' @ [CR, CR]\<rparr>,
      \<lparr>ev_name = [], ev_data = ''3'', ev_raw = ''data:3'' @ [LF, LF]\<rparr>]"
  by code_simp

text \<open>
  What is held and what was emitted, against the bytes read: \<open>raw_step\<close> says that a step
  keeps the bytes in order, within the limit, and invents none.
\<close>

definition heldRaw :: "sseParser \<times> event list \<Rightarrow> bytes" where
  "heldRaw x = concat (map ev_raw (snd x)) @ p_raw (fst x)"

definition in_bound :: "sseParser \<Rightarrow> bytes \<Rightarrow> bool" where
  "in_bound p r = (p_max p \<le> 0 \<or> int (length r) \<le> p_max p)"

definition raw_step :: "bytes \<Rightarrow> sseParser \<Rightarrow> sseParser \<times> event list \<Rightarrow> bool" where
  "raw_step b p x = (p_max (fst x) = p_max p \<and> subseq (heldRaw x) (p_raw p @ b) \<and>
     (in_bound p (p_raw p) \<longrightarrow> in_bound p (p_raw (fst x)) \<and> (\<forall>ev \<in> set (snd x). in_bound p (ev_raw ev))))"

lemma subseq_append_left: "subseq (a @ b) c \<Longrightarrow> subseq a c"
  by (meson list_emb_prefix subseq_order.order_trans subseq_order.refl subseq_rev_drop_many prefixI prefix_imp_subseq)

lemma raw_step_trans:
  assumes "raw_step a p x" "raw_step b (fst x) y"
  shows "raw_step (a @ b) p (emit (snd x) y)"
proof -
  let ?e = "concat (map ev_raw (snd x))"
  from assms(2) have "subseq (?e @ heldRaw y) (?e @ p_raw (fst x) @ b)"
    by (simp add: raw_step_def subseq_append')
  moreover from assms(1) have "subseq (?e @ p_raw (fst x) @ b) (p_raw p @ a @ b)"
    by (simp add: raw_step_def heldRaw_def) (metis append.assoc list_emb_append_mono subseq_order.refl)
  ultimately have "subseq (?e @ heldRaw y) (p_raw p @ a @ b)"
    by (rule subseq_order.order_trans)
  with assms show ?thesis
    by (auto simp: raw_step_def heldRaw_def emit_def in_bound_def)
qed

lemma raw_step_append:
  "raw_step b p (fst (appendRaw p b), [])"
  by (auto simp: raw_step_def heldRaw_def appendRaw_def in_bound_def)

lemma raw_step_finish: "raw_step [] p (finishLine n p)"
  by (auto simp: raw_step_def heldRaw_def finishLine_def Let_def in_bound_def)

lemma raw_step_cr: "raw_step [] p (p\<lparr>p_cr := x\<rparr>, [])"
  by (simp add: raw_step_def heldRaw_def in_bound_def)

lemma raw_step_byte: "raw_step [c] p (feed_byte p c)"
proof -
  have add: "raw_step [c] q (add_byte q c)" for q
    using raw_step_append [of "[c]" q] raw_step_trans [OF raw_step_append [of "[c]" q] raw_step_cr [of _ True]]
      raw_step_trans [OF raw_step_append [of "[c]" q] raw_step_finish [of _ 1]]
    by (cases "c = CR"; cases "c = LF") (simp_all add: add_byte_def case_prod_beta)
  have fin: "raw_step [] q (finishLine n (q\<lparr>p_cr := False\<rparr>))" for q n
    using raw_step_trans [OF raw_step_cr [of q False] raw_step_finish] by simp
  have one: "raw_step [c] p (emit (snd (finishLine 1 (p\<lparr>p_cr := False\<rparr>)))
              (add_byte (fst (finishLine 1 (p\<lparr>p_cr := False\<rparr>))) c))"
    using raw_step_trans [OF fin add] by simp
  have two: "raw_step [c] p (finishLine 2 (fst (appendRaw p [c])\<lparr>p_cr := False\<rparr>))"
    using raw_step_trans [OF raw_step_append fin] by simp
  have "raw_step [c] p (p, [])" by (simp add: raw_step_def heldRaw_def list_emb_prefix)
  with add [of p] one two raw_step_append [of "[c]" p] show ?thesis
    by (cases "c = LF") (simp_all add: feed_byte_def case_prod_beta emit_def)
qed

lemma raw_step_bytes: "raw_step b p (feed_bytes p b)"
proof (induction b arbitrary: p)
  case Nil
  then show ?case by (simp add: raw_step_def heldRaw_def)
next
  case (Cons c b)
  from raw_step_trans [OF raw_step_byte Cons.IH] show ?case
    by (simp add: feed_bytes_Cons del: feed_bytes.simps)
qed

lemma raw_step_end: "raw_step b p (feed_end eof p b)"
proof -
  have "raw_step [] q (close_line q)" for q
    using raw_step_trans [OF raw_step_cr [of q False] raw_step_finish [of _ 1]] raw_step_cr [of q "p_cr q"]
    by (simp add: close_line_def)
  from raw_step_trans [OF raw_step_bytes this] raw_step_bytes [of b p] show ?thesis
    by (cases eof) (simp_all add: feed_end_def emit_def)
qed

text \<open>
  The parser stores no more than one event of bounded size and passes on nothing the
  upstream did not send: the events' raw bytes are, in order, bytes of the stream, and
  with a limit no event is larger than it.
\<close>

theorem sse_raw_bytes:
  "subseq (concat (map ev_raw (parse_stream m b))) b \<and>
   (\<forall>ev \<in> set (parse_stream m b). m \<le> 0 \<or> int (length (ev_raw ev)) \<le> m)"
proof -
  have r: "raw_step b (at_start m False) (feed_end True (at_start m False) b)" by (rule raw_step_end)
  then have "subseq (heldRaw (feed_end True (at_start m False) b)) b" by (simp add: raw_step_def)
  then have "subseq (concat (map ev_raw (parse_stream m b))) b"
    unfolding heldRaw_def parse_stream_end using subseq_append_left by blast
  moreover from r have "\<forall>ev \<in> set (parse_stream m b). in_bound (at_start m False) (ev_raw ev)"
    unfolding parse_stream_end by (auto simp: raw_step_def in_bound_def)
  ultimately show ?thesis by (auto simp: in_bound_def)
qed

theorem sse_raw_bytes_witness:
  "list_all (\<lambda>ev. length (ev_raw ev) \<le> 64) (parse_stream 64 example_stream)"
  using sse_raw_bytes [of 64 example_stream] by (auto simp: list_all_iff)

section \<open>Reading the replay\<close>

lemma reread_events:
  assumes "\<forall>ev \<in> set es. good_event m True ev"
  shows "snd (feed_end True (at_start 0 True) (concat (map ev_raw es))) = es"
  using assms
proof (induction es)
  case (Cons ev es)
  let ?b = "concat (map ev_raw es)"
  from Cons.prems have "?b = [] \<or> hd ?b \<noteq> LF"
    by (cases es) (auto simp: good_event_def)
  with feed_end_join [OF good_event_unlimited [of m True ev], of ?b] Cons.prems
  have "feed_end True (at_start 0 True) (ev_raw ev @ ?b) = emit [ev] (feed_end True (at_start 0 True) ?b)"
    by simp
  with Cons show ?case by (simp add: emit_def)
qed (simp add: feed_end_Nil)

lemma started_byte: "p_started p \<or> snd (feed_byte p c) \<noteq> [] \<Longrightarrow> p_started (fst (feed_byte p c))"
proof -
  have a: "p_started (fst (appendRaw q b)) = p_started q" for q b by (simp add: appendRaw_def)
  have "p_started q \<or> snd (add_byte q c) \<noteq> [] \<Longrightarrow> p_started (fst (add_byte q c))" for q
    by (auto simp: add_byte_def case_prod_beta a split: if_splits)
  then show "p_started p \<or> snd (feed_byte p c) \<noteq> [] \<Longrightarrow> p_started (fst (feed_byte p c))"
    by (auto simp: feed_byte_def case_prod_beta a split: if_splits)
qed

lemma started_bytes: "p_started p \<or> snd (feed_bytes p b) \<noteq> [] \<Longrightarrow> p_started (fst (feed_bytes p b))"
proof (induction b arbitrary: p)
  case (Cons c b)
  with started_byte [of p c] show ?case
    by (auto simp: feed_bytes_Cons emit_def simp del: feed_bytes.simps)
qed simp

text \<open>A block that is one event by itself at the start of a stream leaves the parser at a line start.\<close>

lemma alone_read:
  assumes "parse_stream 0 (ev_raw ev) = [ev]" "ev_raw ev \<noteq> []"
  shows "feed_end True (at_start 0 False) (ev_raw ev) = (at_start 0 True, [ev])"
proof -
  let ?p = "at_start 0 False"
  obtain q es where q: "feed_bytes ?p (ev_raw ev) = (q, es)" by force
  obtain s fs where s: "close_line q = (s, fs)" by force
  have f: "feed_end True ?p (ev_raw ev) = (s, [ev])" and ev: "es @ fs = [ev]"
    using assms(1) q s by (simp_all add: parse_stream_end feed_end_def emit_def)
  from raw_step_end [of "ev_raw ev" ?p True] f have "subseq (ev_raw ev @ p_raw s) (ev_raw ev)"
    by (simp add: raw_step_def heldRaw_def)
  then have raw: "p_raw s = []" using list_emb_length by fastforce
  have err: "p_err q = None" and m: "p_max q = 0" using feed_bytes_max0 [of ?p "ev_raw ev"] q by auto
  from feed_bytes_ok [OF block_inv_start [of False 0], of "ev_raw ev"] q err obtain st where st: "block_inv st q"
    by (auto simp: step_ok_def)
  have "s = at_start 0 True"
  proof (cases "p_cr q")
    case True
    from close_cases [OF st True] s raw m show ?thesis by (metis fst_conv)
  next
    case False
    then have "s = q" "fs = []" using s by (simp_all add: close_line_def)
    with ev started_bytes [of ?p "ev_raw ev"] q have "p_started q" by simp
    moreover have "q = at_start 0 st" using block_inv_empty [OF st] raw \<open>s = q\<close> m by simp
    ultimately have "st = True" by (metis at_start_simps(6))
    with \<open>q = at_start 0 st\<close> \<open>s = q\<close> show ?thesis by simp
  qed
  with f show ?thesis by simp
qed

text \<open>
  C32. Re-parsing the raw bytes of the events of a stream gives the same events: what the
  spool stores is what was validated. Only the first event can be an exception, and only if
  its bytes begin with a byte order mark and read differently at the start of a stream.
\<close>

theorem sse_reparse:
  assumes "\<And>ev evs. parse_stream m b = ev # evs \<Longrightarrow> \<not> has_prefix (ev_raw ev) bom \<or> parse_stream 0 (ev_raw ev) = [ev]"
  shows "parse_stream 0 (concat (map ev_raw (parse_stream m b))) = parse_stream m b"
proof (cases "parse_stream m b")
  case (Cons ev evs)
  from feed_end_ok [OF block_inv_start [of False m], of True b] Cons obtain st where
      st: "good_event m st ev" and later: "\<forall>e \<in> set evs. good_event m True e"
    by (auto simp: parse_stream_end)
  have first: "feed_end True (at_start 0 False) (ev_raw ev) = (at_start 0 True, [ev])"
    using assms [OF Cons] good_event_read [OF st] alone_read st by (auto simp: good_event_def)
  have "concat (map ev_raw evs) = [] \<or> hd (concat (map ev_raw evs)) \<noteq> LF"
    using later by (cases evs) (auto simp: good_event_def)
  from feed_end_join [OF first _ _ this] reread_events [OF later]
  have "parse_stream 0 (concat (map ev_raw (ev # evs))) = ev # evs" by (simp add: parse_stream_end emit_def)
  then show ?thesis by (simp only: Cons)
qed (simp add: parse_stream_end feed_end_Nil)

theorem sse_reparse_witness:
  "parse_stream 0 (concat (map ev_raw (parse_stream 64 (bom @ ''data:0'' @ [LF, LF] @ example_stream)))) =
     parse_stream 64 (bom @ ''data:0'' @ [LF, LF] @ example_stream) \<and>
   length (parse_stream 64 (bom @ ''data:0'' @ [LF, LF] @ example_stream)) = 3"
proof -
  let ?b = "bom @ ''data:0'' @ [LF, LF] @ example_stream"
  have l: "length (parse_stream 64 ?b) = 3" by code_simp
  have "list_all (\<lambda>ev. parse_stream 0 (ev_raw ev) = [ev]) (take 1 (parse_stream 64 ?b))" by code_simp
  then have "parse_stream 64 ?b = ev # evs \<Longrightarrow> parse_stream 0 (ev_raw ev) = [ev]" for ev evs by simp
  with sse_reparse [of 64 ?b] l show ?thesis by blast
qed

text \<open>
  Such a first event exists: after a block of comments the parser reads a byte order mark as
  part of a field name and ignores the line, but the spool begins with it, where it is
  stripped and the line is data.
\<close>

lemma bom_after_comment:
  "map ev_data (parse_stream 0 ('':c'' @ [LF, LF] @ bom @ ''data:x'' @ [LF, LF])) = [[]]"
  "map ev_data (parse_stream 0 (concat (map ev_raw
     (parse_stream 0 ('':c'' @ [LF, LF] @ bom @ ''data:x'' @ [LF, LF]))))) = [''x'']"
  by code_simp+

end
