(* ===== verification/Utf8.thy ===== *)
theory Utf8
  imports Prelude
begin

text \<open>
  UTF-8 as Go's \<open>unicode/utf8\<close> package decodes and encodes it: which byte sequences are
  one valid rune, the replacement of invalid bytes by U+FFFD, and the encoder.
\<close>

section \<open>Decoding one rune\<close>

definition byte_in :: "int \<Rightarrow> int \<Rightarrow> char \<Rightarrow> bool" where
  "byte_in lo hi c = (lo \<le> byte_val c \<and> byte_val c \<le> hi)"

definition cont_byte :: "char \<Rightarrow> bool" where
  "cont_byte c = byte_in 0x80 0xBF c"

text \<open>
  \<open>second_range b\<close> is the range the second byte of a rune with lead byte \<open>b\<close> must lie
  in: it excludes overlong encodings, surrogates and code points past U+10FFFF.
\<close>

definition second_ok :: "int \<Rightarrow> char \<Rightarrow> bool" where
  "second_ok b c =
     (if b = 0xE0 then byte_in 0xA0 0xBF c
      else if b = 0xED then byte_in 0x80 0x9F c
      else if b = 0xF0 then byte_in 0x90 0xBF c
      else if b = 0xF4 then byte_in 0x80 0x8F c
      else cont_byte c)"

text \<open>
  \<open>rune_width\<close> is the number of bytes a lead byte announces (0 for a byte that cannot
  start a rune); \<open>rune_len\<close> is the length of the valid rune a text starts with, 0 for
  an invalid first byte.
\<close>

definition rune_width :: "int \<Rightarrow> nat" where
  "rune_width b =
     (if b < 0x80 then 1
      else if 0xC2 \<le> b \<and> b \<le> 0xDF then 2
      else if 0xE0 \<le> b \<and> b \<le> 0xEF then 3
      else if 0xF0 \<le> b \<and> b \<le> 0xF4 then 4
      else 0)"

definition tail_ok :: "int \<Rightarrow> bytes \<Rightarrow> bool" where
  "tail_ok b t =
     (length t = rune_width b - 1 \<and>
      (case t of [] \<Rightarrow> True | c # cs \<Rightarrow> second_ok b c \<and> list_all cont_byte cs))"

fun rune_len :: "bytes \<Rightarrow> nat" where
  "rune_len [] = 0"
| "rune_len (c # t) =
     (if tail_ok (byte_val c) (take (rune_width (byte_val c) - 1) t)
      then rune_width (byte_val c) else 0)"

definition replacement :: bytes where
  "replacement = [CHR 0xEF, CHR 0xBF, CHR 0xBD]"

text \<open>
  Each invalid byte becomes U+FFFD, as the JSON decoder and encoder do, and
  \<open>utf8.ValidString\<close>.
\<close>

function utf8_fix :: "bytes \<Rightarrow> bytes" where
  "utf8_fix [] = []"
| "utf8_fix (c # s) =
     (if rune_len (c # s) = 0 then replacement @ utf8_fix s
      else take (rune_len (c # s)) (c # s) @ utf8_fix (drop (rune_len (c # s)) (c # s)))"
  by pat_completeness auto
termination
  by (relation "measure length") (auto simp del: rune_len.simps)

function utf8_valid :: "bytes \<Rightarrow> bool" where
  "utf8_valid [] = True"
| "utf8_valid (c # s) =
     (if rune_len (c # s) = 0 then False
      else utf8_valid (drop (rune_len (c # s)) (c # s)))"
  by pat_completeness auto
termination
  by (relation "measure length") (auto simp del: rune_len.simps)

declare rune_len.simps(2) [simp del]

section \<open>Encoding a code point\<close>

definition utf8_encode :: "int \<Rightarrow> bytes" where
  "utf8_encode n =
     (if n < 0x80 then [char_of n]
      else if n < 0x800 then [char_of (0xC0 + n div 64), char_of (0x80 + n mod 64)]
      else if 0xD800 \<le> n \<and> n \<le> 0xDFFF then replacement
      else if n < 0x10000 then
        [char_of (0xE0 + n div 4096), char_of (0x80 + n div 64 mod 64), char_of (0x80 + n mod 64)]
      else if n \<le> 0x10FFFF then
        [char_of (0xF0 + n div 262144), char_of (0x80 + n div 4096 mod 64),
         char_of (0x80 + n div 64 mod 64), char_of (0x80 + n mod 64)]
      else replacement)"

section \<open>Lemmas\<close>

lemma rune_len_le: "rune_len s \<le> length s"
  by (cases s) (auto simp: rune_len.simps tail_ok_def min_def split: if_splits)

lemma rune_len_ascii: "byte_val c < 0x80 \<Longrightarrow> rune_len (c # s) = 1"
  by (simp add: rune_len.simps rune_width_def tail_ok_def)

text \<open>A rune is recognised from its own bytes: what follows does not matter.\<close>

lemma rune_len_append: "rune_len s \<noteq> 0 \<Longrightarrow> rune_len (s @ t) = rune_len s"
  by (cases s) (auto simp: rune_len.simps tail_ok_def min_def split: if_splits)

lemma rune_len_take:
  assumes "rune_len s \<noteq> 0"
  shows "rune_len (take (rune_len s) s @ t) = rune_len s"
proof (cases s)
  case (Cons c u)
  let ?w = "rune_width (byte_val c)"
  from assms Cons have ok: "tail_ok (byte_val c) (take (?w - 1) u)" and w: "rune_len s = ?w"
    by (auto simp: rune_len.simps split: if_splits)
  from w assms have "take ?w (c # u) = c # take (?w - 1) u"
    by (cases ?w) auto
  moreover from ok have "?w - 1 \<le> length u"
    by (simp add: tail_ok_def min_def split: if_splits)
  then have "take (?w - 1) (take (?w - 1) u @ t) = take (?w - 1) u" by simp
  ultimately show ?thesis using ok w Cons by (simp only: rune_len.simps append_Cons if_True)
qed (use assms in simp)

lemma rune_take_full:
  assumes "rune_len s \<noteq> 0"
  shows "rune_len (take (rune_len s) s) = length (take (rune_len s) s)"
  using rune_len_take [OF assms, of "[]"] rune_len_le [of s] by simp

lemma rune_len_replacement: "rune_len replacement = length replacement"
  by (simp add: rune_len.simps replacement_def tail_ok_def rune_width_def second_ok_def
      cont_byte_def byte_in_def)

lemma utf8_valid_rune:
  assumes "rune_len r = length r"
  shows "utf8_valid (r @ s) = utf8_valid s"
proof (cases r)
  case (Cons c u)
  with assms have "rune_len r \<noteq> 0" by simp
  then have "rune_len (r @ s) = length r"
    using assms rune_len_append [of r s] by simp
  with Cons show ?thesis by simp
qed simp

lemma utf8_valid_fix: "utf8_valid (utf8_fix s)"
proof (induction s rule: utf8_fix.induct)
  case (2 c s)
  show ?case
  proof (cases "rune_len (c # s) = 0")
    case True
    with "2.IH"(1) show ?thesis
      by (simp add: utf8_valid_rune [OF rune_len_replacement])
  next
    case False
    let ?r = "take (rune_len (c # s)) (c # s)"
    have "utf8_valid (?r @ utf8_fix (drop (rune_len (c # s)) (c # s)))"
      using utf8_valid_rune [OF rune_take_full [OF False]] "2.IH"(2) [OF False] by simp
    with False show ?thesis by simp
  qed
qed simp

lemma utf8_fix_id: "utf8_valid s \<Longrightarrow> utf8_fix s = s"
  by (induction s rule: utf8_valid.induct) (auto split: if_splits)

lemma utf8_fix_idem [simp]: "utf8_fix (utf8_fix s) = utf8_fix s"
  by (rule utf8_fix_id [OF utf8_valid_fix])

lemma utf8_valid_ascii: "list_all (\<lambda>c. byte_val c < 0x80) s \<Longrightarrow> utf8_valid s"
  by (induction s) (auto simp: rune_len_ascii)

lemma utf8_valid_append: "utf8_valid s \<Longrightarrow> utf8_valid (s @ t) = utf8_valid t"
proof (induction s rule: utf8_valid.induct)
  case (2 c s)
  then have nz: "rune_len (c # s) \<noteq> 0"
    and IH: "utf8_valid (drop (rune_len (c # s)) (c # s) @ t) = utf8_valid t"
    by (auto split: if_splits)
  from nz have eq: "rune_len (c # s @ t) = rune_len (c # s)"
    using rune_len_append [of "c # s" t] by simp
  have "drop (rune_len (c # s)) (c # s @ t) = drop (rune_len (c # s)) (c # s) @ t"
    using rune_len_le [of "c # s"] drop_append [of "rune_len (c # s)" "c # s" t] by simp
  with nz IH eq show ?case by simp
qed simp

end
