(* ===== verification/Json.thy ===== *)
theory Json
  imports Utf8
begin

text \<open>
  Go's \<open>encoding/json\<close> as the proxy uses it: the scanner, a machine that takes one step
  per byte over a stack of open containers (so no recursion depth and no fuel is
  needed), its result as a value of \<open>json\<close>, the decoding of string literals, the encoder
  of strings and values, and the decoding of objects into Go structs.
  String and number literals keep their source text, so \<open>render\<close> gives a value back byte
  for byte up to the whitespace between tokens; a \<open>json.RawMessage\<close> is a \<open>json\<close>.
\<close>

section \<open>Values and the scanner\<close>

datatype json =
    JNull
  | JBool bool
  | JNum bytes
  | JStr bytes
  | JArr "json list"
  | JObj "(bytes \<times> json) list"

datatype numst = Neg | Zero | Digits | Dot | Frac | Exp | ExpSign | ExpDigits

datatype jmode =
    BeginValue
  | BeginValueOrEnd
  | BeginKeyOrEnd
  | BeginKey
  | EndKey
  | EndValue
  | InString bool bytes
  | InEsc bool bytes
  | InHex bool nat bytes
  | InNum numst bytes
  | InLit bytes json

text \<open>
  An open array holds the elements read so far, an open object its members and the key
  whose value is being read, the latest first.
\<close>

datatype frame = FArr "json list" | FObj "(bytes \<times> json) list" bytes

type_synonym jstate = "jmode \<times> frame list \<times> json option"

definition json_space :: "char \<Rightarrow> bool" where
  "json_space c = (c = CHR 0x20 \<or> c = CHR 0x09 \<or> c = CHR 0x0D \<or> c = CHR 0x0A)"

text \<open>A finished value goes to the innermost open container, or is the result.\<close>

fun deliver :: "json \<Rightarrow> frame list \<Rightarrow> jstate" where
  "deliver v [] = (EndValue, [], Some v)"
| "deliver v (FArr vs # st) = (EndValue, FArr (v # vs) # st, None)"
| "deliver v (FObj ms k # st) = (EndValue, FObj ((k, v) # ms) k # st, None)"

text \<open>
  \<open>maxNestingDepth\<close> of Go's scanner: at most 10000 containers are open at a time. The
  test is on \<open>int\<close>, where the numeral stays binary when the scanner is evaluated.
\<close>

definition max_depth :: nat where
  "max_depth = 10000"

definition push :: "jmode \<Rightarrow> frame \<Rightarrow> frame list \<Rightarrow> jstate option" where
  "push m f st = (if int (length st) < 10000 then Some (m, f # st, None) else None)"

lemma push_depth: "push m f st = (if length st < max_depth then Some (m, f # st, None) else None)"
  by (simp add: push_def max_depth_def)

definition begin_value :: "char \<Rightarrow> frame list \<Rightarrow> jstate option" where
  "begin_value c st =
     (if json_space c then Some (BeginValue, st, None)
      else if c = CHR ''{'' then push BeginKeyOrEnd (FObj [] []) st
      else if c = CHR ''['' then push BeginValueOrEnd (FArr []) st
      else if c = CHR 0x22 then Some (InString False [], st, None)
      else if c = CHR ''-'' then Some (InNum Neg [c], st, None)
      else if c = CHR ''0'' then Some (InNum Zero [c], st, None)
      else if is_digit c then Some (InNum Digits [c], st, None)
      else if c = CHR ''t'' then Some (InLit ''rue'' (JBool True), st, None)
      else if c = CHR ''f'' then Some (InLit ''alse'' (JBool False), st, None)
      else if c = CHR ''n'' then Some (InLit ''ull'' JNull, st, None)
      else None)"

fun end_value :: "char \<Rightarrow> frame list \<Rightarrow> json option \<Rightarrow> jstate option" where
  "end_value c [] r = (if json_space c then Some (EndValue, [], r) else None)"
| "end_value c (FArr vs # st) r =
     (if json_space c then Some (EndValue, FArr vs # st, r)
      else if c = CHR '','' then Some (BeginValue, FArr vs # st, None)
      else if c = CHR '']'' then Some (deliver (JArr (rev vs)) st)
      else None)"
| "end_value c (FObj ms k # st) r =
     (if json_space c then Some (EndValue, FObj ms k # st, r)
      else if c = CHR '','' then Some (BeginKey, FObj ms k # st, None)
      else if c = CHR ''}'' then Some (deliver (JObj (rev ms)) st)
      else None)"

fun num_next :: "numst \<Rightarrow> char \<Rightarrow> numst option" where
  "num_next Neg c = (if c = CHR ''0'' then Some Zero else if is_digit c then Some Digits else None)"
| "num_next Zero c =
     (if c = CHR ''.'' then Some Dot else if c = CHR ''e'' \<or> c = CHR ''E'' then Some Exp else None)"
| "num_next Digits c =
     (if is_digit c then Some Digits else if c = CHR ''.'' then Some Dot
      else if c = CHR ''e'' \<or> c = CHR ''E'' then Some Exp else None)"
| "num_next Dot c = (if is_digit c then Some Frac else None)"
| "num_next Frac c =
     (if is_digit c then Some Frac else if c = CHR ''e'' \<or> c = CHR ''E'' then Some Exp else None)"
| "num_next Exp c =
     (if c = CHR ''+'' \<or> c = CHR ''-'' then Some ExpSign
      else if is_digit c then Some ExpDigits else None)"
| "num_next ExpSign c = (if is_digit c then Some ExpDigits else None)"
| "num_next ExpDigits c = (if is_digit c then Some ExpDigits else None)"

definition num_accept :: "numst \<Rightarrow> bool" where
  "num_accept n = (n = Zero \<or> n = Digits \<or> n = Frac \<or> n = ExpDigits)"

definition hex_digit :: "char \<Rightarrow> bool" where
  "hex_digit c = (is_digit c \<or> byte_in 65 70 c \<or> byte_in 97 102 c)"

definition simple_escape :: "char \<Rightarrow> bool" where
  "simple_escape c = (c \<in> {CHR ''b'', CHR ''f'', CHR ''n'', CHR ''r'', CHR ''t'',
                          CHR 0x5C, CHR ''/'', CHR 0x22})"

text \<open>The end of a string literal: it is the key of the innermost object, or a value.\<close>

fun end_string :: "bool \<Rightarrow> bytes \<Rightarrow> frame list \<Rightarrow> jstate option" where
  "end_string False b st = Some (deliver (JStr b) st)"
| "end_string True b (FObj ms k # st) = Some (EndKey, FObj ms b # st, None)"
| "end_string True b st = None"

fun jstep :: "jstate \<Rightarrow> char \<Rightarrow> jstate option" where
  "jstep (BeginValue, st, r) c = begin_value c st"
| "jstep (BeginValueOrEnd, st, r) c =
     (if json_space c then Some (BeginValueOrEnd, st, None)
      else if c = CHR '']'' then end_value c st r
      else begin_value c st)"
| "jstep (BeginKeyOrEnd, st, r) c =
     (if json_space c then Some (BeginKeyOrEnd, st, None)
      else if c = CHR ''}'' then end_value c st r
      else if c = CHR 0x22 then Some (InString True [], st, None)
      else None)"
| "jstep (BeginKey, st, r) c =
     (if json_space c then Some (BeginKey, st, None)
      else if c = CHR 0x22 then Some (InString True [], st, None)
      else None)"
| "jstep (EndKey, st, r) c =
     (if json_space c then Some (EndKey, st, None)
      else if c = CHR '':'' then Some (BeginValue, st, None)
      else None)"
| "jstep (EndValue, st, r) c = end_value c st r"
| "jstep (InString key b, st, r) c =
     (if c = CHR 0x22 then end_string key (rev b) st
      else if c = CHR 0x5C then Some (InEsc key (c # b), st, None)
      else if byte_val c < 0x20 then None
      else Some (InString key (c # b), st, None))"
| "jstep (InEsc key b, st, r) c =
     (if simple_escape c then Some (InString key (c # b), st, None)
      else if c = CHR ''u'' then Some (InHex key 4 (c # b), st, None)
      else None)"
| "jstep (InHex key n b, st, r) c =
     (if \<not> hex_digit c then None
      else if n \<le> 1 then Some (InString key (c # b), st, None)
      else Some (InHex key (n - 1) (c # b), st, None))"
| "jstep (InNum n b, st, r) c =
     (case num_next n c of
        Some n' \<Rightarrow> Some (InNum n' (c # b), st, None)
      | None \<Rightarrow>
          if num_accept n
          then (case deliver (JNum (rev b)) st of (m, st', r') \<Rightarrow> end_value c st' r')
          else None)"
| "jstep (InLit [] v, st, r) c = None"
| "jstep (InLit (x # xs) v, st, r) c =
     (if c \<noteq> x then None
      else if xs = [] then Some (deliver v st)
      else Some (InLit xs v, st, None))"

primrec jrun :: "bytes \<Rightarrow> jstate \<Rightarrow> jstate option" where
  "jrun [] st = Some st"
| "jrun (c # s) st = (case jstep st c of None \<Rightarrow> None | Some st' \<Rightarrow> jrun s st')"

text \<open>
  \<open>checkValid\<close> and the value it accepts: at the end of the text the scanner is stepped
  with a space, which completes a number, and must stand after a top-level value.
\<close>

definition json_result :: "jstate option \<Rightarrow> json option" where
  "json_result r = (case r of Some (EndValue, [], v) \<Rightarrow> v | _ \<Rightarrow> None)"

definition json_parse :: "bytes \<Rightarrow> json option" where
  "json_parse s = json_result (jrun (s @ [CHR 0x20]) (BeginValue, [], None))"

definition json_valid :: "bytes \<Rightarrow> bool" where
  "json_valid s = (json_parse s \<noteq> None)"

section \<open>Decoding string literals\<close>

definition hex_val :: "char \<Rightarrow> int" where
  "hex_val c =
     (if is_digit c then byte_val c - 48
      else if byte_in 97 102 c then byte_val c - 87
      else if byte_in 65 70 c then byte_val c - 55 else 0)"

definition hex4_val :: "char \<Rightarrow> char \<Rightarrow> char \<Rightarrow> char \<Rightarrow> int" where
  "hex4_val a b c d = 4096 * hex_val a + 256 * hex_val b + 16 * hex_val c + hex_val d"

definition unescape_char :: "char \<Rightarrow> char" where
  "unescape_char c =
     (if c = CHR ''b'' then CHR 0x08 else if c = CHR ''f'' then CHR 0x0C
      else if c = CHR ''n'' then CHR 0x0A else if c = CHR ''r'' then CHR 0x0D
      else if c = CHR ''t'' then CHR 0x09 else c)"

text \<open>
  The text after a \<open>\u\<close> escape of a high surrogate: the low surrogate that completes it
  and what follows, if it is there.
\<close>

definition low_surrogate :: "bytes \<Rightarrow> (int \<times> bytes) option" where
  "low_surrogate s =
     (case s of
        b # u # h1 # h2 # h3 # h4 # t \<Rightarrow>
          if b = CHR 0x5C \<and> u = CHR ''u'' \<and> 0xDC00 \<le> hex4_val h1 h2 h3 h4
             \<and> hex4_val h1 h2 h3 h4 \<le> 0xDFFF \<and> list_all hex_digit [h1, h2, h3, h4]
          then Some (hex4_val h1 h2 h3 h4, t) else None
      | _ \<Rightarrow> None)"

text \<open>
  One item of a literal: the bytes it decodes to and the rest. Bytes that are not valid
  UTF-8 and surrogates without a partner decode to U+FFFD.
\<close>

definition unquote_item :: "char \<Rightarrow> bytes \<Rightarrow> bytes \<times> bytes" where
  "unquote_item c s =
     (if c = CHR 0x5C then
        (case s of
           [] \<Rightarrow> ([], [])
         | e # t \<Rightarrow>
             if e = CHR ''u'' then
               (case t of
                  h1 # h2 # h3 # h4 # t' \<Rightarrow>
                    let n = hex4_val h1 h2 h3 h4 in
                    if 0xD800 \<le> n \<and> n \<le> 0xDBFF then
                      (case low_surrogate t' of
                         Some (l, t'') \<Rightarrow>
                           (utf8_encode (0x10000 + 1024 * (n - 0xD800) + (l - 0xDC00)), t'')
                       | None \<Rightarrow> (replacement, t'))
                    else (utf8_encode n, t')
                | _ \<Rightarrow> ([], []))
             else ([unescape_char e], t))
      else if rune_len (c # s) = 0 then (replacement, s)
      else (take (rune_len (c # s)) (c # s), drop (rune_len (c # s)) (c # s)))"

lemma low_surrogate_length: "low_surrogate s = Some (l, t) \<Longrightarrow> length t < length s"
  by (auto simp: low_surrogate_def split: list.splits if_splits)

lemma unquote_item_length: "length (snd (unquote_item c s)) < Suc (length s)"
  by (auto simp: unquote_item_def Let_def dest: low_surrogate_length split: list.splits option.splits)

function unquote :: "bytes \<Rightarrow> bytes" where
  "unquote [] = []"
| "unquote (c # s) = fst (unquote_item c s) @ unquote (snd (unquote_item c s))"
  by pat_completeness auto
termination
  by (relation "measure length") (auto simp: unquote_item_length)

end
