(* ===== verification/Json_Encode.thy ===== *)
theory Json_Encode
  imports Json
begin

text \<open>
  The encoder of \<open>encoding/json\<close> (string literals with and without HTML escaping, values
  from their literals) and the round trips: a literal the encoder wrote decodes to the
  same text (with invalid UTF-8 replaced), and a rendered value parses to itself.
\<close>

section \<open>Encoding string literals\<close>

definition hex_char :: "int \<Rightarrow> char" where
  "hex_char n = (if n < 10 then char_of (48 + n) else char_of (87 + n))"

definition escape_u :: "int \<Rightarrow> bytes" where
  "escape_u n =
     [CHR 0x5C, CHR ''u'', hex_char (n div 4096 mod 16), hex_char (n div 256 mod 16),
      hex_char (n div 16 mod 16), hex_char (n mod 16)]"

text \<open>\<open>html\<close> is \<open>SetEscapeHTML\<close>: on (the default), \<open><\<close>, \<open>>\<close> and \<open>&\<close> are escaped.\<close>

definition escape_ascii :: "bool \<Rightarrow> char \<Rightarrow> bytes" where
  "escape_ascii html c =
     (if c = CHR 0x22 \<or> c = CHR 0x5C then [CHR 0x5C, c]
      else if c = CHR 0x08 then [CHR 0x5C, CHR ''b'']
      else if c = CHR 0x0C then [CHR 0x5C, CHR ''f'']
      else if c = CHR 0x0A then [CHR 0x5C, CHR ''n'']
      else if c = CHR 0x0D then [CHR 0x5C, CHR ''r'']
      else if c = CHR 0x09 then [CHR 0x5C, CHR ''t'']
      else if byte_val c < 0x20 \<or> html \<and> c \<in> {CHR ''<'', CHR ''>'', CHR ''&''}
        then escape_u (byte_val c)
      else [c])"

definition line_sep :: "bytes \<Rightarrow> bool" where
  "line_sep r = (r = [CHR 0xE2, CHR 0x80, CHR 0xA8] \<or> r = [CHR 0xE2, CHR 0x80, CHR 0xA9])"

definition quote_rune :: "bool \<Rightarrow> bytes \<Rightarrow> bytes" where
  "quote_rune html r =
     (case r of
        [c] \<Rightarrow> escape_ascii html c
      | _ \<Rightarrow> if line_sep r then (if r = [CHR 0xE2, CHR 0x80, CHR 0xA8] then escape_u 0x2028
                               else escape_u 0x2029)
            else r)"

function quote :: "bool \<Rightarrow> bytes \<Rightarrow> bytes" where
  "quote html [] = []"
| "quote html (c # s) =
     (if rune_len (c # s) = 0 then escape_u 0xFFFD @ quote html s
      else quote_rune html (take (rune_len (c # s)) (c # s))
           @ quote html (drop (rune_len (c # s)) (c # s)))"
  by pat_completeness auto
termination
  by (relation "measure (\<lambda>(h, s). length s)") auto

section \<open>Encoding values\<close>

fun join_with :: "bytes \<Rightarrow> bytes list \<Rightarrow> bytes" where
  "join_with sep [] = []"
| "join_with sep [x] = x"
| "join_with sep (x # y # xs) = x @ sep @ join_with sep (y # xs)"

definition str_lit :: "bytes \<Rightarrow> bytes" where
  "str_lit b = CHR 0x22 # b @ [CHR 0x22]"

fun render :: "json \<Rightarrow> bytes" where
  "render JNull = ''null''"
| "render (JBool b) = (if b then ''true'' else ''false'')"
| "render (JNum t) = t"
| "render (JStr b) = str_lit b"
| "render (JArr vs) = ''['' @ join_with '','' (map render vs) @ '']''"
| "render (JObj ms) =
     ''{'' @ join_with '','' (map (\<lambda>(k, v). str_lit k @ '':'' @ render v) ms) @ ''}''"

text \<open>The encoding of a Go string, and of a Go string as a JSON value.\<close>

definition json_string :: "bytes \<Rightarrow> json" where
  "json_string s = JStr (quote False s)"

section \<open>What the encoder writes, the decoder reads\<close>

lemma hex_char_val:
  assumes "0 \<le> n" "n < 16" shows "hex_val (hex_char n) = n" and "hex_digit (hex_char n)"
  using assms
  by (auto simp: hex_val_def hex_char_def hex_digit_def is_digit_def byte_in_def)

lemma hex4_escape:
  assumes "0 \<le> n" "n < 65536"
  obtains a b c d where "escape_u n = [CHR 0x5C, CHR ''u'', a, b, c, d]" "hex4_val a b c d = n"
    "list_all hex_digit [a, b, c, d]"
proof -
  have "n div 256 = n div 16 div 16" "n div 4096 = n div 256 div 16"
    by (simp_all add: div_mult2_eq [symmetric])
  moreover have "n div 4096 mod 16 = n div 4096"
    using assms by (intro mod_pos_pos_trivial) auto
  ultimately have "4096 * (n div 4096 mod 16) + 256 * (n div 256 mod 16) + 16 * (n div 16 mod 16)
      + n mod 16 = n"
    using div_mult_mod_eq [of n 16] div_mult_mod_eq [of "n div 16" 16]
      div_mult_mod_eq [of "n div 256" 16] by linarith
  then have "hex4_val (hex_char (n div 4096 mod 16)) (hex_char (n div 256 mod 16))
      (hex_char (n div 16 mod 16)) (hex_char (n mod 16)) = n"
    by (simp only: hex4_val_def hex_char_val pos_mod_sign pos_mod_bound zero_less_numeral)
  with escape_u_def [of n] show ?thesis by (rule that) (simp add: hex_char_val)
qed

lemma unquote_escape_u:
  assumes "0 \<le> n" "n < 65536" "n < 0xD800 \<or> 0xDBFF < n"
  shows "unquote (escape_u n @ s) = utf8_encode n @ unquote s"
proof -
  obtain a b c d where "escape_u n = [CHR 0x5C, CHR ''u'', a, b, c, d]" "hex4_val a b c d = n"
      "list_all hex_digit [a, b, c, d]"
    by (rule hex4_escape [OF assms(1,2)])
  then have e: "escape_u n @ s = CHR 0x5C # CHR ''u'' # a # b # c # d # s" by simp
  have "\<not> (0xD800 \<le> hex4_val a b c d \<and> hex4_val a b c d \<le> 0xDBFF)"
    using assms(3) \<open>hex4_val a b c d = n\<close> by linarith
  then have "unquote_item (CHR 0x5C) (CHR ''u'' # a # b # c # d # s) = (utf8_encode n, s)"
    using \<open>hex4_val a b c d = n\<close>
    by (simp only: unquote_item_def Let_def list.case simp_thms if_True if_False)
  with e show ?thesis by (simp only: unquote.simps fst_conv snd_conv)
qed

lemma utf8_encode_special:
  "utf8_encode 0xFFFD = replacement"
  "utf8_encode 0x2028 = [CHR 0xE2, CHR 0x80, CHR 0xA8]"
  "utf8_encode 0x2029 = [CHR 0xE2, CHR 0x80, CHR 0xA9]"
  by (simp_all add: utf8_encode_def replacement_def char_of_eq_iff take_bit_eq_mod)

lemma unquote_plain:
  assumes "rune_len r = length r" "r \<noteq> []" "hd r \<noteq> CHR 0x5C"
  shows "unquote (r @ s) = r @ unquote s"
proof -
  obtain c u where r: "r = c # u" using assms(2) by (cases r) auto
  have "rune_len (c # u @ s) = length r"
    using rune_len_append [of r s] assms(1,2) r by simp
  then show ?thesis using assms(3) r by (simp add: unquote_item_def)
qed

lemma unquote_escape_ascii:
  assumes "byte_val c < 0x80"
  shows "unquote (escape_ascii html c @ s) = c # unquote s"
proof (cases "escape_ascii html c = [c]")
  case True
  then have "c \<noteq> CHR 0x5C" by (auto simp: escape_ascii_def)
  with True assms show ?thesis
    using unquote_plain [of "[c]" s] by (simp add: rune_len_ascii)
next
  case False
  show ?thesis
  proof (cases "escape_ascii html c = escape_u (byte_val c)")
    case True
    with assms show ?thesis
      using unquote_escape_u [of "byte_val c" s] by (simp add: utf8_encode_def)
  next
    case no_u: False
    with False show ?thesis
      by (auto simp: escape_ascii_def unquote_item_def unescape_char_def split: if_splits)
  qed
qed

lemma unquote_quote_rune:
  assumes "rune_len r = length r" "r \<noteq> []"
  shows "unquote (quote_rune html r @ s) = r @ unquote s"
proof -
  obtain c u where r: "r = c # u" using assms(2) by (cases r) auto
  show ?thesis
  proof (cases u)
    case Nil
    with assms r have "byte_val c < 0x80"
      by (auto simp: rune_len.simps rune_width_def tail_ok_def split: if_splits)
    with Nil r show ?thesis by (simp add: quote_rune_def unquote_escape_ascii)
  next
    case (Cons d v)
    with assms r have "\<not> byte_val c < 0x80"
      using rune_len_ascii [of c u] by auto
    then have c: "hd r \<noteq> CHR 0x5C" using r by auto
    show ?thesis
      using unquote_plain [OF assms c] r Cons
        unquote_escape_u [of "0x2028" s] unquote_escape_u [of "0x2029" s]
      by (auto simp: quote_rune_def line_sep_def utf8_encode_special)
  qed
qed

theorem unquote_quote: "unquote (quote html s) = utf8_fix s"
proof (induction s rule: utf8_fix.induct)
  case (2 c s)
  show ?case
  proof (cases "rune_len (c # s) = 0")
    case True
    then show ?thesis
      using "2.IH"(1) [OF True] unquote_escape_u [of "0xFFFD" "quote html s"]
      by (simp add: utf8_encode_special)
  next
    case False
    then have "take (rune_len (c # s)) (c # s) \<noteq> []" by simp
    from unquote_quote_rune [OF rune_take_full [OF False] this] False "2.IH"(2) [OF False]
    show ?thesis by simp
  qed
qed simp

section \<open>Rendered values parse to themselves\<close>

text \<open>The bodies of string literals and the number literals the scanner accepts.\<close>

fun str_ok :: "bytes \<Rightarrow> bool" where
  "str_ok [] = True"
| "str_ok (c # s) =
     (if c = CHR 0x5C then
        (case s of [] \<Rightarrow> False
         | e # t \<Rightarrow>
             if simple_escape e then str_ok t
             else e = CHR ''u'' \<and>
               (case t of h1 # h2 # h3 # h4 # t' \<Rightarrow> list_all hex_digit [h1, h2, h3, h4] \<and> str_ok t'
                | _ \<Rightarrow> False))
      else c \<noteq> CHR 0x22 \<and> 0x20 \<le> byte_val c \<and> str_ok s)"

primrec num_steps :: "bytes \<Rightarrow> numst \<Rightarrow> numst option" where
  "num_steps [] n = Some n"
| "num_steps (c # s) n = (case num_next n c of None \<Rightarrow> None | Some n' \<Rightarrow> num_steps s n')"

definition num_start :: "char \<Rightarrow> numst option" where
  "num_start c = (if c = CHR ''-'' then Some Neg else if c = CHR ''0'' then Some Zero
                  else if is_digit c then Some Digits else None)"

fun num_ok :: "bytes \<Rightarrow> bool" where
  "num_ok [] = False"
| "num_ok (c # s) =
     (case num_start c of None \<Rightarrow> False
      | Some n \<Rightarrow> (case num_steps s n of None \<Rightarrow> False | Some n' \<Rightarrow> num_accept n'))"

fun wf_json :: "nat \<Rightarrow> json \<Rightarrow> bool" where
  "wf_json d (JNum t) = num_ok t"
| "wf_json d (JStr b) = str_ok b"
| "wf_json d (JArr vs) = (0 < d \<and> (\<forall>v \<in> set vs. wf_json (d - 1) v))"
| "wf_json d (JObj ms) = (0 < d \<and> (\<forall>(k, v) \<in> set ms. str_ok k \<and> wf_json (d - 1) v))"
| "wf_json d v = True"

lemma jrun_append: "jrun (s @ t) st = (case jrun s st of None \<Rightarrow> None | Some st' \<Rightarrow> jrun t st')"
  by (induction s arbitrary: st) (auto split: option.splits)

lemma jrun_str: "str_ok s \<Longrightarrow>
  jrun (s @ t) (InString key b, st, None) = jrun t (InString key (rev s @ b), st, None)"
proof (induction s arbitrary: b rule: str_ok.induct)
  case (2 c s)
  show ?case
  proof (cases "c = CHR 0x5C")
    case esc: True
    with "2.prems" obtain e u where s: "s = e # u" by (auto split: list.splits)
    show ?thesis
    proof (cases "simple_escape e")
      case True
      with "2.prems" "2.IH"(1) [OF esc s True] s esc show ?thesis by simp
    next
      case False
      with "2.prems" s esc obtain h1 h2 h3 h4 u' where u: "e = CHR ''u''" "u = h1 # h2 # h3 # h4 # u'"
          "list_all hex_digit [h1, h2, h3, h4]" "str_ok u'"
        by (auto split: list.splits)
      with "2.IH"(2) [OF esc s False u(2)] False s esc show ?thesis by simp
    qed
  next
    case False
    with "2.prems" "2.IH"(3) [OF False] show ?thesis by simp
  qed
qed simp

lemma jrun_num: "num_steps s n = Some n' \<Longrightarrow>
  jrun (s @ t) (InNum n b, st, None) = jrun t (InNum n' (rev s @ b), st, None)"
  by (induction s arbitrary: n b) (auto split: option.splits)

definition delim :: "char \<Rightarrow> bool" where
  "delim c = (c \<in> {CHR '','', CHR '']'', CHR ''}'', CHR 0x20, CHR 0x0A})"

lemma delim_num_next: "delim c \<Longrightarrow> num_next n c = None"
  by (cases n) (auto simp: delim_def is_digit_def)

lemma deliver_mode: "\<exists>st' r. deliver v st = (EndValue, st', r)"
  by (cases st rule: list.exhaust, simp) (metis deliver.simps frame.exhaust)

lemma jstep_deliver: "jstep (deliver v st) c =
  (case deliver v st of (m, st', r) \<Rightarrow> end_value c st' r)"
  using deliver_mode [of v st] by auto

lemma jrun_num_lit:
  assumes "num_ok t" "delim c"
  shows "jrun (t @ c # s) (BeginValue, st, None) = jrun (c # s) (deliver (JNum t) st)"
proof -
  obtain x u where t: "t = x # u" using assms(1) by (cases t) auto
  with assms(1) obtain n n' where n: "num_start x = Some n" "num_steps u n = Some n'" "num_accept n'"
    by (auto split: option.splits)
  have "is_digit x \<Longrightarrow> \<not> json_space x \<and> x \<notin> {CHR ''{'', CHR ''['', CHR 0x22, CHR ''-''}"
    by (auto simp: is_digit_def json_space_def)
  then have "begin_value x st = Some (InNum n [x], st, None)"
    using n(1) by (auto simp: begin_value_def num_start_def json_space_def split: if_splits)
  with t n(3) show ?thesis
    by (simp add: jrun_num [OF n(2)] delim_num_next [OF assms(2)] jstep_deliver)
qed

lemma jrun_key:
  assumes "str_ok k"
  shows "jrun (str_lit k @ '':'' @ s) (BeginKey, FObj ms k' # st, None)
           = jrun s (BeginValue, FObj ms k # st, None)"
  using jrun_str [OF assms, of "CHR 0x22 # '':'' @ s" True "[]"]
  by (simp add: str_lit_def json_space_def)

lemma render_first:
  assumes "wf_json d v"
  shows "\<exists>c s. render v = c # s \<and> \<not> json_space c \<and> c \<noteq> CHR '']'' \<and> c \<noteq> CHR ''}''"
proof (cases v)
  case (JNum t)
  with assms show ?thesis
    by (cases t) (auto simp: num_start_def json_space_def is_digit_def split: option.splits if_splits)
qed (auto simp: str_lit_def json_space_def)

lemma jrun_first_value:
  assumes "wf_json d v"
  shows "jrun (render v @ s) (BeginValueOrEnd, st, None) = jrun (render v @ s) (BeginValue, st, None)"
  using render_first [OF assms] by auto

lemma jrun_elems:
  assumes "\<And>v acc c s. v \<in> set vs \<Longrightarrow> delim c \<Longrightarrow>
      jrun (render v @ c # s) (BeginValue, FArr acc # st, None)
        = jrun (c # s) (EndValue, FArr (v # acc) # st, None)"
    and "vs \<noteq> []"
  shows "jrun (join_with '','' (map render vs) @ CHR '']'' # s) (BeginValue, FArr acc # st, None)
           = jrun s (deliver (JArr (rev acc @ vs)) st)"
  using assms
proof (induction vs arbitrary: acc)
  case (Cons v vs)
  have d: "delim (CHR '']'')" "delim (CHR '','')" by (simp_all add: delim_def)
  show ?case
  proof (cases vs)
    case Nil
    then show ?thesis
      using Cons.prems(1) [of v "CHR '']''" s acc] d by (simp add: json_space_def)
  next
    case (Cons w ws)
    let ?rest = "join_with '','' (map render vs) @ CHR '']'' # s"
    have "jrun (render v @ CHR '','' # ?rest) (BeginValue, FArr acc # st, None)
        = jrun ?rest (BeginValue, FArr (v # acc) # st, None)"
      using Cons.prems(1) [of v "CHR '',''" ?rest acc] d by (simp add: json_space_def)
    moreover have "jrun ?rest (BeginValue, FArr (v # acc) # st, None)
        = jrun s (deliver (JArr (rev (v # acc) @ vs)) st)"
      using Cons Cons.prems(1) by (intro Cons.IH) auto
    ultimately show ?thesis using Cons by simp
  qed
qed simp

definition render_member :: "bytes \<times> json \<Rightarrow> bytes" where
  "render_member = (\<lambda>(k, v). str_lit k @ '':'' @ render v)"

lemma jrun_members:
  assumes "\<And>k v acc k' c s. (k, v) \<in> set ms \<Longrightarrow> delim c \<Longrightarrow>
      jrun (render_member (k, v) @ c # s) (BeginKey, FObj acc k' # st, None)
        = jrun (c # s) (EndValue, FObj ((k, v) # acc) k # st, None)"
    and "ms \<noteq> []"
  shows "jrun (join_with '','' (map render_member ms) @ CHR ''}'' # s) (BeginKey, FObj acc k' # st, None)
           = jrun s (deliver (JObj (rev acc @ ms)) st)"
  using assms
proof (induction ms arbitrary: acc k')
  case (Cons m ms)
  obtain k v where m: "m = (k, v)" by (cases m)
  have d: "delim (CHR ''}'')" "delim (CHR '','')" by (simp_all add: delim_def)
  show ?case
  proof (cases ms)
    case Nil
    then show ?thesis
      using Cons.prems(1) [of k v "CHR ''}''" s acc k'] d m by (simp add: json_space_def)
  next
    case (Cons w ws)
    let ?rest = "join_with '','' (map render_member ms) @ CHR ''}'' # s"
    have "jrun (render_member m @ CHR '','' # ?rest) (BeginKey, FObj acc k' # st, None)
        = jrun ?rest (BeginKey, FObj (m # acc) k # st, None)"
      using Cons.prems(1) [of k v "CHR '',''" ?rest acc k'] d m by (simp add: json_space_def)
    moreover have "jrun ?rest (BeginKey, FObj (m # acc) k # st, None)
        = jrun s (deliver (JObj (rev (m # acc) @ ms)) st)"
      using Cons Cons.prems(1) by (intro Cons.IH) auto
    ultimately show ?thesis using Cons by simp
  qed
qed simp

lemma render_JObj: "render (JObj ms) = ''{'' @ join_with '','' (map render_member ms) @ ''}''"
  by (simp add: render_member_def)

lemma jrun_literal:
  assumes "v \<in> {JNull, JBool True, JBool False}"
  shows "jrun (render v @ s) (BeginValue, st, None) = jrun s (deliver v st)"
  using assms by (auto simp: begin_value_def json_space_def is_digit_def)

lemma jrun_array:
  assumes "\<forall>v \<in> set vs. wf_json d v" "length st < max_depth"
    and "\<And>v acc c s. v \<in> set vs \<Longrightarrow> delim c \<Longrightarrow>
      jrun (render v @ c # s) (BeginValue, FArr acc # st, None)
        = jrun (c # s) (EndValue, FArr (v # acc) # st, None)"
  shows "jrun (render (JArr vs) @ s) (BeginValue, st, None) = jrun s (deliver (JArr vs) st)"
proof (cases vs)
  case Nil
  with assms(2) show ?thesis
    by (simp add: begin_value_def json_space_def push_depth)
next
  case (Cons v ws)
  let ?body = "join_with '','' (map render vs) @ CHR '']'' # s"
  have "jrun (render (JArr vs) @ s) (BeginValue, st, None) = jrun ?body (BeginValueOrEnd, FArr [] # st, None)"
    using assms(2) by (simp add: begin_value_def json_space_def push_depth)
  also have "\<dots> = jrun ?body (BeginValue, FArr [] # st, None)"
  proof -
    obtain t where "?body = render v @ t" using Cons by (cases ws) auto
    moreover from Cons assms(1) have "wf_json d v" by simp
    ultimately show ?thesis using jrun_first_value by metis
  qed
  also have "\<dots> = jrun s (deliver (JArr (rev [] @ vs)) st)"
    using Cons by (intro jrun_elems [OF assms(3)]) auto
  finally show ?thesis by simp
qed

lemma jrun_object:
  assumes "length st < max_depth"
    and "\<And>k v acc k' c s. (k, v) \<in> set ms \<Longrightarrow> delim c \<Longrightarrow>
      jrun (render_member (k, v) @ c # s) (BeginKey, FObj acc k' # st, None)
        = jrun (c # s) (EndValue, FObj ((k, v) # acc) k # st, None)"
  shows "jrun (render (JObj ms) @ s) (BeginValue, st, None) = jrun s (deliver (JObj ms) st)"
proof (cases ms)
  case Nil
  with assms(1) show ?thesis
    by (simp add: begin_value_def json_space_def push_depth is_digit_def)
next
  case (Cons m ns)
  let ?body = "join_with '','' (map render_member ms) @ CHR ''}'' # s"
  have "jrun (render (JObj ms) @ s) (BeginValue, st, None) = jrun ?body (BeginKeyOrEnd, FObj [] [] # st, None)"
    using assms(1) unfolding render_JObj by (simp add: begin_value_def json_space_def push_depth)
  also have "\<dots> = jrun ?body (BeginKey, FObj [] [] # st, None)"
  proof -
    obtain t where "?body = CHR 0x22 # t"
      using Cons by (cases ns; cases m) (auto simp: render_member_def str_lit_def)
    then show ?thesis by (simp add: json_space_def)
  qed
  also have "\<dots> = jrun s (deliver (JObj (rev [] @ ms)) st)"
    using Cons by (intro jrun_members [OF assms(2)]) auto
  finally show ?thesis by simp
qed

theorem jrun_render:
  "wf_json d v \<Longrightarrow> length st + d \<le> max_depth \<Longrightarrow> delim c \<Longrightarrow>
   jrun (render v @ c # s) (BeginValue, st, None) = jrun (c # s) (deliver v st)"
proof (induction d v arbitrary: st c s rule: wf_json.induct)
  case (1 d t)
  then show ?case using jrun_num_lit [of t c s st] by simp
next
  case (2 d b)
  then show ?case
    using jrun_str [of b "CHR 0x22 # c # s" False "[]" st]
    by (simp add: str_lit_def begin_value_def json_space_def)
next
  case (3 d vs)
  from "3.prems" have w: "\<forall>v \<in> set vs. wf_json (d - 1) v" and l: "length st < max_depth" by auto
  have "jrun (render v @ c # s) (BeginValue, FArr acc # st, None)
      = jrun (c # s) (EndValue, FArr (v # acc) # st, None)"
    if "v \<in> set vs" "delim c" for v acc c s
    using "3.IH" [of v "FArr acc # st" c s] "3.prems" that by simp
  then show ?case using jrun_array [OF w l] by blast
next
  case (4 d ms)
  from "4.prems" have l: "length st < max_depth" by auto
  have "jrun (render_member (k, v) @ c # s) (BeginKey, FObj acc k' # st, None)
      = jrun (c # s) (EndValue, FObj ((k, v) # acc) k # st, None)"
    if m: "(k, v) \<in> set ms" and c: "delim c" for k v acc k' c s
  proof -
    have w: "str_ok k" "wf_json (d - 1) v" using "4.prems" m by auto
    have "jrun (render v @ c # s) (BeginValue, FObj acc k # st, None)
        = jrun (c # s) (deliver v (FObj acc k # st))"
      using "4.prems" m c w by (intro "4.IH") auto
    then show ?thesis
      using jrun_key [OF w(1), of "render v @ c # s" acc k' st] by (simp add: render_member_def)
  qed
  then show ?case by (rule jrun_object [OF l])
qed (use jrun_literal in \<open>auto simp del: jrun.simps render.simps jstep.simps\<close>)

corollary json_parse_render: "wf_json max_depth v \<Longrightarrow> json_parse (render v) = Some v"
  using jrun_render [of max_depth v "[]" "CHR 0x20" "[]"]
  by (simp add: json_parse_def json_result_def delim_def json_space_def)

end
