(* ===== verification/Json_Decode.thy ===== *)
theory Json_Decode
  imports Json_Encode
begin

text \<open>
  \<open>json.Unmarshal\<close> into Go structs. A decoder updates a target and an error flag: Go
  keeps decoding after a type mismatch and returns the first error at the end, so the
  fields that did fit are set; null leaves a target as it is; a repeated key decodes
  into the same field again, and for a nested struct the members accumulate. Object
  keys match struct fields without regard to case.
\<close>

type_synonym 'a decoder = "json \<Rightarrow> 'a \<times> bool \<Rightarrow> 'a \<times> bool"

text \<open>
  \<open>foldName\<close>: ASCII letters in upper case; the long s and the Kelvin sign fold to S and
  K; other non-ASCII runes do not fold to ASCII, so they are left as they are.
\<close>

fun fold_name :: "bytes \<Rightarrow> bytes" where
  "fold_name [] = []"
| "fold_name (c # s) =
     (if has_prefix (c # s) [CHR 0xC5, CHR 0xBF] then CHR ''S'' # fold_name (drop 1 s)
      else if has_prefix (c # s) [CHR 0xE2, CHR 0x84, CHR 0xAA] then CHR ''K'' # fold_name (drop 2 s)
      else upper_char c # fold_name s)"

fun dec_string :: "bytes decoder" where
  "dec_string (JStr b) (v, e) = (unquote b, e)"
| "dec_string JNull (v, e) = (v, e)"
| "dec_string _ (v, e) = (v, True)"

fun dec_int :: "int decoder" where
  "dec_int (JNum t) (v, e) = (case parse_int64 t of Inr n \<Rightarrow> (n, e) | Inl _ \<Rightarrow> (v, True))"
| "dec_int JNull (v, e) = (v, e)"
| "dec_int _ (v, e) = (v, True)"

fun dec_bool :: "bool decoder" where
  "dec_bool (JBool b) (v, e) = (b, e)"
| "dec_bool JNull (v, e) = (v, e)"
| "dec_bool _ (v, e) = (v, True)"

text \<open>A \<open>json.RawMessage\<close> takes any value, null included; \<open>None\<close> is the empty message.\<close>

definition dec_raw :: "json option decoder" where
  "dec_raw j s = (Some j, snd s)"

text \<open>A decoder of a record from a decoder of one of its fields.\<close>

definition dec_field :: "('r \<Rightarrow> 'a) \<Rightarrow> (('a \<Rightarrow> 'a) \<Rightarrow> 'r \<Rightarrow> 'r) \<Rightarrow> 'a decoder \<Rightarrow> 'r decoder" where
  "dec_field get upd d j s =
     (case d j (get (fst s), snd s) of (x, e) \<Rightarrow> (upd (\<lambda>_. x) (fst s), e))"

text \<open>
  \<open>dec_struct fields\<close> decodes an object: \<open>fields\<close> lists the struct's field names as
  they are tagged, with their decoders.
\<close>

definition field_decoder :: "(bytes \<times> 'a decoder) list \<Rightarrow> bytes \<Rightarrow> 'a decoder option" where
  "field_decoder fs key = map_of (map (\<lambda>(n, d). (fold_name n, d)) fs) (fold_name (unquote key))"

primrec dec_members :: "(bytes \<times> 'a decoder) list \<Rightarrow> (bytes \<times> json) list \<Rightarrow> 'a \<times> bool \<Rightarrow> 'a \<times> bool" where
  "dec_members fs [] s = s"
| "dec_members fs (m # ms) s =
     dec_members fs ms
       (case field_decoder fs (fst m) of None \<Rightarrow> s | Some d \<Rightarrow> d (snd m) s)"

fun dec_struct :: "(bytes \<times> 'a decoder) list \<Rightarrow> 'a decoder" where
  "dec_struct fs (JObj ms) s = dec_members fs ms s"
| "dec_struct fs JNull s = s"
| "dec_struct fs _ s = (fst s, True)"

text \<open>
  \<open>json.Unmarshal (data, &v)\<close>: the target and whether it returned an error. Invalid
  JSON leaves the target untouched.
\<close>

definition unmarshal :: "'a decoder \<Rightarrow> bytes \<Rightarrow> 'a \<Rightarrow> 'a \<times> bool" where
  "unmarshal d data v = (case json_parse data of None \<Rightarrow> (v, True) | Some j \<Rightarrow> d j (v, False))"

text \<open>\<open>json.Unmarshal\<close> of a \<open>json.RawMessage\<close>, which is an error when it is empty.\<close>

definition unmarshal_raw :: "'a decoder \<Rightarrow> json option \<Rightarrow> 'a \<Rightarrow> 'a \<times> bool" where
  "unmarshal_raw d raw v = (case raw of None \<Rightarrow> (v, True) | Some j \<Rightarrow> d j (v, False))"

text \<open>
  \<open>map[string]json.RawMessage\<close>: the members by decoded key, a later one replacing an
  earlier one; an error (\<open>None\<close>) for a value that is neither an object nor null. A nil
  map has no keys.
\<close>

definition raw_map :: "json \<Rightarrow> (bytes \<rightharpoonup> json) option" where
  "raw_map j = (case j of
       JObj ms \<Rightarrow> Some (map_of (rev (map (\<lambda>(k, v). (unquote k, v)) ms)))
     | JNull \<Rightarrow> Some Map.empty
     | _ \<Rightarrow> None)"

section \<open>Lemmas\<close>

lemma unmarshal_invalid: "json_parse data = None \<Longrightarrow> unmarshal d data v = (v, True)"
  by (simp add: unmarshal_def)

lemma dec_string_err: "snd (dec_string j s) \<Longrightarrow> \<not> snd s \<Longrightarrow> fst (dec_string j s) = fst s"
  by (cases "(j, s)" rule: dec_string.cases) auto

lemma dec_members_append:
  "dec_members fs (ms @ ns) s = dec_members fs ns (dec_members fs ms s)"
  by (induction ms arbitrary: s) auto

lemma dec_members_skip:
  "(\<And>m. m \<in> set ms \<Longrightarrow> field_decoder fs (fst m) = None) \<Longrightarrow> dec_members fs ms s = s"
  by (induction ms arbitrary: s) auto

end
