(* ===== verification/Config.thy ===== *)
theory Config
  imports Json_Decode Http
begin

text \<open>
  The configuration of the proxy (main.go): the \<open>config\<close> struct, the \<open>envReader\<close> that
  collects every malformed variable, \<open>parseUpstream\<close>, \<open>loadClaudeRefusalFallbacks\<close> and
  \<open>parseConfig\<close> over an environment, and the choice of the transactional window.

  Durations are nanoseconds, as \<open>time.Duration\<close> is. The environment is the \<open>lookup\<close>
  function the source also takes; \<open>url.Parse\<close> is a parameter that gives the scheme and
  the host of a URL it accepts, and \<open>os.TempDir\<close> a parameter that is a string. An error
  message is kept as the values it is formatted from.
\<close>

section \<open>The configuration record\<close>

record config =
  listenAddr :: bytes
  upstream :: bytes
  upstreamHost :: bytes
  maxBufferMem :: int
  maxResponseBytes :: int
  maxRequestBytes :: int
  respHeaderTO :: int
  upstreamByteIdle :: int
  keepaliveMs :: int
  wfKeepaliveMs :: int
  responsesKeepaliveMs :: int
  responsesBufferMs :: int
  geminiBufferMs :: int
  responsesEarlyCommit :: bool
  responsesReplayBytes :: int
  maxRequestDur :: int
  sdkRetryCap :: int
  txLocalRetries :: int
  localBackoffCap :: int
  spoolDir :: bytes
  requestLogDir :: bytes
  validateJSON :: bool
  normalizeToolJSON :: bool
  claudeRefusalFallbacks :: "bytes list"
  verbose :: bool

definition millisecond :: int where
  "millisecond = 1000000"

definition second_dur :: int where
  "second_dur = 1000000000"

definition keepaliveWindow :: "config \<Rightarrow> bool \<Rightarrow> bool \<Rightarrow> bool \<Rightarrow> int" where
  "keepaliveWindow c isResp earlyCommit gated =
     (if earlyCommit then responsesKeepaliveMs c
      else if isResp then responsesBufferMs c
      else if gated then wfKeepaliveMs c
      else keepaliveMs c)"

text \<open>\<open>None\<close> is the zero \<open>time.Time\<close>: no deadline.\<close>

definition bufferDeadline :: "int \<Rightarrow> int \<Rightarrow> int option" where
  "bufferDeadline start window = (if window \<le> 0 then None else Some (start + window))"

section \<open>Reading the environment\<close>

type_synonym environment = "bytes \<Rightarrow> bytes option"

datatype config_error =
    NotAnInteger (err_key: bytes) (err_value: bytes)
  | BelowMinimum bytes int int
  | AboveMaximum bytes int int
  | ConfigError bytes
  | NotClaudeModel bytes bytes

definition env_str :: "environment \<Rightarrow> bytes \<Rightarrow> bytes \<Rightarrow> bytes" where
  "env_str lookup k d = (case lookup k of Some v \<Rightarrow> if v \<noteq> [] then v else d | None \<Rightarrow> d)"

definition env_int64 :: "environment \<Rightarrow> bytes \<Rightarrow> int \<Rightarrow> int \<Rightarrow> int \<times> config_error list" where
  "env_int64 lookup k d minAllowed =
     (case lookup k of
        None \<Rightarrow> (d, [])
      | Some v \<Rightarrow>
          if v = [] then (d, [])
          else (case parse_int64 (trim_space v) of
                  Inl _ \<Rightarrow> (d, [NotAnInteger k v])
                | Inr n \<Rightarrow> if n < minAllowed then (d, [BelowMinimum k n minAllowed]) else (n, [])))"

definition env_ms :: "environment \<Rightarrow> bytes \<Rightarrow> int \<Rightarrow> int \<Rightarrow> int \<times> config_error list" where
  "env_ms lookup k d minAllowed =
     (let (n, es) = env_int64 lookup k d minAllowed; maxMS = max_int64 div millisecond
      in if n > maxMS then (wrap64 (d * millisecond), es @ [AboveMaximum k n maxMS])
         else (wrap64 (n * millisecond), es))"

section \<open>parseUpstream\<close>

fun trim_right_char :: "char \<Rightarrow> bytes \<Rightarrow> bytes" where
  "trim_right_char d s = rev (dropWhile (\<lambda>c. c = d) (rev s))"

definition contains_any :: "bytes \<Rightarrow> bytes \<Rightarrow> bool" where
  "contains_any s chars = list_ex (\<lambda>c. c \<in> set chars) s"

definition parseUpstream ::
    "(bytes \<Rightarrow> (bytes \<times> bytes) option) \<Rightarrow> bytes \<Rightarrow> bytes + bytes \<times> bytes" where
  "parseUpstream url_parse raw0 =
     (let raw = trim_space raw0
      in if raw = [] then Inl ''PROXY_UPSTREAM_URL is required, e.g. https://gateway.example.com''
         else case url_parse raw of
                None \<Rightarrow> Inl ''PROXY_UPSTREAM_URL: invalid URL''
              | Some (scheme, host) \<Rightarrow>
                  if (scheme \<noteq> ''http'' \<and> scheme \<noteq> ''https'') \<or> host = []
                  then Inl ''PROXY_UPSTREAM_URL: must be http(s)://host[:port][/prefix]''
                  else if contains_any raw ''?#''
                  then Inl ''PROXY_UPSTREAM_URL: must not carry a query or fragment''
                  else Inr (trim_right_char (CHR ''/'') raw, host))"

section \<open>loadClaudeRefusalFallbacks\<close>

definition isClaudeModel :: "bytes \<Rightarrow> bool" where
  "isClaudeModel model = contains (to_lower model) ''claude''"

definition equal_fold :: "bytes \<Rightarrow> bytes \<Rightarrow> bool" where
  "equal_fold a b = (fold_name a = fold_name b)"

definition fallback_key :: bytes where
  "fallback_key = ''PROXY_CLAUDE_REFUSAL_FALLBACK_MODELS''"

fun unique_models :: "bytes list \<Rightarrow> bytes list \<Rightarrow> config_error + bytes list" where
  "unique_models [] unique = Inr unique"
| "unique_models (entry # rest) unique =
     (let model = trim_space entry
      in if \<not> isClaudeModel model then Inl (NotClaudeModel fallback_key model)
         else unique_models rest (if model \<in> set unique then unique else unique @ [model]))"

definition loadClaudeRefusalFallbacks :: "environment \<Rightarrow> config_error + bytes list" where
  "loadClaudeRefusalFallbacks lookup =
     (if lookup ''PROXY_REFUSAL_FALLBACK_MODEL'' \<noteq> None
      then Inl (ConfigError (''PROXY_REFUSAL_FALLBACK_MODEL was replaced by '' @ fallback_key))
      else case lookup fallback_key of
             None \<Rightarrow> Inr [''claude-fable-latest'', ''claude-opus-latest'', ''claude-sonnet-latest'']
           | Some v0 \<Rightarrow>
               let v = trim_space v0
               in if v = [] \<or> equal_fold v ''off'' \<or> equal_fold v ''none'' \<or> equal_fold v ''disabled''
                  then Inr []
                  else unique_models (split_on (CHR '','') v) [])"

definition refusalFallbackDesc :: "bytes list \<Rightarrow> bytes" where
  "refusalFallbackDesc models =
     (case models of [] \<Rightarrow> ''off'' | m # ms \<Rightarrow> m @ concat (map (\<lambda>x. CHR '','' # x) ms))"

section \<open>parseConfig\<close>

text \<open>Every problem is collected, in the order the source reads the variables.\<close>

definition parseConfig ::
    "(bytes \<Rightarrow> (bytes \<times> bytes) option) \<Rightarrow> bytes \<Rightarrow> environment \<Rightarrow> config_error list + config" where
  "parseConfig url_parse tempDir lookup =
     (let (up, e0) = (case parseUpstream url_parse (env_str lookup ''PROXY_UPSTREAM_URL'' []) of
                        Inl m \<Rightarrow> (([], []), [ConfigError m]) | Inr u \<Rightarrow> (u, []));
          (fallbacks, e1) = (case loadClaudeRefusalFallbacks lookup of
                               Inl m \<Rightarrow> ([], [m]) | Inr ms \<Rightarrow> (ms, []));
          r2 = env_int64 lookup ''PROXY_MAX_BUFFER_MEM_BYTES'' 1048576 0;
          r3 = env_int64 lookup ''PROXY_MAX_RESPONSE_BYTES'' 134217728 1;
          r4 = env_int64 lookup ''PROXY_MAX_REQUEST_BYTES'' 67108864 1;
          r5 = env_ms lookup ''PROXY_RESP_HEADER_TIMEOUT_MS'' 60000 0;
          r6 = env_ms lookup ''PROXY_UPSTREAM_BYTE_IDLE_MS'' 600000 1;
          r7 = env_ms lookup ''PROXY_KEEPALIVE_MS'' 240000 0;
          r8 = env_ms lookup ''PROXY_WORKFLOW_KEEPALIVE_MS'' 10000 0;
          r9 = env_ms lookup ''PROXY_RESPONSES_KEEPALIVE_MS'' 30000 0;
          r10 = env_ms lookup ''PROXY_RESPONSES_BUFFER_MS'' 240000 0;
          r11 = env_ms lookup ''PROXY_GEMINI_BUFFER_MS'' 240000 0;
          r12 = env_int64 lookup ''PROXY_RESPONSES_REPLAY_DELTA_BYTES'' 65536 0;
          r13 = env_ms lookup ''PROXY_MAX_REQUEST_DURATION_MS'' 1500000 1;
          r14 = env_int64 lookup ''PROXY_SDK_RETRY_CAP'' 100 0;
          r15 = env_int64 lookup ''PROXY_TRANSACTIONAL_LOCAL_RETRIES'' 0 0;
          r16 = env_ms lookup ''PROXY_LOCAL_RETRY_EXTRA_BACKOFF_CAP_MS'' 10000 0;
          errs = e0 @ e1 @ snd r2 @ snd r3 @ snd r4 @ snd r5 @ snd r6 @ snd r7 @
                 snd r8 @ snd r9 @ snd r10 @ snd r11 @ snd r12 @ snd r13 @ snd r14 @ snd r15 @ snd r16
      in if errs \<noteq> [] then Inl errs
         else Inr \<lparr>listenAddr = env_str lookup ''PROXY_LISTEN_ADDR'' ''127.0.0.1:8789'',
                   upstream = fst up,
                   upstreamHost = snd up,
                   maxBufferMem = fst r2,
                   maxResponseBytes = fst r3,
                   maxRequestBytes = fst r4,
                   respHeaderTO = fst r5,
                   upstreamByteIdle = fst r6,
                   keepaliveMs = fst r7,
                   wfKeepaliveMs = fst r8,
                   responsesKeepaliveMs = fst r9,
                   responsesBufferMs = fst r10,
                   geminiBufferMs = fst r11,
                   responsesEarlyCommit = (env_str lookup ''PROXY_RESPONSES_EARLY_COMMIT'' ''1'' \<noteq> ''0''),
                   responsesReplayBytes = fst r12,
                   maxRequestDur = fst r13,
                   sdkRetryCap = fst r14,
                   txLocalRetries = fst r15,
                   localBackoffCap = fst r16,
                   spoolDir = env_str lookup ''PROXY_SPOOL_DIR'' tempDir,
                   requestLogDir = env_str lookup ''PROXY_REQUEST_LOG_DIR'' [],
                   validateJSON = (env_str lookup ''PROXY_VALIDATE_JSON'' ''1'' \<noteq> ''0''),
                   normalizeToolJSON = (env_str lookup ''PROXY_NORMALIZE_TOOL_JSON'' ''1'' \<noteq> ''0''),
                   claudeRefusalFallbacks = fallbacks,
                   verbose = (env_str lookup ''PROXY_VERBOSE'' [] = ''1'')\<rparr>)"

lemma env_int64_ok:
  "snd (env_int64 lookup k d m) = [] \<Longrightarrow> m \<le> d \<Longrightarrow> d \<le> max_int64 \<Longrightarrow>
   m \<le> fst (env_int64 lookup k d m) \<and> fst (env_int64 lookup k d m) \<le> max_int64"
  using parse_int64_range
  by (auto simp: env_int64_def split: option.split sum.split)

text \<open>A duration in milliseconds is never negative and its conversion never wraps.\<close>

lemma env_ms_ok:
  assumes "snd (env_ms lookup k d m) = []" "0 \<le> m" "m \<le> d" "d \<le> max_int64 div millisecond"
  shows "m * millisecond \<le> fst (env_ms lookup k d m) \<and> fst (env_ms lookup k d m) \<le> max_int64"
proof -
  obtain v es where v: "env_int64 lookup k d m = (v, es)" by force
  from assms(1) v have es: "es = []" and le: "v \<le> max_int64 div millisecond"
    and n: "fst (env_ms lookup k d m) = wrap64 (v * millisecond)"
    by (auto simp: env_ms_def Let_def split: if_splits)
  from v es assms have "m \<le> v"
    using env_int64_ok [of lookup k d m] by (auto simp: max_int64_def millisecond_def)
  with n le assms show ?thesis by (auto simp: max_int64_def min_int64_def millisecond_def)
qed

definition valid_config :: "config \<Rightarrow> bool" where
  "valid_config c =
     (0 \<le> maxBufferMem c \<and> 1 \<le> maxResponseBytes c \<and> 1 \<le> maxRequestBytes c \<and>
      0 \<le> responsesReplayBytes c \<and> 0 \<le> sdkRetryCap c \<and> 0 \<le> txLocalRetries c \<and>
      (\<forall>d \<in> {respHeaderTO c, keepaliveMs c, wfKeepaliveMs c, responsesKeepaliveMs c,
             responsesBufferMs c, geminiBufferMs c, localBackoffCap c}. 0 \<le> d \<and> d \<le> max_int64) \<and>
      (\<forall>d \<in> {upstreamByteIdle c, maxRequestDur c}. millisecond \<le> d \<and> d \<le> max_int64) \<and>
      upstreamHost c \<noteq> [] \<and> \<not> has_suffix (upstream c) ''/'' \<and>
      distinct (claudeRefusalFallbacks c) \<and> list_all isClaudeModel (claudeRefusalFallbacks c))"

lemma unique_models_ok:
  "unique_models es us = Inr ms \<Longrightarrow> distinct us \<Longrightarrow> list_all isClaudeModel us \<Longrightarrow>
   distinct ms \<and> list_all isClaudeModel ms"
  by (induction es us rule: unique_models.induct) (auto simp: Let_def split: if_splits)

lemma default_models_claude:
  "isClaudeModel ''claude-fable-latest''" "isClaudeModel ''claude-opus-latest''"
  "isClaudeModel ''claude-sonnet-latest''"
  by (code_simp)+

lemma fallbacks_ok:
  "loadClaudeRefusalFallbacks lookup = Inr ms \<Longrightarrow> distinct ms \<and> list_all isClaudeModel ms"
  by (auto simp: loadClaudeRefusalFallbacks_def Let_def default_models_claude
      dest!: unique_models_ok split: option.splits if_splits)

lemma trim_right_char_suffix: "\<not> has_suffix (trim_right_char d s) [d]"
proof
  assume "has_suffix (trim_right_char d s) [d]"
  then obtain t where "dropWhile (\<lambda>c. c = d) (rev s) = d # t"
    by (auto simp: has_suffix_def has_prefix_iff)
  with hd_dropWhile [of "\<lambda>c. c = d" "rev s"] show False by simp
qed

lemma parseUpstream_ok:
  "parseUpstream url_parse raw = Inr (u, h) \<Longrightarrow> h \<noteq> [] \<and> \<not> has_suffix u ''/''"
  using trim_right_char_suffix [of "CHR ''/''" "trim_space raw"]
  by (auto simp: parseUpstream_def Let_def simp del: trim_right_char.simps
      split: option.splits if_splits)

lemma if_Inl_Inr: "(if P then Inl x else Inr y) = Inr z \<longleftrightarrow> \<not> P \<and> y = z"
  by simp

lemma small_default: "d \<le> 1500000 \<Longrightarrow> d \<le> max_int64 div millisecond"
  by (simp add: max_int64_def millisecond_def)

lemma env_ms_bounds:
  "snd (env_ms lookup k d 0) = [] \<Longrightarrow> 0 \<le> d \<Longrightarrow> d \<le> 1500000 \<Longrightarrow> 0 \<le> fst (env_ms lookup k d 0)"
  "snd (env_ms lookup k d 1) = [] \<Longrightarrow> 1 \<le> d \<Longrightarrow> d \<le> 1500000 \<Longrightarrow>
   millisecond \<le> fst (env_ms lookup k d 1)"
  "snd (env_ms lookup k d m) = [] \<Longrightarrow> 0 \<le> m \<Longrightarrow> m \<le> d \<Longrightarrow> d \<le> 1500000 \<Longrightarrow>
   fst (env_ms lookup k d m) \<le> max_int64"
  using env_ms_ok [of lookup k d 0] env_ms_ok [of lookup k d 1] env_ms_ok [of lookup k d m]
    small_default [of d]
  by auto

lemma env_int64_least:
  "snd (env_int64 lookup k d m) = [] \<Longrightarrow> m \<le> d \<Longrightarrow> d \<le> 134217728 \<Longrightarrow>
   m \<le> fst (env_int64 lookup k d m)"
  using env_int64_ok [of lookup k d m] by (simp add: max_int64_def)

text \<open>C38. A configuration \<open>parseConfig\<close> accepts is within the bounds the rest of the
  program relies on.\<close>

theorem parseConfig_valid:
  assumes "parseConfig url_parse tempDir lookup = Inr c"
  shows "valid_config c"
proof -
  from assms obtain up ms
    where up: "parseUpstream url_parse (env_str lookup ''PROXY_UPSTREAM_URL'' []) = Inr up"
      and ms: "loadClaudeRefusalFallbacks lookup = Inr ms"
    by (auto simp only: parseConfig_def Let_def split: sum.splits if_splits)
  note c = assms [unfolded parseConfig_def Let_def up ms sum.case prod.case,
    unfolded if_Inl_Inr not_not append_is_Nil_conv]
  have h: "snd up \<noteq> []" "\<not> has_suffix (fst up) ''/''"
    using parseUpstream_ok up by (metis prod.collapse)+
  have m: "distinct ms" "list_all isClaudeModel ms" using fallbacks_ok [OF ms] by auto
  show ?thesis
    using c h m
    apply (elim conjE)
    apply hypsubst
    apply (simp only: valid_config_def config.simps ball_simps insert_iff simp_thms)
    apply (intro conjI)
    apply (assumption | (rule env_ms_bounds env_int64_least; (assumption | simp (no_asm))) )+
    done
qed

definition example_lookup :: environment where
  "example_lookup k =
     (if k = ''PROXY_UPSTREAM_URL'' then Some ''https://gw.example/api/''
      else if k = ''PROXY_KEEPALIVE_MS'' then Some ''5000'' else None)"

theorem parseConfig_valid_witness:
  "\<exists>c. parseConfig (\<lambda>u. Some (''https'', ''gw.example'')) ''/tmp'' example_lookup = Inr c \<and>
       upstream c = ''https://gw.example/api'' \<and> keepaliveMs c = 5000000000 \<and> valid_config c"
proof -
  have "case parseConfig (\<lambda>u. Some (''https'', ''gw.example'')) ''/tmp'' example_lookup of
          Inl _ \<Rightarrow> False
        | Inr c \<Rightarrow> upstream c = ''https://gw.example/api'' \<and> keepaliveMs c = 5000000000"
    by code_simp
  then obtain c where c: "parseConfig (\<lambda>u. Some (''https'', ''gw.example'')) ''/tmp'' example_lookup = Inr c"
      "upstream c = ''https://gw.example/api''" "keepaliveMs c = 5000000000"
    by (auto split: sum.splits)
  from c parseConfig_valid [OF c(1)] show ?thesis by blast
qed

end
