(* ===== verification/Spool.thy ===== *)
theory Spool
  imports Sse_Parser Config
begin

text \<open>
  The spool (sse.go: \<open>spool\<close>, \<open>write\<close>, \<open>replayRaw\<close>, \<open>reader\<close>, \<open>discard\<close>): validated bytes
  in memory up to \<open>maxBufferMem\<close>, then in an unlinked temporary file, never more than
  \<open>maxResponseBytes\<close>; and the client connection the stream is written to.

  The operating system is an argument: \<open>spool_io\<close> says which of the file operations of a
  write fail, \<open>spool_rd\<close> which of the operations of a read. The abstract view is
  \<open>spool_contents\<close>; the locale \<open>byte_store\<close> is what the engine relies on.
\<close>

section \<open>The client connection\<close>

text \<open>
  An \<open>http.ResponseWriter\<close>: the headers set so far, the status line once it is sent, the
  body bytes the client received, and the number of body bytes after which the
  connection breaks (\<open>None\<close>: it does not).
\<close>

record downstream =
  ds_header :: header
  ds_status :: "int option"
  ds_body :: bytes
  ds_limit :: "int option"

definition write_error :: go_error where
  "write_error = OtherError ''write: broken pipe'' False False"

definition w_write :: "downstream \<Rightarrow> bytes \<Rightarrow> downstream \<times> go_error option" where
  "w_write d p =
     (case ds_limit d of
        None \<Rightarrow> (d\<lparr>ds_body := ds_body d @ p\<rparr>, None)
      | Some n \<Rightarrow>
          if int (length (ds_body d)) + int (length p) \<le> n then (d\<lparr>ds_body := ds_body d @ p\<rparr>, None)
          else (d\<lparr>ds_body := ds_body d @ take (nat (n - int (length (ds_body d)))) p\<rparr>, Some write_error))"

fun w_write_all :: "downstream \<Rightarrow> bytes list \<Rightarrow> downstream \<times> go_error option" where
  "w_write_all d [] = (d, None)"
| "w_write_all d (p # ps) =
     (case w_write d p of (d', None) \<Rightarrow> w_write_all d' ps | (d', Some e) \<Rightarrow> (d', Some e))"

text \<open>Writes whose error the source ignores.\<close>

fun w_send :: "downstream \<Rightarrow> bytes list \<Rightarrow> downstream" where
  "w_send d [] = d"
| "w_send d (p # ps) = w_send (fst (w_write d p)) ps"

lemma w_write_keeps [simp]:
  "ds_header (fst (w_write d p)) = ds_header d" "ds_status (fst (w_write d p)) = ds_status d"
  "ds_limit (fst (w_write d p)) = ds_limit d"
  by (auto simp: w_write_def split: option.splits)

lemma w_send_keeps [simp]:
  "ds_header (w_send d ps) = ds_header d" "ds_status (w_send d ps) = ds_status d"
  "ds_limit (w_send d ps) = ds_limit d"
  by (induction ps arbitrary: d) auto

lemma w_write_all_Cons:
  "w_write_all d (p # ps) =
     (if snd (w_write d p) = None then w_write_all (fst (w_write d p)) ps else w_write d p)"
  by (cases "w_write d p"; cases "snd (w_write d p)") auto

lemma w_write_all_keeps [simp]:
  "ds_header (fst (w_write_all d ps)) = ds_header d" "ds_status (fst (w_write_all d ps)) = ds_status d"
  "ds_limit (fst (w_write_all d ps)) = ds_limit d"
  by (induction ps arbitrary: d) (simp_all add: w_write_all_Cons del: w_write_all.simps(2))

lemma w_write_ok: "w_write d p = (d', None) \<Longrightarrow> d' = d\<lparr>ds_body := ds_body d @ p\<rparr>"
  by (auto simp: w_write_def split: option.splits if_splits)

lemma w_write_all_ok: "w_write_all d ps = (d', None) \<Longrightarrow> d' = d\<lparr>ds_body := ds_body d @ concat ps\<rparr>"
proof (induction ps arbitrary: d)
  case (Cons p ps)
  from Cons.prems obtain d1 where d1: "w_write d p = (d1, None)" "w_write_all d1 ps = (d', None)"
    by (auto split: prod.splits option.splits)
  from Cons.IH [OF d1(2)] w_write_ok [OF d1(1)] show ?case by simp
qed simp

lemma w_write_unlimited [simp]: "ds_limit d = None \<Longrightarrow> w_write d p = (d\<lparr>ds_body := ds_body d @ p\<rparr>, None)"
  by (simp add: w_write_def)

lemma w_write_all_unlimited:
  "ds_limit d = None \<Longrightarrow> w_write_all d ps = (d\<lparr>ds_body := ds_body d @ concat ps\<rparr>, None)"
  by (induction ps arbitrary: d) auto

section \<open>Operations of the spool\<close>

record spool =
  sp_mem :: bytes
  sp_file :: "bytes option"
  sp_spilled :: bool
  sp_total :: int

record spool_io =
  io_create :: "go_error option"
  io_copy :: "go_error option"
  io_write :: "(nat \<times> go_error) option"

record spool_rd =
  rd_seek :: "go_error option"
  rd_read :: "(nat \<times> go_error) option"

definition newSpool :: spool where
  "newSpool = \<lparr>sp_mem = [], sp_file = None, sp_spilled = False, sp_total = 0\<rparr>"

definition spool_contents :: "spool \<Rightarrow> bytes" where
  "spool_contents s = (if sp_spilled s then (case sp_file s of Some b \<Rightarrow> b | None \<Rightarrow> []) else sp_mem s)"

text \<open>Moving the memory into a new temporary file.\<close>

definition spool_spill :: "spool_io \<Rightarrow> spool \<Rightarrow> go_error + spool" where
  "spool_spill io s =
     (case io_create io of
        Some e \<Rightarrow> Inl e
      | None \<Rightarrow>
          (case io_copy io of
             Some e \<Rightarrow> Inl e
           | None \<Rightarrow> Inr (s\<lparr>sp_file := Some (sp_mem s), sp_spilled := True, sp_mem := []\<rparr>)))"

definition spool_write :: "config \<Rightarrow> spool_io \<Rightarrow> spool \<Rightarrow> bytes \<Rightarrow> spool \<times> go_error option" where
  "spool_write cfg io s0 p =
     (let s = s0\<lparr>sp_total := sp_total s0 + int (length p)\<rparr>
      in if sp_total s > maxResponseBytes cfg then (s, Some errTooLarge)
         else if \<not> sp_spilled s \<and> int (length (sp_mem s)) + int (length p) \<le> maxBufferMem cfg
         then (s\<lparr>sp_mem := sp_mem s @ p\<rparr>, None)
         else case (if sp_spilled s then Inr s else spool_spill io s) of
                Inl e \<Rightarrow> (s, Some e)
              | Inr t \<Rightarrow>
                  (case io_write io of
                     None \<Rightarrow> (t\<lparr>sp_file := map_option (\<lambda>f. f @ p) (sp_file t)\<rparr>, None)
                   | Some (n, e) \<Rightarrow> (t\<lparr>sp_file := map_option (\<lambda>f. f @ take n p) (sp_file t)\<rparr>, Some e)))"

text \<open>
  \<open>reader\<close>: the bytes that can be read and the error that ends the reading, if it is not
  the end of the data; \<open>Inl\<close> when the reader cannot be opened.
\<close>

definition spool_reader :: "spool_rd \<Rightarrow> spool \<Rightarrow> go_error + bytes \<times> go_error option" where
  "spool_reader rd s =
     (if \<not> sp_spilled s then Inr (sp_mem s, None)
      else case rd_seek rd of
             Some e \<Rightarrow> Inl e
           | None \<Rightarrow>
               (case rd_read rd of
                  None \<Rightarrow> Inr (spool_contents s, None)
                | Some (n, e) \<Rightarrow> Inr (take n (spool_contents s), Some e)))"

definition replayRaw :: "spool_rd \<Rightarrow> spool \<Rightarrow> downstream \<Rightarrow> downstream \<times> go_error option" where
  "replayRaw rd s w =
     (case spool_reader rd s of
        Inl e \<Rightarrow> (w, Some e)
      | Inr (b, re) \<Rightarrow>
          (case w_write w b of
             (w', Some e) \<Rightarrow> (w', Some e)
           | (w', None) \<Rightarrow> (w', re)))"

definition discard :: "spool \<Rightarrow> spool" where
  "discard s = s\<lparr>sp_file := None, sp_mem := []\<rparr>"

section \<open>What a store of bytes promises\<close>

fun store_all :: "('s \<Rightarrow> bytes \<Rightarrow> 's \<times> go_error option) \<Rightarrow> 's \<Rightarrow> bytes list \<Rightarrow> 's \<times> go_error option" where
  "store_all wr s [] = (s, None)"
| "store_all wr s (p # ps) =
     (case wr s p of (s', None) \<Rightarrow> store_all wr s' ps | (s', Some e) \<Rightarrow> (s', Some e))"

locale byte_store =
  fixes wr :: "'s \<Rightarrow> bytes \<Rightarrow> 's \<times> go_error option"
    and contents :: "'s \<Rightarrow> bytes"
    and inv :: "'s \<Rightarrow> bool"
    and limit :: int
  assumes wr_ok: "inv s \<Longrightarrow> wr s p = (s', None) \<Longrightarrow> inv s' \<and> contents s' = contents s @ p"
    and bounded: "inv s \<Longrightarrow> int (length (contents s)) \<le> limit"
begin

lemma store_all_contents:
  "inv s \<Longrightarrow> store_all wr s ps = (s', None) \<Longrightarrow> inv s' \<and> contents s' = contents s @ concat ps"
  by (induction ps arbitrary: s) (auto dest: wr_ok split: prod.splits option.splits)

lemma store_all_bounded:
  "inv s \<Longrightarrow> store_all wr s ps = (s', None) \<Longrightarrow> int (length (contents s @ concat ps)) \<le> limit"
  using store_all_contents bounded by metis

end

text \<open>
  The invariant of the spool while no write has failed: the total is the length of the
  contents and within the cap, and memory holds no more than its bound.
\<close>

definition spool_inv :: "config \<Rightarrow> spool \<Rightarrow> bool" where
  "spool_inv cfg s =
     (sp_total s = int (length (spool_contents s)) \<and> sp_total s \<le> maxResponseBytes cfg \<and>
      (if sp_spilled s then sp_file s \<noteq> None \<and> sp_mem s = [] \<and> maxBufferMem cfg < sp_total s
       else int (length (sp_mem s)) \<le> maxBufferMem cfg))"

lemma spool_inv_new: "valid_config cfg \<Longrightarrow> spool_inv cfg newSpool"
  by (simp add: spool_inv_def newSpool_def spool_contents_def valid_config_def)

lemma spool_write_ok:
  assumes "spool_inv cfg s" "spool_write cfg io s p = (s', None)"
  shows "spool_inv cfg s' \<and> spool_contents s' = spool_contents s @ p"
  using assms
  by (cases "sp_spilled s"; cases "sp_file s")
    (auto simp: spool_inv_def spool_write_def spool_spill_def spool_contents_def Let_def
      split: option.splits if_splits prod.splits sum.splits)

interpretation sp: byte_store "\<lambda>s p. spool_write cfg (io (sp_total s)) s p" spool_contents
    "spool_inv cfg" "maxResponseBytes cfg" for cfg :: config and io :: "int \<Rightarrow> spool_io"
proof
  show "spool_inv cfg s' \<and> spool_contents s' = spool_contents s @ p"
    if "spool_inv cfg s" "spool_write cfg (io (sp_total s)) s p = (s', None)" for s p s'
    using spool_write_ok [OF that] .
  show "int (length (spool_contents s)) \<le> maxResponseBytes cfg" if "spool_inv cfg s" for s
    using that by (simp add: spool_inv_def)
qed

section \<open>Properties\<close>

lemma replayRaw_contents:
  assumes "replayRaw rd s w = (w', None)"
  shows "w' = w\<lparr>ds_body := ds_body w @ spool_contents s\<rparr>"
  using assms
  by (auto simp: replayRaw_def spool_reader_def spool_contents_def dest!: w_write_ok
      split: sum.splits prod.splits option.splits if_splits)

text \<open>
  C18. Whether the bytes stayed in memory or spilled to disk, a raw replay that reports no
  error sends the client exactly what was written to the spool, in order; the spool
  never held more than the response cap.
\<close>

theorem spool_replays_writes:
  assumes "valid_config cfg"
    and "store_all (\<lambda>s p. spool_write cfg (io (sp_total s)) s p) newSpool ps = (s, None)"
    and "replayRaw rd s w = (w', None)"
  shows "ds_body w' = ds_body w @ concat ps \<and> int (length (concat ps)) \<le> maxResponseBytes cfg \<and>
    (sp_spilled s \<longleftrightarrow> int (length (concat ps)) > maxBufferMem cfg)"
proof -
  have i: "spool_inv cfg s \<and> spool_contents s = [] @ concat ps"
    using sp.store_all_contents [OF spool_inv_new [OF assms(1)] assms(2)]
    by (simp add: newSpool_def spool_contents_def)
  with replayRaw_contents [OF assms(3)] show ?thesis
    by (auto simp: spool_inv_def spool_contents_def split: if_splits)
qed

definition io_fine :: spool_io where
  "io_fine = \<lparr>io_create = None, io_copy = None, io_write = None\<rparr>"

definition rd_fine :: spool_rd where
  "rd_fine = \<lparr>rd_seek = None, rd_read = None\<rparr>"

definition w_new :: downstream where
  "w_new = \<lparr>ds_header = Map.empty, ds_status = None, ds_body = [], ds_limit = None\<rparr>"

definition example_config :: config where
  "example_config =
     \<lparr>listenAddr = [], upstream = ''http://u'', upstreamHost = ''u'', maxBufferMem = 4,
      maxResponseBytes = 4000, maxRequestBytes = 1000, respHeaderTO = 0, upstreamByteIdle = 1000000,
      keepaliveMs = 1000000, wfKeepaliveMs = 1000000, responsesKeepaliveMs = 1000000,
      responsesBufferMs = 1000000, geminiBufferMs = 1000000, responsesEarlyCommit = True,
      responsesReplayBytes = 100, maxRequestDur = 60000000000, sdkRetryCap = 100, txLocalRetries = 2,
      localBackoffCap = 10000000000, spoolDir = [], requestLogDir = [], validateJSON = True,
      normalizeToolJSON = True, claudeRefusalFallbacks = [''claude-b''], verbose = False\<rparr>"

lemma example_config_valid: "valid_config example_config"
  by (simp add: example_config_def valid_config_def max_int64_def millisecond_def has_suffix_def
      isClaudeModel_def lower_char_def)

theorem spool_replays_writes_witness:
  "\<exists>s w'. store_all (\<lambda>s p. spool_write example_config io_fine s p) newSpool [''abc'', ''def''] = (s, None) \<and>
     replayRaw rd_fine s w_new = (w', None) \<and> ds_body w' = ''abcdef'' \<and> sp_spilled s"
proof -
  have s: "store_all (\<lambda>s p. spool_write example_config ((\<lambda>t. io_fine) (sp_total s)) s p) newSpool [''abc'', ''def'']
      = (\<lparr>sp_mem = [], sp_file = Some ''abcdef'', sp_spilled = True, sp_total = 6\<rparr>, None)"
    by (simp add: spool_write_def spool_spill_def newSpool_def io_fine_def example_config_def Let_def)
  have r: "replayRaw rd_fine \<lparr>sp_mem = [], sp_file = Some ''abcdef'', sp_spilled = True, sp_total = 6\<rparr> w_new
      = (w_new\<lparr>ds_body := ''abcdef''\<rparr>, None)"
    by (simp add: replayRaw_def spool_reader_def rd_fine_def w_new_def spool_contents_def w_write_def)
  from spool_replays_writes [OF example_config_valid s r] s r show ?thesis
    by (auto simp: w_new_def)
qed

end
