(* ===== verification/Blocks.thy ===== *)
theory Blocks
  imports Prelude "HOL-Library.AList"
begin

text \<open>
  The maps from a content-block index to the state of an open tool block that the stream
  checkers keep (Go's \<open>map[int]*toolJSONBlock\<close> and \<open>map[int]*toolReplayBlock\<close>), and the
  byte accounts kept beside them. The locale \<open>weighted_map\<close> is the interface: lookup,
  update and removal, and what each does to the total weight of the entries.
\<close>

type_synonym 'v blocks = "(int \<times> 'v) list"

definition blk_get :: "'v blocks \<Rightarrow> int \<Rightarrow> 'v option" where
  "blk_get m k = map_of m k"

definition blk_put :: "int \<Rightarrow> 'v \<Rightarrow> 'v blocks \<Rightarrow> 'v blocks" where
  "blk_put k v m = AList.update k v m"

definition blk_del :: "int \<Rightarrow> 'v blocks \<Rightarrow> 'v blocks" where
  "blk_del k m = AList.delete k m"

definition blk_total :: "('v \<Rightarrow> int) \<Rightarrow> 'v blocks \<Rightarrow> int" where
  "blk_total w m = sum_list (map (\<lambda>(k, v). w v) m)"

definition blk_inv :: "'v blocks \<Rightarrow> bool" where
  "blk_inv m = distinct (map fst m)"

definition opt_weight :: "('v \<Rightarrow> int) \<Rightarrow> 'v option \<Rightarrow> int" where
  "opt_weight w x = (case x of None \<Rightarrow> 0 | Some v \<Rightarrow> w v)"

lemma opt_weight_simps [simp]: "opt_weight w None = 0" "opt_weight w (Some v) = w v"
  by (simp_all add: opt_weight_def)

locale weighted_map =
  fixes get :: "'m \<Rightarrow> int \<Rightarrow> 'v option"
    and put :: "int \<Rightarrow> 'v \<Rightarrow> 'm \<Rightarrow> 'm"
    and del :: "int \<Rightarrow> 'm \<Rightarrow> 'm"
    and total :: "('v \<Rightarrow> int) \<Rightarrow> 'm \<Rightarrow> int"
    and inv :: "'m \<Rightarrow> bool"
  assumes get_put: "get (put k v m) j = (if j = k then Some v else get m j)"
    and get_del: "inv m \<Longrightarrow> get (del k m) j = (if j = k then None else get m j)"
    and inv_put: "inv m \<Longrightarrow> inv (put k v m)"
    and inv_del: "inv m \<Longrightarrow> inv (del k m)"
    and total_put: "inv m \<Longrightarrow> total w (put k v m) = total w m - opt_weight w (get m k) + w v"
    and total_del: "inv m \<Longrightarrow> total w (del k m) = total w m - opt_weight w (get m k)"
    and total_nonneg: "(\<And>v. 0 \<le> w v) \<Longrightarrow> 0 \<le> total w m"
begin

text \<open>An entry weighs no more than the whole map.\<close>

lemma weight_le_total: "inv m \<Longrightarrow> (\<And>v. 0 \<le> w v) \<Longrightarrow> opt_weight w (get m k) \<le> total w m"
  using total_del [of m w k] total_nonneg [of w "del k m"] by simp

text \<open>Growing one entry by \<open>d\<close> grows the account by \<open>d\<close>.\<close>

lemma grow:
  "inv m \<Longrightarrow> w v = opt_weight w (get m k) + d \<Longrightarrow> total w (put k v m) = total w m + d"
  by (simp add: total_put)

lemma replace_empty:
  "inv m \<Longrightarrow> w v = 0 \<Longrightarrow> total w (put k v m) = total w m - opt_weight w (get m k)"
  by (simp add: total_put)

end

lemma blk_total_update:
  "distinct (map fst m) \<Longrightarrow>
   blk_total w (AList.update k v m) = blk_total w m - opt_weight w (map_of m k) + w v"
  by (induction m) (auto simp: blk_total_def)

lemma blk_total_delete:
  "distinct (map fst m) \<Longrightarrow> blk_total w (AList.delete k m) = blk_total w m - opt_weight w (map_of m k)"
proof (induction m)
  case (Cons x m)
  have "k \<notin> fst ` set m \<Longrightarrow> AList.delete k m = m" by (rule delete_id)
  with Cons show ?case
    by (cases x) (auto simp: blk_total_def AList.delete_eq image_iff)
qed (simp add: blk_total_def AList.delete_eq)

lemma blk_total_nonneg: "(\<And>v. 0 \<le> w v) \<Longrightarrow> 0 \<le> blk_total w m"
  by (induction m) (auto simp: blk_total_def)

interpretation bm: weighted_map blk_get blk_put blk_del blk_total blk_inv
proof
  show "blk_get (blk_put k v m) j = (if j = k then Some v else blk_get m j)" for k :: int and v :: 'v and m j
    by (simp add: blk_get_def blk_put_def update_conv')
  show "blk_get (blk_del k m) j = (if j = k then None else blk_get m j)" if "blk_inv m" for k and m :: "'v blocks" and j
    by (simp add: blk_get_def blk_del_def delete_conv')
  show "blk_inv (blk_put k v m)" if "blk_inv m" for k and v :: 'v and m
    using that by (simp add: blk_inv_def blk_put_def distinct_update)
  show "blk_inv (blk_del k m)" if "blk_inv m" for k and m :: "'v blocks"
    using that by (simp add: blk_inv_def blk_del_def distinct_delete)
  show "blk_total w (blk_put k v m) = blk_total w m - opt_weight w (blk_get m k) + w v"
    if "blk_inv m" for w k and v :: 'v and m
    using that by (simp add: blk_inv_def blk_put_def blk_get_def blk_total_update)
  show "blk_total w (blk_del k m) = blk_total w m - opt_weight w (blk_get m k)"
    if "blk_inv m" for w k and m :: "'v blocks"
    using that by (simp add: blk_inv_def blk_del_def blk_get_def blk_total_delete)
  show "0 \<le> blk_total w m" if "\<And>v. 0 \<le> w v" for w and m :: "'v blocks"
    using that by (rule blk_total_nonneg)
qed

lemma blk_empty [simp]: "blk_inv []" "blk_get [] k = None" "blk_total w [] = 0"
  by (simp_all add: blk_inv_def blk_get_def blk_total_def)

lemmas blk_simps = bm.get_put bm.get_del bm.inv_put bm.inv_del bm.total_put bm.total_del

end
