(* ===== verification/Json_Wf.thy ===== *)
theory Json_Wf
  imports Json_Encode
begin

text \<open>
  Every value the scanner returns is well formed (its literals are literals of JSON and
  it is nested at most \<open>max_depth\<close> deep), by an invariant of the scanner's steps. So
  what the proxy re-encodes from a parsed body parses again.
\<close>

section \<open>Literals\<close>

lemma str_ok_append: "str_ok s \<Longrightarrow> str_ok t \<Longrightarrow> str_ok (s @ t)"
proof (induction s rule: str_ok.induct)
  case (2 c s)
  show ?case
  proof (cases "c = CHR 0x5C")
    case esc: True
    with "2.prems" obtain e u where s: "s = e # u" by (auto split: list.splits)
    show ?thesis
    proof (cases "simple_escape e")
      case True
      with "2.prems" "2.IH"(1) [OF esc s True] s esc show ?thesis by simp
    next
      case False
      with "2.prems" s esc obtain h1 h2 h3 h4 u' where u: "e = CHR ''u''" "u = h1 # h2 # h3 # h4 # u'"
          "list_all hex_digit [h1, h2, h3, h4]" "str_ok u'"
        by (auto split: list.splits)
      with "2.IH"(2) [OF esc s False u(2)] "2.prems" False s esc show ?thesis by simp
    qed
  next
    case False
    with "2.prems" "2.IH"(3) [OF False] show ?thesis by simp
  qed
qed simp

lemma str_ok_plain: "c \<noteq> CHR 0x5C \<Longrightarrow> c \<noteq> CHR 0x22 \<Longrightarrow> 0x20 \<le> byte_val c \<Longrightarrow> str_ok [c]"
  by simp

lemma str_ok_high: "list_all (\<lambda>c. 0x80 \<le> byte_val c) s \<Longrightarrow> str_ok s"
proof (induction s)
  case (Cons c s)
  then have "c \<noteq> CHR 0x5C" "c \<noteq> CHR 0x22" by auto
  with Cons show ?case by simp
qed simp

lemma str_ok_escape_u:
  assumes "0 \<le> n" "n < 65536"
  shows "str_ok (escape_u n)"
proof -
  obtain a b c d where e: "escape_u n = [CHR 0x5C, CHR ''u'', a, b, c, d]" and "hex4_val a b c d = n"
      and h: "list_all hex_digit [a, b, c, d]"
    by (rule hex4_escape [OF assms])
  show ?thesis unfolding e using h by (simp add: simple_escape_def)
qed

lemma escape_ascii_cases:
  "escape_ascii html c = [c] \<and> c \<noteq> CHR 0x5C \<and> c \<noteq> CHR 0x22 \<and> 0x20 \<le> byte_val c
   \<or> (\<exists>e. escape_ascii html c = [CHR 0x5C, e] \<and> simple_escape e)
   \<or> escape_ascii html c = escape_u (byte_val c)"
  by (simp add: escape_ascii_def simple_escape_def not_less)

lemma str_ok_escape_ascii: "byte_val c < 0x80 \<Longrightarrow> str_ok (escape_ascii html c)"
  using escape_ascii_cases [of html c] str_ok_escape_u [of "byte_val c"]
  by (elim disjE exE conjE) simp_all

lemma rune_bytes_high:
  assumes "rune_len (c # d # u) = length (c # d # u)"
  shows "list_all (\<lambda>x. 0x80 \<le> byte_val x) (c # d # u)"
proof -
  have t: "tail_ok (byte_val c) (d # u)" and w: "rune_width (byte_val c) = Suc (Suc (length u))"
    using assms by (auto simp: rune_len.simps split: if_splits)
  from w have "0x80 \<le> byte_val c" by (auto simp: rune_width_def split: if_splits)
  moreover have "0x80 \<le> byte_val d"
    using t by (auto simp: tail_ok_def second_ok_def cont_byte_def byte_in_def split: if_splits)
  moreover have "list_all (\<lambda>x. 0x80 \<le> byte_val x) u"
    using t by (auto simp: tail_ok_def cont_byte_def byte_in_def list_all_iff)
  ultimately show ?thesis by simp
qed

lemma str_ok_quote_rune:
  assumes "rune_len r = length r" "r \<noteq> []"
  shows "str_ok (quote_rune html r)"
proof (cases r)
  case (Cons c u)
  show ?thesis
  proof (cases u)
    case Nil
    with assms Cons have "byte_val c < 0x80"
      by (auto simp: rune_len.simps rune_width_def tail_ok_def split: if_splits)
    with Nil Cons show ?thesis by (simp add: quote_rune_def str_ok_escape_ascii)
  next
    case (Cons d v)
    with rune_bytes_high [of c d v] assms \<open>r = c # u\<close> show ?thesis
      by (auto simp: quote_rune_def str_ok_escape_u str_ok_high simp del: str_ok.simps)
  qed
qed (use assms in simp)

lemma str_ok_quote: "str_ok (quote html s)"
proof (induction s rule: utf8_fix.induct)
  case (2 c s)
  show ?case
  proof (cases "rune_len (c # s) = 0")
    case True
    with "2.IH"(1) [OF True] show ?thesis
      by (simp add: str_ok_append str_ok_escape_u)
  next
    case False
    then have "take (rune_len (c # s)) (c # s) \<noteq> []" by simp
    from str_ok_quote_rune [OF rune_take_full [OF False] this] False "2.IH"(2) [OF False]
    show ?thesis by (simp add: str_ok_append)
  qed
qed simp

lemma num_steps_snoc: "num_steps (s @ [c]) n = (case num_steps s n of None \<Rightarrow> None | Some n' \<Rightarrow> num_next n' c)"
  by (induction s arbitrary: n) (auto split: option.splits)

lemma wf_json_mono: "wf_json d v \<Longrightarrow> d \<le> e \<Longrightarrow> wf_json e v"
proof (induction d v arbitrary: e rule: wf_json.induct)
  case (4 d ms)
  then show ?case by (fastforce simp del: One_nat_def)
qed auto

section \<open>The scanner keeps its values well formed\<close>

fun frame_ok :: "nat \<Rightarrow> frame \<Rightarrow> bool" where
  "frame_ok d (FArr vs) = (\<forall>v \<in> set vs. wf_json d v)"
| "frame_ok d (FObj ms k) = (str_ok k \<and> (\<forall>(k, v) \<in> set ms. str_ok k \<and> wf_json d v))"

primrec stack_ok :: "frame list \<Rightarrow> bool" where
  "stack_ok [] = True"
| "stack_ok (f # st) =
     (frame_ok (max_depth - Suc (length st)) f \<and> length st < max_depth \<and> stack_ok st)"

fun mode_ok :: "jmode \<Rightarrow> bool" where
  "mode_ok (InString key b) = str_ok (rev b)"
| "mode_ok (InEsc key b) = (\<exists>b'. b = CHR 0x5C # b' \<and> str_ok (rev b'))"
| "mode_ok (InHex key n b) =
     (0 < n \<and> (\<forall>hs. length hs = n \<longrightarrow> list_all hex_digit hs \<longrightarrow> str_ok (rev b @ hs)))"
| "mode_ok (InNum n b) =
     (\<exists>c s n0. rev b = c # s \<and> num_start c = Some n0 \<and> num_steps s n0 = Some n)"
| "mode_ok (InLit xs v) = (\<forall>d. wf_json d v)"
| "mode_ok m = True"

fun scan_ok :: "jstate \<Rightarrow> bool" where
  "scan_ok (m, st, r) = (mode_ok m \<and> stack_ok st \<and> (\<forall>v. r = Some v \<longrightarrow> wf_json max_depth v))"

lemma deliver_ok:
  assumes "stack_ok st" "wf_json (max_depth - length st) v"
  shows "scan_ok (deliver v st)"
  using assms by (cases "(v, st)" rule: deliver.cases) auto

lemma begin_value_ok:
  assumes "stack_ok st" "begin_value c st = Some x"
  shows "scan_ok x"
proof -
  have num: "num_start c = Some n \<Longrightarrow> mode_ok (InNum n [c])" for n by simp
  have "num_start c = (if c = CHR ''-'' then Some Neg else if c = CHR ''0'' then Some Zero
                  else if is_digit c then Some Digits else None)"
    by (simp add: num_start_def)
  then show ?thesis using assms num
    by (auto simp: begin_value_def push_depth split: if_splits simp del: mode_ok.simps(4))
qed

lemma end_value_ok:
  assumes "stack_ok st" "\<forall>v. r = Some v \<longrightarrow> wf_json max_depth v" "end_value c st r = Some x"
  shows "scan_ok x"
proof (cases "(c, st, r)" rule: end_value.cases)
  case (2 c' vs st' r')
  have "wf_json (max_depth - length st') (JArr (rev vs))"
    using 2 assms(1) by (auto intro: wf_json_mono)
  with 2 assms show ?thesis
    by (auto split: if_splits intro: deliver_ok simp del: wf_json.simps)
next
  case (3 c' ms k st' r')
  have "wf_json (max_depth - length st') (JObj (rev ms))"
    using 3 assms(1) by (auto intro: wf_json_mono)
  with 3 assms show ?thesis
    by (auto split: if_splits intro: deliver_ok simp del: wf_json.simps)
qed (use assms in \<open>auto split: if_splits\<close>)

lemma end_string_ok:
  assumes "stack_ok st" "str_ok b" "end_string key b st = Some x"
  shows "scan_ok x"
  using assms by (cases "(key, b, st)" rule: end_string.cases) (auto intro: deliver_ok)

lemma str_ok_escape: "str_ok s \<Longrightarrow> simple_escape c \<Longrightarrow> str_ok (s @ [CHR 0x5C, c])"
  by (rule str_ok_append) (auto simp: simple_escape_def)

lemma str_ok_hex:
  assumes "str_ok s" "length hs = 4" "list_all hex_digit hs"
  shows "str_ok (s @ CHR 0x5C # CHR ''u'' # hs)"
proof -
  from assms(2) obtain a b c d where "hs = [a, b, c, d]"
    by (auto simp: length_Suc_conv numeral_eq_Suc)
  with assms show ?thesis by (intro str_ok_append) (auto simp: simple_escape_def)
qed

theorem jstep_ok:
  assumes "scan_ok x" "jstep x c = Some y"
  shows "scan_ok y"
proof (cases "(x, c)" rule: jstep.cases)
  case (7 key b st r c')
  with assms show ?thesis
    by (auto split: if_splits dest: end_string_ok intro: str_ok_append simp del: str_ok.simps(2))
       (auto intro: str_ok_append)
next
  case (8 key b st r c')
  with assms obtain b' where b: "b = CHR 0x5C # b'" "str_ok (rev b')" by auto
  with 8 assms show ?thesis
    using str_ok_escape [of "rev b'" c] str_ok_hex [of "rev b'"] by (auto split: if_splits)
next
  case (9 key n b st r c')
  then have h: "hex_digit c" using assms(2) by (auto split: if_splits)
  have "str_ok (rev b @ c # hs)" if "Suc (length hs) = n" "list_all hex_digit hs" for hs
    using 9 assms(1) that h by (auto dest: spec [of _ "c # hs"])
  with 9 assms show ?thesis
    by (auto split: if_splits)
next
  case (10 n b st r c')
  then obtain a s n0 where b: "rev b = a # s" "num_start a = Some n0" "num_steps s n0 = Some n"
    using assms(1) by auto
  show ?thesis
  proof (cases "num_next n c")
    case None
    then have "num_ok (rev b)" using b 10 assms(2) by (auto split: if_splits)
    then have "scan_ok (deliver (JNum (rev b)) st)"
      using 10 assms(1) by (auto intro: deliver_ok)
    with None 10 assms(2) show ?thesis
      by (auto split: if_splits prod.splits intro: end_value_ok)
  next
    case (Some n')
    have "num_steps (s @ [c]) n0 = Some n'" using b Some by (simp add: num_steps_snoc)
    with b Some 10 assms show ?thesis by auto
  qed
next
  case (12 a xs v st r c')
  with assms show ?thesis by (auto split: if_splits intro: deliver_ok)
qed (use assms in \<open>auto split: if_splits intro: begin_value_ok end_value_ok\<close>)

lemma jrun_ok: "scan_ok x \<Longrightarrow> jrun s x = Some y \<Longrightarrow> scan_ok y"
  by (induction s arbitrary: x) (auto split: option.splits dest: jstep_ok)

theorem json_parse_wf: "json_parse s = Some v \<Longrightarrow> wf_json max_depth v"
proof -
  assume p: "json_parse s = Some v"
  then obtain x where x: "jrun (s @ [CHR 0x20]) (BeginValue, [], None) = Some x" "json_result (Some x) = Some v"
    by (auto simp: json_parse_def json_result_def split: option.splits)
  have "scan_ok x" using jrun_ok [OF _ x(1)] by simp
  with x(2) show ?thesis
    by (cases x) (auto simp: json_result_def split: jmode.splits list.splits)
qed

text \<open>A parsed value is the value its own rendering parses to.\<close>

corollary json_parse_render_parsed: "json_parse s = Some v \<Longrightarrow> json_parse (render v) = Some v"
  using json_parse_wf json_parse_render by blast

end
