(* ===== verification/Classify.thy ===== *)
theory Classify
  imports Failure Json_Decode
begin

text \<open>
  The Anthropic-shaped error classifier (classify.go): which HTTP errors and in-band
  errors a re-send can fix, the retry hints that override it, and the delays a client
  is told to wait. Two services of the environment are parameters: the time until an
  HTTP date (parser and clock) and the rendering of a redirect target without secrets.
\<close>

section \<open>The environment\<close>

text \<open>
  \<open>env_until v\<close>: \<open>time.Until\<close> of the HTTP date \<open>v\<close> in nanoseconds, which Go
  saturates to the 64-bit range, \<open>None\<close> when \<open>http.ParseTime\<close> rejects it.
  \<open>env_url loc\<close>: the URL \<open>loc\<close> printed without query, fragment and user, \<open>None\<close> when
  \<open>url.Parse\<close> rejects it.
\<close>

record env =
  env_until :: "bytes \<Rightarrow> int option"
  env_url :: "bytes \<Rightarrow> bytes option"

section \<open>Error bodies\<close>

datatype errorVerdict = verdictUnknown | verdictTransient | verdictPermanent

text \<open>A rule reads type, code and message and the lowercased body of a non-JSON reply.\<close>

type_synonym errorBodyRule = "bytes \<Rightarrow> bytes \<Rightarrow> bytes \<Rightarrow> bytes \<Rightarrow> errorVerdict"

definition requestShapeSigs :: "bytes list" where
  "requestShapeSigs =
     [''context_length'', ''context length'', ''maximum context'', ''prompt is too long'',
      ''tool_use'', ''tool_result'', ''tool use concurrency'',
      ''missing tool result'', ''duplicate tool_use'', ''unexpected tool_use_id'',
      ''thinking blocks'', ''thinking.budget_tokens'', ''max_tokens must be'',
      ''extra inputs are not permitted'', ''unexpected value'',
      ''anthropic-beta'', ''context_management'', ''input_examples'', ''image dimensions'',
      ''model_not_found'']"

definition anyContains :: "bytes \<Rightarrow> bytes list \<Rightarrow> bool" where
  "anyContains s subs = list_ex (contains s) subs"

definition anthropicErrorVerdict :: errorBodyRule where
  "anthropicErrorVerdict atype code msg bodyLower =
     (if anyContains (to_lower (atype @ '' '' @ code @ '' '' @ msg) @ bodyLower) requestShapeSigs
      then verdictPermanent
      else if atype \<in> {''rate_limit_error'', ''overloaded_error'', ''timeout_error''}
      then verdictTransient
      else verdictUnknown)"

text \<open>\<open>struct { Error struct { Type, Code, Message string } }\<close>, shared by every reader.\<close>

record apiError =
  ae_type :: bytes
  ae_code :: bytes
  ae_message :: bytes

definition apiError0 :: apiError where
  "apiError0 = \<lparr>ae_type = [], ae_code = [], ae_message = []\<rparr>"

definition dec_apiError :: "apiError decoder" where
  "dec_apiError = dec_struct
     [(''error'', dec_struct
         [(''Type'', dec_field ae_type ae_type_update dec_string),
          (''Code'', dec_field ae_code ae_code_update dec_string),
          (''Message'', dec_field ae_message ae_message_update dec_string)])]"

definition parse_apiError :: "bytes \<Rightarrow> apiError" where
  "parse_apiError b = fst (unmarshal dec_apiError b apiError0)"

section \<open>Retry hints and delays\<close>

definition hint_value :: "bytes \<Rightarrow> bool option" where
  "hint_value v = (if to_lower v = ''true'' then Some True
                   else if to_lower v = ''false'' then Some False else None)"

text \<open>The first recognised authoritative verdict: its header and its value.\<close>

definition httpRetryHint :: "header \<Rightarrow> (bytes \<times> bool) option" where
  "httpRetryHint h =
     (case hint_value (header_get h ''x-gateway-retryable'') of
        Some r \<Rightarrow> Some (''x-gateway-retryable'', r)
      | None \<Rightarrow>
          (case hint_value (header_get h ''x-should-retry'') of
             Some r \<Rightarrow> Some (''x-should-retry'', r)
           | None \<Rightarrow> None))"

definition atoiSafe :: "bytes \<Rightarrow> int" where
  "atoiSafe s = atoi (trim_space s)"

definition second_ns :: int where
  "second_ns = 1000000000"

definition retryAfterSeconds :: "env \<Rightarrow> bytes \<Rightarrow> int" where
  "retryAfterSeconds E v0 =
     (let v = trim_space v0 in
      if v = [] then 0
      else let n = atoiSafe v in
        if 0 < n then n
        else (case env_until E v of
                None \<Rightarrow> 0
              | Some d \<Rightarrow> if d \<le> 0 then 0
                         else go_div (wrap64 (wrap64 (d + second_ns) - 1)) second_ns))"

definition mapTransientStatus :: "int \<Rightarrow> int" where
  "mapTransientStatus st = (if 400 \<le> st \<and> st < 500 \<and> st \<noteq> 429 then 502 else st)"

definition typeFor5xx :: "int \<Rightarrow> bytes" where
  "typeFor5xx st = (if st = 529 then ''overloaded_error'' else if st = 504 then ''timeout_error''
                    else ''api_error'')"

text \<open>The backoff loop of \<open>retryAfterFor\<close>; the jitter of 0 or 1 seconds is an argument.\<close>

fun backoff_loop :: "nat \<Rightarrow> int \<Rightarrow> int" where
  "backoff_loop 0 secs = secs"
| "backoff_loop (Suc n) secs = (if secs < 30 then backoff_loop n (secs * 2) else secs)"

definition retryAfterFor :: "int \<Rightarrow> int \<Rightarrow> int" where
  "retryAfterFor jitter retryCount =
     (let n = (if retryCount < 0 then 0 else retryCount);
          secs = backoff_loop (nat n) 1
      in (if 30 < secs then 30 else secs) + jitter)"

section \<open>HTTP errors\<close>

definition redirectTarget :: "env \<Rightarrow> bytes \<Rightarrow> bytes" where
  "redirectTarget E location =
     (case env_url E location of
        None \<Rightarrow> ''an unparseable location''
      | Some u \<Rightarrow> if location = [] then ''an unparseable location'' else u)"

definition failRedirect :: "env \<Rightarrow> int \<Rightarrow> header \<Rightarrow> failure" where
  "failRedirect E st h = failure0\<lparr>f_status := 502, f_atype := ''api_error'',
     f_code := ''upstream_redirect_'' @ itoa st,
     f_message := ''upstream redirected to '' @ redirectTarget E (header_get h ''Location'')
       @ ''; fix PROXY_UPSTREAM_URL (redirects are not followed)''\<rparr>"

text \<open>The answer an authoritative header dictates.\<close>

definition hintFailure :: "bytes \<Rightarrow> bool \<Rightarrow> int \<Rightarrow> bytes \<Rightarrow> bytes \<Rightarrow> int \<Rightarrow> failure" where
  "hintFailure source retry st atype msg ra =
     (if source = ''x-gateway-retryable'' then
        (if retry then failure0\<lparr>f_transient := True, f_status := mapTransientStatus st,
             f_atype := atype, f_code := ''gateway_retryable_'' @ itoa st, f_message := msg,
             f_retryAfter := ra\<rparr>
         else failure0\<lparr>f_transient := False, f_status := st, f_atype := atype,
             f_code := ''gateway_permanent'', f_message := msg, f_retryAfter := ra\<rparr>)
      else
        (if retry then failure0\<lparr>f_transient := True, f_status := mapTransientStatus st,
             f_atype := atype, f_code := ''upstream_retry_'' @ itoa st, f_message := msg,
             f_retryAfter := ra\<rparr>
         else failure0\<lparr>f_transient := False, f_status := st, f_atype := atype,
             f_code := ''upstream_no_retry'', f_message := msg\<rparr>))"

text \<open>The status table of the official SDKs, refined by the body's verdict.\<close>

definition statusFailure :: "int \<Rightarrow> errorVerdict \<Rightarrow> bytes \<Rightarrow> bytes \<Rightarrow> int \<Rightarrow> failure" where
  "statusFailure st verdict atype msg ra =
     (if st = 408 \<or> st = 409 then
        failure0\<lparr>f_transient := True, f_fastRetry := True, f_status := st, f_atype := atype,
          f_code := ''http_'' @ itoa st, f_message := msg, f_retryAfter := ra\<rparr>
      else if st = 429 \<and> verdict = verdictPermanent then
        failure0\<lparr>f_status := st, f_atype := atype, f_code := ''http_429'', f_message := msg\<rparr>
      else if st = 429 then
        failure0\<lparr>f_transient := True, f_status := 429, f_atype := ''rate_limit_error'',
          f_code := ''rate_limit'', f_message := msg, f_retryAfter := ra\<rparr>
      else if 500 \<le> st then
        failure0\<lparr>f_transient := True, f_fastRetry := (st = 502 \<or> st = 503), f_status := st,
          f_atype := typeFor5xx st, f_code := ''http_'' @ itoa st, f_message := msg,
          f_retryAfter := ra\<rparr>
      else if verdict = verdictTransient then
        failure0\<lparr>f_transient := True, f_status := 502, f_atype := ''api_error'',
          f_code := ''retryable_4xx_'' @ itoa st, f_message := msg, f_retryAfter := ra\<rparr>
      else
        failure0\<lparr>f_status := st, f_atype := atype,
          f_code := (if verdict = verdictPermanent then ''request_shape'' else ''http_'' @ itoa st),
          f_message := msg\<rparr>)"

definition classifyHTTPErrorBytesShaped ::
    "env \<Rightarrow> int \<Rightarrow> header \<Rightarrow> bytes \<Rightarrow> errorBodyRule \<Rightarrow> failure" where
  "classifyHTTPErrorBytesShaped E st h b rule =
     (if 300 \<le> st \<and> st < 400 then failRedirect E st h
      else
        let body = (if json_valid b then [] else to_lower b);
            ra = retryAfterSeconds E (header_get h ''Retry-After'');
            ae = parse_apiError b;
            atype = (if ae_type ae = [] then ''api_error'' else ae_type ae);
            f = (case httpRetryHint h of
                   Some (source, retry) \<Rightarrow> hintFailure source retry st atype (ae_message ae) ra
                 | None \<Rightarrow> statusFailure st (rule (ae_type ae) (ae_code ae) (ae_message ae) body)
                            atype (ae_message ae) ra)
        in f\<lparr>f_origType := ae_type ae, f_origCode := ae_code ae\<rparr>)"

definition classifyHTTPErrorBytes :: "env \<Rightarrow> int \<Rightarrow> header \<Rightarrow> bytes \<Rightarrow> failure" where
  "classifyHTTPErrorBytes E st h b = classifyHTTPErrorBytesShaped E st h b anthropicErrorVerdict"

section \<open>In-band errors\<close>

definition anthropicPermanentStatus :: "bytes \<Rightarrow> int" where
  "anthropicPermanentStatus atype =
     (if atype = ''invalid_request_error'' then 400
      else if atype = ''authentication_error'' then 401
      else if atype = ''billing_error'' then 402
      else if atype = ''permission_error'' then 403
      else if atype = ''not_found_error'' then 404
      else if atype = ''request_too_large'' then 413
      else 0)"

definition streamDisconnectMessage :: bytes where
  "streamDisconnectMessage =
     ''stream error: stream disconnected before completion: stream closed before response.completed''"

definition sseErrorFailure :: "bytes \<Rightarrow> bytes \<Rightarrow> failure" where
  "sseErrorFailure t msg =
     (if t = ''overloaded_error'' then
        failure0\<lparr>f_transient := True, f_status := 529, f_atype := ''overloaded_error'',
          f_code := ''sse_overloaded'', f_message := msg\<rparr>
      else if t = ''rate_limit_error'' then
        failure0\<lparr>f_transient := True, f_status := 429, f_atype := ''rate_limit_error'',
          f_code := ''sse_rate_limit'', f_message := msg\<rparr>
      else if t = ''api_error'' \<or> t = ''timeout_error'' \<or> t = [] then
        failure0\<lparr>f_transient := True, f_status := 502, f_atype := ''api_error'',
          f_code := ''sse_api_error'', f_message := msg\<rparr>
      else if t = ''invalid_request_error'' then
        (if msg = streamDisconnectMessage then
           failure0\<lparr>f_transient := True, f_status := 502, f_atype := ''api_error'',
             f_code := ''sse_stream_disconnect'', f_message := msg\<rparr>
         else
           failure0\<lparr>f_transient := False, f_status := 400, f_atype := t,
             f_code := ''sse_request_shape'', f_message := msg\<rparr>)
      else if anthropicPermanentStatus t \<noteq> 0 then
        failure0\<lparr>f_status := anthropicPermanentStatus t, f_atype := t, f_code := ''sse_'' @ t,
          f_message := msg\<rparr>
      else if anyContains (to_lower (t @ '' '' @ msg)) requestShapeSigs then
        failure0\<lparr>f_status := 400, f_atype := t, f_code := ''sse_request_shape'', f_message := msg\<rparr>
      else
        failure0\<lparr>f_transient := True, f_status := 502, f_atype := ''api_error'',
          f_code := ''sse_retryable'', f_message := msg\<rparr>)"

definition classifySSEError :: "bytes \<Rightarrow> failure" where
  "classifySSEError data =
     (let e = parse_apiError data in
      (sseErrorFailure (ae_type e) (ae_message e))
        \<lparr>f_origType := ae_type e, f_origCode := ae_code e\<rparr>)"

section \<open>The retry decision\<close>

text \<open>
  The retry policy as the documentation states it: redirects are final, an
  authoritative header decides, then 408, 409, 429 and 5xx are retried unless the body
  of a 429 names a permanent fault, and another status only if its body names a
  transient one.
\<close>

definition retry_policy :: "int \<Rightarrow> bool option \<Rightarrow> errorVerdict \<Rightarrow> bool" where
  "retry_policy st hint verdict =
     (if 300 \<le> st \<and> st < 400 then False
      else case hint of
             Some retry \<Rightarrow> retry
           | None \<Rightarrow> if st = 429 then verdict \<noteq> verdictPermanent
                     else st \<in> {408, 409} \<or> 500 \<le> st \<or> verdict = verdictTransient)"

definition body_verdict :: "bytes \<Rightarrow> errorBodyRule \<Rightarrow> errorVerdict" where
  "body_verdict b rule =
     (let ae = parse_apiError b in
      rule (ae_type ae) (ae_code ae) (ae_message ae) (if json_valid b then [] else to_lower b))"

lemma hintFailure_fields:
  "f_transient (hintFailure src retry st ty m ra) = retry"
  "f_status (hintFailure src retry st ty m ra) = (if retry then mapTransientStatus st else st)"
  "f_message (hintFailure src retry st ty m ra) = m"
  "f_upstream (hintFailure src retry st ty m ra) = None"
  by (simp_all add: hintFailure_def)

lemma statusFailure_transient:
  "f_transient (statusFailure st v ty m ra) =
     (if st = 429 then v \<noteq> verdictPermanent
      else st \<in> {408, 409} \<or> 500 \<le> st \<or> v = verdictTransient)"
  by (simp add: statusFailure_def)

lemma statusFailure_status:
  "f_status (statusFailure st v ty m ra) =
     (if f_transient (statusFailure st v ty m ra) \<and> st \<notin> {408, 409, 429} \<and> st < 500 then 502 else st)"
  by (simp add: statusFailure_def)

lemma classify_transient:
  "f_transient (classifyHTTPErrorBytesShaped E st h b rule) =
     retry_policy st (map_option snd (httpRetryHint h)) (body_verdict b rule)"
  by (auto simp: classifyHTTPErrorBytesShaped_def failRedirect_def failure0_def retry_policy_def
      body_verdict_def Let_def hintFailure_fields statusFailure_transient
      split: option.splits prod.splits)

lemmas classify_fields = hintFailure_fields statusFailure_transient

text \<open>
  C36. The HTTP error classifier decides exactly by the documented retry policy; a failure
  it calls terminal keeps the upstream status (a redirect becomes 502), and one it calls
  retryable never keeps a 4xx status that clients refuse to retry.
\<close>

theorem classify_decision:
  "let f = classifyHTTPErrorBytesShaped E st h b rule;
       hint = map_option snd (httpRetryHint h)
   in f_transient f = retry_policy st hint (body_verdict b rule) \<and>
      (\<not> f_transient f \<longrightarrow> f_status f = (if 300 \<le> st \<and> st < 400 then 502 else st)) \<and>
      (f_transient f \<longrightarrow> f_status f \<in> {408, 409, 429} \<or> \<not> (400 \<le> f_status f \<and> f_status f < 500))"
proof (cases "300 \<le> st \<and> st < 400")
  case True
  then show ?thesis
    by (simp add: classifyHTTPErrorBytesShaped_def retry_policy_def failRedirect_def)
next
  case False
  show ?thesis
  proof (cases "httpRetryHint h")
    case None
    with False show ?thesis
      by (auto simp: classifyHTTPErrorBytesShaped_def retry_policy_def body_verdict_def Let_def
          statusFailure_transient statusFailure_status)
  next
    case (Some sr)
    with False show ?thesis
      by (cases sr) (auto simp: classifyHTTPErrorBytesShaped_def retry_policy_def Let_def
          hintFailure_fields mapTransientStatus_def)
  qed
qed

definition example_env :: env where
  "example_env = \<lparr>env_until = (\<lambda>v. None), env_url = (\<lambda>l. Some l)\<rparr>"

theorem classify_decision_witness:
  "f_transient (classifyHTTPErrorBytesShaped example_env 529 Map.empty [] anthropicErrorVerdict)"
  using classify_decision [of example_env 529 Map.empty "[]" anthropicErrorVerdict]
  by (simp add: Let_def retry_policy_def httpRetryHint_def header_get_def header_values_def
      hint_value_def)

lemma permanent_types:
  assumes "anthropicPermanentStatus t = st" "st \<noteq> 0"
  shows "t \<noteq> []" "t \<notin> {''rate_limit_error'', ''overloaded_error'', ''timeout_error'', ''api_error''}"
    "st \<in> {400, 401, 402, 403, 404, 413}"
  using assms by (auto simp: anthropicPermanentStatus_def split: if_splits)

lemma sseErrorFailure_permanent:
  assumes "anthropicPermanentStatus t = st" "st \<noteq> 0" "msg \<noteq> streamDisconnectMessage"
  shows "\<not> f_transient (sseErrorFailure t msg) \<and> f_status (sseErrorFailure t msg) = st
      \<and> f_atype (sseErrorFailure t msg) = t"
proof (cases "t = ''invalid_request_error''")
  case True
  with assms show ?thesis by (simp add: sseErrorFailure_def anthropicPermanentStatus_def)
next
  case False
  with permanent_types [OF assms(1,2)] assms show ?thesis by (simp add: sseErrorFailure_def)
qed

lemma statusFailure_final:
  assumes "st \<in> {400, 401, 402, 403, 404, 413}" "v \<noteq> verdictTransient"
  shows "\<not> f_transient (statusFailure st v t m ra) \<and> f_status (statusFailure st v t m ra) = st
      \<and> f_atype (statusFailure st v t m ra) = t"
  using assms by (auto simp: statusFailure_def)

lemma anthropicErrorVerdict_transient:
  "anthropicErrorVerdict t c m l = verdictTransient \<Longrightarrow>
   t \<in> {''rate_limit_error'', ''overloaded_error'', ''timeout_error''}"
  by (simp add: anthropicErrorVerdict_def split: if_splits)

text \<open>
  An error type that is final over HTTP is final in-band: with no retry hint, an
  \<open>event: error\<close> frame of such a type and an HTTP reply with its status and the same
  body are both terminal, with the same status and the same type (the one documented
  transport message aside).
\<close>

theorem sse_http_agree:
  assumes "anthropicPermanentStatus (ae_type (parse_apiError b)) = st" "st \<noteq> 0"
    and "httpRetryHint h = None" and "ae_message (parse_apiError b) \<noteq> streamDisconnectMessage"
  shows "\<not> f_transient (classifySSEError b) \<and> \<not> f_transient (classifyHTTPErrorBytes E st h b) \<and>
    f_status (classifySSEError b) = st \<and> f_status (classifyHTTPErrorBytes E st h b) = st \<and>
    f_atype (classifySSEError b) = f_atype (classifyHTTPErrorBytes E st h b)"
proof -
  let ?e = "parse_apiError b"
  note types = permanent_types [OF assms(1,2)]
  have "anthropicErrorVerdict (ae_type ?e) c m l \<noteq> verdictTransient" for c m l
    using anthropicErrorVerdict_transient types(2) by blast
  from statusFailure_final [OF types(3) this] types(1,3) assms(3)
  have "\<not> f_transient (classifyHTTPErrorBytes E st h b) \<and> f_status (classifyHTTPErrorBytes E st h b) = st
      \<and> f_atype (classifyHTTPErrorBytes E st h b) = ae_type ?e"
    by (auto simp: classifyHTTPErrorBytes_def classifyHTTPErrorBytesShaped_def Let_def)
  with sseErrorFailure_permanent [OF assms(1,2,4)] show ?thesis
    by (simp add: classifySSEError_def Let_def)
qed

theorem sse_http_agree_witness:
  "f_status (classifySSEError ''{\"error\":{\"type\":\"billing_error\"}}'') = 402"
proof -
  have e: "parse_apiError ''{\"error\":{\"type\":\"billing_error\"}}''
      = \<lparr>ae_type = ''billing_error'', ae_code = [], ae_message = []\<rparr>"
    by code_simp
  have "httpRetryHint Map.empty = None"
    by (simp add: httpRetryHint_def header_get_def header_values_def hint_value_def)
  with sse_http_agree [of "''{\"error\":{\"type\":\"billing_error\"}}''" 402 Map.empty example_env] show ?thesis
    by (simp add: e anthropicPermanentStatus_def streamDisconnectMessage_def)
qed

section \<open>Delays\<close>

lemma backoff_loop_closed: "backoff_loop n 1 = 2 ^ min n 5"
proof -
  have "backoff_loop n (2 ^ k) = 2 ^ min (n + k) 5" if "k \<le> 5" for n k
    using that
  proof (induction n arbitrary: k)
    case (Suc n)
    show ?case
    proof (cases "k = 5")
      case False
      with Suc.prems have k: "k \<in> {0, 1, 2, 3, 4}" by auto
      then have "(2::int) ^ k < 30" by auto
      with Suc.IH [of "Suc k"] Suc.prems False show ?thesis by (simp add: mult.commute)
    qed simp
  qed (simp add: min_def)
  from this [of 0 n] show ?thesis by simp
qed

text \<open>
  The synthesized client delay is the exponential backoff 1, 2, 4, ... seconds capped
  at 30, plus the jitter: it is at least 1, at most 31, and 30 plus jitter from the fifth
  retry on.
\<close>

theorem retryAfterFor_backoff:
  assumes "jitter = 0 \<or> jitter = 1"
  shows "retryAfterFor jitter n = min 30 (2 ^ nat n) + jitter \<and>
         1 \<le> retryAfterFor jitter n \<and> retryAfterFor jitter n \<le> 31"
proof -
  have p: "min 30 (2 ^ min m 5) = min 30 (2 ^ m :: int)" for m
  proof (cases "m \<le> 5")
    case False
    then have "(2::int) ^ 5 \<le> 2 ^ m" by (intro power_increasing) auto
    with False show ?thesis by simp
  qed simp
  have n: "nat (if n < 0 then 0 else n) = nat n" by simp
  have "retryAfterFor jitter n = min 30 (2 ^ min (nat n) 5) + jitter"
    unfolding retryAfterFor_def Let_def n backoff_loop_closed by simp
  then have "retryAfterFor jitter n = min 30 (2 ^ nat n) + jitter" by (simp only: p)
  moreover have "(1::int) \<le> 2 ^ nat n" by simp
  ultimately show ?thesis using assms by auto
qed

theorem retryAfterFor_backoff_witness: "retryAfterFor 1 3 = 9"
  using retryAfterFor_backoff [of 1 3] by simp

text \<open>
  A \<open>Retry-After\<close> date is rounded up to whole seconds, so the client never retries
  early, as long as the date is less than the 64-bit nanosecond range (292 years) away.
\<close>

theorem retryAfterSeconds_rounds_up:
  assumes "trim_space v \<noteq> []" "atoiSafe (trim_space v) \<le> 0" "env_until E (trim_space v) = Some d"
    and "0 < d" "d \<le> max_int64 - second_ns"
  shows "let r = retryAfterSeconds E v in 0 < r \<and> d \<le> r * second_ns \<and> (r - 1) * second_ns < d"
proof -
  have w: "wrap64 (wrap64 (d + second_ns) - 1) = d + second_ns - 1"
    using assms(4,5) by (simp add: min_int64_def max_int64_def second_ns_def)
  have "0 < second_ns" by (simp add: second_ns_def)
  then have "go_div (d + second_ns - 1) second_ns = (d + second_ns - 1) div second_ns"
    using assms(4) by (intro go_div_nonneg) auto
  with assms have r: "retryAfterSeconds E v = (d + second_ns - 1) div second_ns"
    by (simp add: retryAfterSeconds_def Let_def w)
  show ?thesis
    using assms(4) unfolding Let_def r second_ns_def by (auto simp: field_simps)
qed

theorem retryAfterSeconds_rounds_up_witness:
  "0 < retryAfterSeconds \<lparr>env_until = (\<lambda>v. Some 1500000000), env_url = (\<lambda>l. None)\<rparr> ''Fri''"
proof -
  have t: "trim_space ''Fri'' = ''Fri''" by code_simp
  have a: "atoiSafe ''Fri'' \<le> 0"
    by (simp add: atoiSafe_def t atoi_def parse_int64_def is_digit_def)
  show ?thesis
    using retryAfterSeconds_rounds_up
      [of "''Fri''" "\<lparr>env_until = (\<lambda>v. Some 1500000000), env_url = (\<lambda>l. None)\<rparr>" 1500000000] a
    by (simp add: t Let_def max_int64_def second_ns_def)
qed

text \<open>
  C40. Past that range the addition wraps: a date at the limit Go saturates to gives a
  negative delay, which no caller treats as a delay, so the header is dropped.
\<close>

theorem retryAfterSeconds_overflow:
  assumes "trim_space v \<noteq> []" "atoiSafe (trim_space v) \<le> 0" "env_until E (trim_space v) = Some max_int64"
  shows "retryAfterSeconds E v = - 9223372035"
proof -
  have w: "wrap64 (wrap64 (max_int64 + second_ns) - 1) = - 9223372035854775810"
    by (simp add: wrap64_def max_int64_def second_ns_def)
  show ?thesis
    using assms unfolding retryAfterSeconds_def Let_def
    by (simp add: w) (simp add: max_int64_def go_div_def second_ns_def)
qed

theorem retryAfterSeconds_overflow_witness:
  "retryAfterSeconds \<lparr>env_until = (\<lambda>v. Some max_int64), env_url = (\<lambda>l. None)\<rparr> ''Fri'' < 0"
proof -
  have t: "trim_space ''Fri'' = ''Fri''" by code_simp
  have a: "atoiSafe ''Fri'' \<le> 0"
    by (simp add: atoiSafe_def t atoi_def parse_int64_def is_digit_def)
  show ?thesis
    using retryAfterSeconds_overflow
      [of "''Fri''" "\<lparr>env_until = (\<lambda>v. Some max_int64), env_url = (\<lambda>l. None)\<rparr>"] a
    by (simp add: t)
qed

end
