(* ===== verification/Anthropic_Stream.thy ===== *)
theory Anthropic_Stream
  imports Spool Blocks Json_Wf Classify
begin

text \<open>
  The checks on an Anthropic Messages stream (sse.go): the order of events
  (\<open>streamValidator\<close>), the shape of an event, the tool-input validator
  (\<open>toolJSONValidator\<close>) and the facts scraped for the log and for the usage backfill
  (\<open>captureStats\<close>, \<open>scrapeUsage\<close>).
\<close>

section \<open>Statistics of a stream\<close>

record captureStats =
  st_mode :: bytes
  st_bytes :: int
  st_maxPingRun :: int
  st_curPingRun :: int
  st_inTok :: int
  st_inputTok :: int
  st_cacheCreationTok :: int
  st_cacheReadTok :: int
  st_startInputTok :: int
  st_startCacheCreationTok :: int
  st_startCacheReadTok :: int
  st_deltaInputUsage :: bool
  st_outTok :: int
  st_stop :: bytes
  st_refusalCategory :: bytes
  st_refusalReason :: bytes
  st_model :: bytes
  st_readErr :: "go_error option"
  st_heldRefusal :: "spool option"

definition stats0 :: captureStats where
  "stats0 = \<lparr>st_mode = [], st_bytes = 0, st_maxPingRun = 0, st_curPingRun = 0, st_inTok = 0,
     st_inputTok = 0, st_cacheCreationTok = 0, st_cacheReadTok = 0, st_startInputTok = 0,
     st_startCacheCreationTok = 0, st_startCacheReadTok = 0, st_deltaInputUsage = False,
     st_outTok = 0, st_stop = [], st_refusalCategory = [], st_refusalReason = [], st_model = [],
     st_readErr = None, st_heldRefusal = None\<rparr>"

definition totalInputTokens :: "int \<Rightarrow> int \<Rightarrow> int \<Rightarrow> int" where
  "totalInputTokens input cacheCreation cacheRead = wrap64 (input + cacheCreation + cacheRead)"

definition setInputUsage :: "int \<Rightarrow> int \<Rightarrow> int \<Rightarrow> captureStats \<Rightarrow> captureStats" where
  "setInputUsage input cacheCreation cacheRead st =
     (if totalInputTokens input cacheCreation cacheRead \<le> 0 then st
      else st\<lparr>st_inputTok := input, st_cacheCreationTok := cacheCreation, st_cacheReadTok := cacheRead,
              st_inTok := totalInputTokens input cacheCreation cacheRead\<rparr>)"

definition positiveOr :: "int \<Rightarrow> int \<Rightarrow> int" where
  "positiveOr v held = (if 0 < v then v else held)"

definition shouldBackfillMessageStartUsage :: "config \<Rightarrow> captureStats \<Rightarrow> bool" where
  "shouldBackfillMessageStartUsage cfg st =
     (if \<not> validateJSON cfg \<or> \<not> st_deltaInputUsage st \<or> st_inTok st \<le> 0 then False
      else st_startInputTok st \<noteq> st_inputTok st \<or>
           st_startCacheCreationTok st \<noteq> st_cacheCreationTok st \<or>
           st_startCacheReadTok st \<noteq> st_cacheReadTok st)"

text \<open>The anonymous structs \<open>scrapeUsage\<close> decodes into, their nested fields side by side.\<close>

record usageFields =
  u_model :: bytes
  u_input :: int
  u_creation :: int
  u_read :: int
  u_output :: int
  u_stop :: bytes
  u_details :: "json option"

definition usage0 :: usageFields where
  "usage0 = \<lparr>u_model = [], u_input = 0, u_creation = 0, u_read = 0, u_output = 0, u_stop = [], u_details = None\<rparr>"

definition dec_start_usage :: "usageFields decoder" where
  "dec_start_usage = dec_struct
     [(''message'', dec_struct
        [(''model'', dec_field u_model u_model_update dec_string),
         (''usage'', dec_struct
            [(''input_tokens'', dec_field u_input u_input_update dec_int),
             (''cache_creation_input_tokens'', dec_field u_creation u_creation_update dec_int),
             (''cache_read_input_tokens'', dec_field u_read u_read_update dec_int)])])]"

definition dec_delta_usage :: "usageFields decoder" where
  "dec_delta_usage = dec_struct
     [(''usage'', dec_struct
         [(''input_tokens'', dec_field u_input u_input_update dec_int),
          (''cache_creation_input_tokens'', dec_field u_creation u_creation_update dec_int),
          (''cache_read_input_tokens'', dec_field u_read u_read_update dec_int),
          (''output_tokens'', dec_field u_output u_output_update dec_int)]),
      (''delta'', dec_struct
         [(''stop_reason'', dec_field u_stop u_stop_update dec_string),
          (''stop_details'', dec_field u_details u_details_update dec_raw)])]"

definition dec_details :: "(bytes \<times> bytes) decoder" where
  "dec_details = dec_struct
     [(''category'', dec_field fst apfst dec_string), (''explanation'', dec_field snd apsnd dec_string)]"

definition scrapeUsage :: "event \<Rightarrow> captureStats \<Rightarrow> captureStats" where
  "scrapeUsage ev st =
     (if ev_name ev = ''message_start'' then
        (case unmarshal dec_start_usage (ev_data ev) usage0 of
           (m, True) \<Rightarrow> st
         | (m, False) \<Rightarrow>
             setInputUsage (u_input m) (u_creation m) (u_read m)
               (st\<lparr>st_model := (if u_model m \<noteq> [] then u_model m else st_model st),
                   st_startInputTok := u_input m, st_startCacheCreationTok := u_creation m,
                   st_startCacheReadTok := u_read m\<rparr>))
      else if ev_name ev = ''message_delta'' then
        (case unmarshal dec_delta_usage (ev_data ev) usage0 of
           (d, True) \<Rightarrow> st
         | (d, False) \<Rightarrow>
             let st1 = (if 0 < u_input d \<or> 0 < u_creation d \<or> 0 < u_read d
                        then setInputUsage (positiveOr (u_input d) (st_inputTok st))
                               (positiveOr (u_creation d) (st_cacheCreationTok st))
                               (positiveOr (u_read d) (st_cacheReadTok st))
                               (st\<lparr>st_deltaInputUsage := True\<rparr>)
                        else st);
                 st2 = (if 0 < u_output d then st1\<lparr>st_outTok := u_output d\<rparr> else st1)
             in if u_stop d = [] then st2
                else let st3 = st2\<lparr>st_stop := u_stop d, st_refusalCategory := [], st_refusalReason := []\<rparr>
                     in if u_stop d \<noteq> ''refusal'' then st3
                        else (case unmarshal_raw dec_details (u_details d) ([], []) of
                                (_, True) \<Rightarrow> st3
                              | (cr, False) \<Rightarrow>
                                  st3\<lparr>st_refusalCategory := fst cr, st_refusalReason := snd cr\<rparr>))
      else st)"

section \<open>The order of events\<close>

record streamValidator =
  v_sawStart :: bool
  v_open :: int
  v_sawStop :: bool
  v_invalid :: bool

definition validator0 :: streamValidator where
  "validator0 = \<lparr>v_sawStart = False, v_open = 0, v_sawStop = False, v_invalid = False\<rparr>"

definition v_accept_name :: "bytes \<Rightarrow> streamValidator \<Rightarrow> streamValidator" where
  "v_accept_name n v =
     (if n = ''message_start'' then
        v\<lparr>v_invalid := v_invalid v \<or> v_sawStart v \<or> v_sawStop v, v_sawStart := True\<rparr>
      else if n = ''content_block_start'' then
        v\<lparr>v_invalid := v_invalid v \<or> \<not> v_sawStart v \<or> v_sawStop v, v_open := v_open v + 1\<rparr>
      else if n = ''content_block_stop'' then
        (if v_open v \<le> 0 \<or> v_sawStop v then v\<lparr>v_invalid := True\<rparr> else v\<lparr>v_open := v_open v - 1\<rparr>)
      else if n = ''content_block_delta'' \<or> n = ''message_delta'' then
        v\<lparr>v_invalid := v_invalid v \<or> \<not> v_sawStart v \<or> v_sawStop v\<rparr>
      else if n = ''message_stop'' then
        v\<lparr>v_invalid := v_invalid v \<or> \<not> v_sawStart v \<or> v_open v \<noteq> 0, v_sawStop := True\<rparr>
      else v)"

definition streamValidator_accept :: "streamValidator \<Rightarrow> event \<Rightarrow> streamValidator" where
  "streamValidator_accept v ev = v_accept_name (ev_name ev) v"

definition terminal :: "streamValidator \<Rightarrow> bool" where
  "terminal v = (v_sawStart v \<and> v_sawStop v \<and> v_open v = 0 \<and> \<not> v_invalid v)"

definition validateSSEEventShape :: "event \<Rightarrow> failure option" where
  "validateSSEEventShape ev =
     (if ev_name ev = ''ping'' \<and> ev_data ev = [] then None
      else if ev_name ev \<noteq> [] \<and> ev_data ev = [] then Some (malformedSSE ''stream event missing JSON data'')
      else if ev_name ev = [] \<and> ev_data ev \<noteq> [] then Some (malformedSSE ''stream event missing event name'')
      else None)"

section \<open>The tool-input validator\<close>

text \<open>\<open>streamPayload\<close>, its nested structs side by side.\<close>

record streamPayload =
  pl_type :: bytes
  pl_index :: int
  pl_cbType :: bytes
  pl_cbInput :: "json option"
  pl_dType :: bytes
  pl_partial :: bytes
  pl_stop :: bytes

definition payload0 :: streamPayload where
  "payload0 = \<lparr>pl_type = [], pl_index = 0, pl_cbType = [], pl_cbInput = None, pl_dType = [],
     pl_partial = [], pl_stop = []\<rparr>"

definition dec_payload :: "streamPayload decoder" where
  "dec_payload = dec_struct
     [(''type'', dec_field pl_type pl_type_update dec_string),
      (''index'', dec_field pl_index pl_index_update dec_int),
      (''content_block'', dec_struct
         [(''type'', dec_field pl_cbType pl_cbType_update dec_string),
          (''input'', dec_field pl_cbInput pl_cbInput_update dec_raw)]),
      (''delta'', dec_struct
         [(''type'', dec_field pl_dType pl_dType_update dec_string),
          (''partial_json'', dec_field pl_partial pl_partial_update dec_string),
          (''stop_reason'', dec_field pl_stop pl_stop_update dec_string)])]"

text \<open>\<open>None\<close>: \<open>json.Unmarshal\<close> returned an error.\<close>

definition payload_of :: "event \<Rightarrow> streamPayload option" where
  "payload_of ev =
     (case unmarshal dec_payload (ev_data ev) payload0 of (p, False) \<Rightarrow> Some p | (p, True) \<Rightarrow> None)"

datatype truncVerdict = truncReject | truncWait | truncExcused

definition judgeTruncatedToolInput :: "event \<Rightarrow> streamPayload \<Rightarrow> truncVerdict" where
  "judgeTruncatedToolInput ev p =
     (if ev_name ev = ''ping'' then truncWait
      else if pl_type p = ''message_delta'' \<and>
              (pl_stop p = ''max_tokens'' \<or> pl_stop p = ''model_context_window_exceeded'')
      then truncExcused
      else truncReject)"

definition blockUsesInputJSON :: "bytes \<Rightarrow> bool" where
  "blockUsesInputJSON t = (t = ''tool_use'' \<or> t = ''server_tool_use'')"

definition validJSONObject :: "bytes \<Rightarrow> bool" where
  "validJSONObject p0 = (let p = trim_space p0 in p \<noteq> [] \<and> hd p = CHR ''{'' \<and> json_valid p)"

definition invalidToolInputMessage :: bytes where
  "invalidToolInputMessage = ''invalid tool input JSON in stream event''"

record toolJSONBlock =
  tb_jsonInput :: bool
  tb_sawInputDelta :: bool
  tb_input :: bytes

record toolJSONValidator =
  tv_blocks :: "toolJSONBlock blocks"
  tv_truncated :: bool
  tv_inputBytes :: int

definition toolVal0 :: toolJSONValidator where
  "toolVal0 = \<lparr>tv_blocks = [], tv_truncated = False, tv_inputBytes = 0\<rparr>"

definition toolBlock0 :: toolJSONBlock where
  "toolBlock0 = \<lparr>tb_jsonInput = True, tb_sawInputDelta = False, tb_input = []\<rparr>"

definition tb_weight :: "toolJSONBlock \<Rightarrow> int" where
  "tb_weight b = int (length (tb_input b))"

definition tv_start :: "streamPayload \<Rightarrow> toolJSONValidator \<Rightarrow> toolJSONValidator \<times> failure option" where
  "tv_start p v =
     (if blockUsesInputJSON (pl_cbType p) then
        (case pl_cbInput p of
           Some j \<Rightarrow>
             if \<not> json_valid (render j) then (v, Some (malformedSSE invalidToolInputMessage))
             else (v\<lparr>tv_inputBytes := tv_inputBytes v - opt_weight tb_weight (blk_get (tv_blocks v) (pl_index p)),
                     tv_blocks := blk_put (pl_index p) toolBlock0 (tv_blocks v)\<rparr>, None)
         | None \<Rightarrow>
             (v\<lparr>tv_inputBytes := tv_inputBytes v - opt_weight tb_weight (blk_get (tv_blocks v) (pl_index p)),
                tv_blocks := blk_put (pl_index p) toolBlock0 (tv_blocks v)\<rparr>, None))
      else (v, None))"

definition tv_delta :: "config \<Rightarrow> streamPayload \<Rightarrow> toolJSONValidator \<Rightarrow> toolJSONValidator \<times> failure option" where
  "tv_delta cfg p v =
     (if pl_dType p \<noteq> ''input_json_delta'' then (v, None)
      else let n = int (length (pl_partial p))
           in if n > maxResponseBytes cfg - tv_inputBytes v then (v, Some (classifyBufferError errTooLarge))
              else let b = (case blk_get (tv_blocks v) (pl_index p) of None \<Rightarrow> toolBlock0 | Some b \<Rightarrow> b);
                       b' = b\<lparr>tb_sawInputDelta := True, tb_input := tb_input b @ pl_partial p\<rparr>
                   in (v\<lparr>tv_blocks := blk_put (pl_index p) b' (tv_blocks v),
                         tv_inputBytes := tv_inputBytes v + n\<rparr>, None))"

definition tv_stop :: "streamPayload \<Rightarrow> toolJSONValidator \<Rightarrow> toolJSONValidator" where
  "tv_stop p v =
     (case blk_get (tv_blocks v) (pl_index p) of
        None \<Rightarrow> v
      | Some b \<Rightarrow>
          v\<lparr>tv_truncated := tv_truncated v \<or>
              (tb_jsonInput b \<and> tb_sawInputDelta b \<and> tb_input b \<noteq> [] \<and> \<not> validJSONObject (tb_input b)),
            tv_inputBytes := tv_inputBytes v - tb_weight b,
            tv_blocks := blk_del (pl_index p) (tv_blocks v)\<rparr>)"

definition toolVal_accept ::
    "config \<Rightarrow> toolJSONValidator \<Rightarrow> event \<Rightarrow> toolJSONValidator \<times> failure option" where
  "toolVal_accept cfg v ev =
     (if ev_data ev = [] then (v, None)
      else case payload_of ev of
             None \<Rightarrow> (v, Some (malformedSSE ''invalid JSON in stream event''))
           | Some p \<Rightarrow>
               if ev_name ev = ''message_stop'' \<and> list_ex (\<lambda>(k, b). tb_sawInputDelta b) (tv_blocks v)
               then (v, Some (malformedSSE invalidToolInputMessage))
               else if tv_truncated v then
                 (case judgeTruncatedToolInput ev p of
                    truncWait \<Rightarrow> (v, None)
                  | truncExcused \<Rightarrow> (v\<lparr>tv_truncated := False\<rparr>, None)
                  | truncReject \<Rightarrow> (v, Some (malformedSSE invalidToolInputMessage)))
               else if pl_type p = ''content_block_start'' then tv_start p v
               else if pl_type p = ''content_block_delta'' then tv_delta cfg p v
               else if pl_type p = ''content_block_stop'' then (tv_stop p v, None)
               else (v, None))"

section \<open>The byte account of the validator\<close>

text \<open>
  \<open>inputBytes\<close> is the size of the input retained in the open blocks, and it stays within
  the response cap: the check before each append is on the account, not on the buffers.
\<close>

definition toolVal_inv :: "config \<Rightarrow> toolJSONValidator \<Rightarrow> bool" where
  "toolVal_inv cfg v =
     (blk_inv (tv_blocks v) \<and> tv_inputBytes v = blk_total tb_weight (tv_blocks v) \<and>
      tv_inputBytes v \<le> maxResponseBytes cfg)"

lemma tb_weight_nonneg: "0 \<le> tb_weight b"
  by (simp add: tb_weight_def)

lemma opt_weight_tb_nonneg: "0 \<le> opt_weight tb_weight x"
  by (cases x) (simp_all add: tb_weight_nonneg)

lemma tv_start_inv: "toolVal_inv cfg v \<Longrightarrow> toolVal_inv cfg (fst (tv_start p v))"
  using opt_weight_tb_nonneg [of "blk_get (tv_blocks v) (pl_index p)"]
  by (auto simp: toolVal_inv_def tv_start_def bm.replace_empty bm.inv_put tb_weight_def toolBlock0_def
      split: option.splits)

lemma tv_delta_inv: "toolVal_inv cfg v \<Longrightarrow> toolVal_inv cfg (fst (tv_delta cfg p v))"
  by (auto simp: toolVal_inv_def tv_delta_def Let_def bm.inv_put bm.total_put tb_weight_def toolBlock0_def
      split: option.splits)

lemma tv_stop_inv: "toolVal_inv cfg v \<Longrightarrow> toolVal_inv cfg (tv_stop p v)"
proof (cases "blk_get (tv_blocks v) (pl_index p)")
  case (Some b)
  assume "toolVal_inv cfg v"
  with Some tb_weight_nonneg [of b] show ?thesis
    by (simp add: toolVal_inv_def tv_stop_def bm.inv_del bm.total_del)
qed (simp add: tv_stop_def)

lemma toolVal_accept_inv: "toolVal_inv cfg v \<Longrightarrow> toolVal_inv cfg (fst (toolVal_accept cfg v ev))"
  by (auto simp: toolVal_accept_def tv_start_inv tv_delta_inv tv_stop_inv
      split: option.splits truncVerdict.splits) (simp_all add: toolVal_inv_def)

fun toolVal_run :: "config \<Rightarrow> toolJSONValidator \<Rightarrow> event list \<Rightarrow> toolJSONValidator \<times> failure option" where
  "toolVal_run cfg v [] = (v, None)"
| "toolVal_run cfg v (ev # evs) =
     (case toolVal_accept cfg v ev of (v', None) \<Rightarrow> toolVal_run cfg v' evs | (v', Some f) \<Rightarrow> (v', Some f))"

text \<open>
  C19. However a stream opens, re-opens, feeds and closes its tool blocks, the validator's
  byte account equals the input it retains, which never exceeds the response cap.
\<close>

theorem tool_input_account:
  assumes "valid_config cfg"
  shows "toolVal_inv cfg (fst (toolVal_run cfg toolVal0 evs))"
proof -
  have "toolVal_inv cfg v \<Longrightarrow> toolVal_inv cfg (fst (toolVal_run cfg v evs))" for v
  proof (induction evs arbitrary: v)
    case (Cons ev evs)
    from toolVal_accept_inv [OF Cons.prems, of ev] Cons.IH show ?case
      by (auto split: prod.splits option.splits)
  qed simp
  moreover have "toolVal_inv cfg toolVal0"
    using assms by (simp add: toolVal_inv_def toolVal0_def valid_config_def)
  ultimately show ?thesis by blast
qed

theorem tool_input_account_witness:
  "toolVal_inv example_config
     (fst (toolVal_run example_config toolVal0
        [\<lparr>ev_name = ''content_block_delta'', ev_data = ''{}'', ev_raw = []\<rparr>]))"
  by (rule tool_input_account) (rule example_config_valid)

section \<open>The grammar of a message\<close>

text \<open>
  The content of a message: content blocks nest or interleave like brackets (the
  validator counts them, as the API may open several at once), with other events
  anywhere between.
\<close>

definition framing :: "bytes list" where
  "framing = [''message_start'', ''content_block_start'', ''content_block_stop'', ''message_stop'']"

inductive content :: "bytes list \<Rightarrow> bool" where
  content_empty: "content []"
| content_event: "n \<notin> set framing \<Longrightarrow> content ns \<Longrightarrow> content (n # ns)"
| content_block: "content ns \<Longrightarrow> content ms \<Longrightarrow>
    content (''content_block_start'' # ns @ ''content_block_stop'' # ms)"

inductive_cases content_NilE: "content []"
inductive_simps content_Cons: "content (n # ns)"

text \<open>Before the message only events that belong to no message: pings and unknown ones.\<close>

definition transcript :: "bytes list \<Rightarrow> bool" where
  "transcript ns =
     (\<exists>pre body. ns = pre @ ''message_start'' # body @ [''message_stop''] \<and>
        (\<forall>n \<in> set pre. n \<notin> set framing \<and> n \<noteq> ''content_block_delta'' \<and> n \<noteq> ''message_delta'') \<and>
        content body)"

text \<open>\<open>pending k ns\<close>: \<open>ns\<close> closes \<open>k\<close> open blocks.\<close>

fun pending :: "nat \<Rightarrow> bytes list \<Rightarrow> bool" where
  "pending 0 ns = content ns"
| "pending (Suc k) ns = (\<exists>as bs. ns = as @ ''content_block_stop'' # bs \<and> content as \<and> pending k bs)"

definition at_open :: "int \<Rightarrow> streamValidator" where
  "at_open k = \<lparr>v_sawStart = True, v_open = k, v_sawStop = False, v_invalid = False\<rparr>"

abbreviation v_run :: "streamValidator \<Rightarrow> bytes list \<Rightarrow> streamValidator" where
  "v_run v ns \<equiv> foldl (\<lambda>v n. v_accept_name n v) v ns"

lemma v_invalid_stays: "v_invalid v \<Longrightarrow> v_invalid (v_run v ns)"
  by (induction ns arbitrary: v) (auto simp: v_accept_name_def)

lemma framing_cases:
  "n \<in> set framing \<longleftrightarrow> n = ''message_start'' \<or> n = ''content_block_start'' \<or>
     n = ''content_block_stop'' \<or> n = ''message_stop''"
  by (auto simp: framing_def)

lemma v_step_open:
  "v_accept_name ''content_block_start'' (at_open k) = at_open (k + 1)"
  "0 < k \<Longrightarrow> v_accept_name ''content_block_stop'' (at_open k) = at_open (k - 1)"
  "n \<notin> set framing \<Longrightarrow> v_accept_name n (at_open k) = at_open k"
  "v_invalid (v_accept_name ''message_start'' (at_open k))"
  "k \<le> 0 \<Longrightarrow> v_invalid (v_accept_name ''content_block_stop'' (at_open k))"
  by (auto simp: v_accept_name_def at_open_def framing_cases)

lemma content_run: "content ns \<Longrightarrow> 0 \<le> k \<Longrightarrow> v_run (at_open k) ns = at_open k"
proof (induction arbitrary: k rule: content.induct)
  case (content_block ns ms)
  from content_block.prems content_block.IH(1) [of "k + 1"] content_block.IH(2) [of k] show ?case
    by (simp add: v_step_open)
qed (simp_all add: v_step_open)

lemma pending_event: "n \<notin> set framing \<Longrightarrow> pending k ns \<Longrightarrow> pending k (n # ns)"
  by (cases k) (auto intro: content.intros, metis append_Cons content_event)

lemma pending_block: "pending (Suc k) ns \<Longrightarrow> pending k (''content_block_start'' # ns)"
proof (cases k)
  case 0
  assume "pending (Suc k) ns"
  with 0 show ?thesis by (auto intro: content_block)
next
  case (Suc j)
  assume "pending (Suc k) ns"
  then obtain as bs where 1: "ns = as @ ''content_block_stop'' # bs" "content as" "pending k bs" by auto
  from 1(3) Suc obtain cs ds where 2: "bs = cs @ ''content_block_stop'' # ds" "content cs" "pending j ds" by auto
  have "content (''content_block_start'' # as @ ''content_block_stop'' # cs)"
    using 1(2) 2(2) by (rule content_block)
  with 1(1) 2 Suc show ?thesis by (simp only: pending.simps) (metis append_Cons append_assoc)
qed

lemma run_pending:
  "v_run (at_open (int k)) ns = at_open 0 \<Longrightarrow> ''message_stop'' \<notin> set ns \<Longrightarrow> pending k ns"
proof (induction ns arbitrary: k)
  case Nil
  then have "k = 0" by (simp add: at_open_def)
  then show ?case by (simp add: content_empty)
next
  case (Cons n ns)
  have valid: "\<not> v_invalid (v_accept_name n (at_open (int k)))"
    using Cons.prems(1) v_invalid_stays [of "v_accept_name n (at_open (int k))" ns] by (auto simp: at_open_def)
  consider "n = ''content_block_start''" | "n = ''content_block_stop''" | "n = ''message_start''" | "n \<notin> set framing"
    using Cons.prems(2) by (auto simp: framing_cases)
  then show ?case
  proof cases
    case 1
    with Cons.prems Cons.IH [of "Suc k"] show ?thesis
      by (intro pending_block [folded 1]) (simp add: v_step_open add.commute)
  next
    case 2
    with valid v_step_open(5) [of "int k"] obtain j where j: "k = Suc j" by (cases k) auto
    with 2 Cons.prems Cons.IH [of j] have "pending j ns" by (simp add: v_step_open)
    with 2 j content_empty show ?thesis by (simp only: pending.simps) (metis append_Nil)
  next
    case 3
    with valid v_step_open(4) show ?thesis by simp
  next
    case 4
    with Cons.prems Cons.IH [of k] show ?thesis by (intro pending_event) (simp_all add: v_step_open)
  qed
qed

lemma terminal_open: "terminal (v_accept_name ''message_stop'' (at_open k)) \<longleftrightarrow> k = 0"
  by (auto simp: terminal_def v_accept_name_def at_open_def)

lemma v_step_new:
  "v_accept_name ''message_start'' validator0 = at_open 0"
  "n \<notin> set framing \<Longrightarrow> n \<noteq> ''content_block_delta'' \<Longrightarrow> n \<noteq> ''message_delta'' \<Longrightarrow>
   v_accept_name n validator0 = validator0"
  "n \<in> set framing \<Longrightarrow> n \<noteq> ''message_start'' \<Longrightarrow> v_invalid (v_accept_name n validator0)"
  "n = ''content_block_delta'' \<or> n = ''message_delta'' \<Longrightarrow> v_invalid (v_accept_name n validator0)"
  by (auto simp: v_accept_name_def validator0_def at_open_def framing_cases)

lemma run_open_form:
  "\<not> v_invalid (v_run (at_open k) ns) \<Longrightarrow> 0 \<le> k \<Longrightarrow> ''message_stop'' \<notin> set ns \<Longrightarrow>
   \<exists>j\<ge>0. v_run (at_open k) ns = at_open j"
proof (induction ns arbitrary: k)
  case (Cons n ns)
  have valid: "\<not> v_invalid (v_accept_name n (at_open k))"
    using Cons.prems(1) v_invalid_stays by (auto simp: at_open_def)
  consider "n = ''content_block_start''" | "n = ''content_block_stop''" | "n = ''message_start''" | "n \<notin> set framing"
    using Cons.prems(3) by (auto simp: framing_cases)
  then show ?case
  proof cases
    case 1 with Cons.prems Cons.IH [of "k + 1"] show ?thesis by (simp add: v_step_open)
  next
    case 2
    with valid v_step_open(5) [of k] have "0 < k" by (cases "0 < k") auto
    with 2 Cons.prems Cons.IH [of "k - 1"] show ?thesis by (simp add: v_step_open)
  next
    case 3 with valid v_step_open(4) show ?thesis by simp
  next
    case 4 with Cons.prems Cons.IH [of k] show ?thesis by (simp add: v_step_open)
  qed
qed auto

lemma terminal_transcript:
  "''message_stop'' \<notin> set ns \<Longrightarrow> terminal (v_run validator0 (ns @ [''message_stop''])) \<Longrightarrow>
   transcript (ns @ [''message_stop''])"
proof (induction ns)
  case Nil
  then show ?case by (auto simp: terminal_def v_accept_name_def validator0_def)
next
  case (Cons n ns)
  have valid: "\<not> v_invalid (v_accept_name n validator0)"
    using Cons.prems(2) v_invalid_stays [of "v_accept_name n validator0" "ns @ [''message_stop'']"]
    by (auto simp: terminal_def)
  show ?case
  proof (cases "n = ''message_start''")
    case True
    with Cons.prems have t: "terminal (v_accept_name ''message_stop'' (v_run (at_open 0) ns))"
      by (simp add: v_step_new)
    then have "\<not> v_invalid (v_run (at_open 0) ns)"
      using v_invalid_stays [of "v_run (at_open 0) ns" "[''message_stop'']"] by (auto simp: terminal_def)
    with run_open_form [of 0 ns] Cons.prems(1) obtain j where "v_run (at_open 0) ns = at_open j" by auto
    with t terminal_open have "v_run (at_open (int 0)) ns = at_open 0" by simp
    from run_pending [OF this] Cons.prems(1) have "content ns" by simp
    with True show ?thesis unfolding transcript_def
      by (intro exI [of _ "[]"] exI [of _ ns]) simp
  next
    case False
    with valid v_step_new(3,4) have n: "n \<notin> set framing" "n \<noteq> ''content_block_delta''" "n \<noteq> ''message_delta''"
      by blast+
    with Cons have "transcript (ns @ [''message_stop''])" by (simp add: v_step_new)
    then obtain pre body where "ns @ [''message_stop''] = pre @ ''message_start'' # body @ [''message_stop'']"
      "\<forall>n \<in> set pre. n \<notin> set framing \<and> n \<noteq> ''content_block_delta'' \<and> n \<noteq> ''message_delta''" "content body"
      by (auto simp: transcript_def)
    with n show ?thesis unfolding transcript_def
      by (intro exI [of _ "n # pre"] exI [of _ body]) simp
  qed
qed

lemma transcript_terminal: "transcript ns \<Longrightarrow> terminal (v_run validator0 ns)"
proof -
  assume "transcript ns"
  then obtain pre body where ns: "ns = pre @ ''message_start'' # body @ [''message_stop'']"
    "\<forall>n \<in> set pre. n \<notin> set framing \<and> n \<noteq> ''content_block_delta'' \<and> n \<noteq> ''message_delta''" "content body"
    by (auto simp: transcript_def)
  from ns(2) have "v_run validator0 pre = validator0" by (induction pre) (simp_all add: v_step_new)
  with ns content_run [OF ns(3), of 0] show ?thesis by (simp add: v_step_new terminal_open)
qed

lemma v_run_events: "foldl streamValidator_accept v evs = v_run v (map ev_name evs)"
  by (induction evs arbitrary: v) (simp_all add: streamValidator_accept_def)

text \<open>
  C31. A stream is complete at its first \<open>message_stop\<close> exactly when its event names form a
  message: nothing of a message before \<open>message_start\<close>, every content block opened and
  closed, no second start.
\<close>

theorem terminal_iff_transcript:
  assumes "\<forall>ev \<in> set evs. ev_name ev \<noteq> ''message_stop''" "ev_name last_ev = ''message_stop''"
  shows "terminal (foldl streamValidator_accept validator0 (evs @ [last_ev])) \<longleftrightarrow>
    transcript (map ev_name (evs @ [last_ev]))"
proof -
  have "''message_stop'' \<notin> set (map ev_name evs)" using assms(1) by auto
  with assms(2) terminal_transcript [of "map ev_name evs"] transcript_terminal show ?thesis
    by (auto simp only: v_run_events map_append list.map)
qed

definition named :: "bytes \<Rightarrow> event" where
  "named n = \<lparr>ev_name = n, ev_data = [], ev_raw = []\<rparr>"

theorem terminal_iff_transcript_witness:
  "transcript [''ping'', ''message_start'', ''content_block_start'', ''content_block_delta'',
     ''content_block_stop'', ''message_delta'', ''message_stop'']"
  using terminal_iff_transcript
    [of "map named [''ping'', ''message_start'', ''content_block_start'', ''content_block_delta'',
           ''content_block_stop'', ''message_delta'']" "named ''message_stop''"]
  by (simp add: named_def terminal_def streamValidator_accept_def v_accept_name_def validator0_def)

end
