(* ===== verification/Tool_Replay.thy ===== *)
theory Tool_Replay
  imports Anthropic_Stream
begin

text \<open>
  Replaying a buffered Anthropic stream (sse.go): re-encoded frames (\<open>encodeSSEFrame\<close>),
  the tool-input normalizer (\<open>toolJSONReplayNormalizer\<close>), which delivers each tool
  block's input as one delta, the usage backfill, and the replay loop.

  \<open>renum\<close> is the text \<open>encoding/json\<close> prints for a number it decoded to a float64;
  \<open>None\<close> is a number outside that range, which does not decode.
\<close>

section \<open>Re-encoded frames\<close>

definition append_int :: "int \<Rightarrow> bytes" where
  "append_int n = (if n = 0 then ''0'' else if n < 0 then CHR ''-'' # itoa_loop (- n) [] else itoa_loop n [])"

definition encodeSSEFrame :: "bytes \<Rightarrow> json \<Rightarrow> bytes" where
  "encodeSSEFrame name payload = ''event: '' @ name @ [LF] @ ''data: '' @ render payload @ [LF, LF]"

definition tool_delta_payload :: "int \<Rightarrow> bytes \<Rightarrow> json" where
  "tool_delta_payload index partial =
     JObj [(''delta'', JObj [(''partial_json'', json_string partial), (''type'', JStr ''input_json_delta'')]),
           (''index'', JNum (append_int index)),
           (''type'', JStr ''content_block_delta'')]"

definition toolInputDeltaEvent :: "int \<Rightarrow> bytes \<Rightarrow> bytes" where
  "toolInputDeltaEvent index partial = encodeSSEFrame ''content_block_delta'' (tool_delta_payload index partial)"

section \<open>The tool-input normalizer\<close>

record toolReplayBlock =
  rb_jsonInput :: bool
  rb_sawInputDelta :: bool
  rb_input :: bytes
  rb_rawDeltas :: "bytes list"
  rb_rawBytes :: int

record normalizer =
  n_blocks :: "toolReplayBlock blocks"
  n_retained :: int
  n_held :: "bytes list"
  n_heldBytes :: int

definition norm0 :: normalizer where
  "norm0 = \<lparr>n_blocks = [], n_retained = 0, n_held = [], n_heldBytes = 0\<rparr>"

definition replayBlock0 :: toolReplayBlock where
  "replayBlock0 = \<lparr>rb_jsonInput = True, rb_sawInputDelta = False, rb_input = [], rb_rawDeltas = [], rb_rawBytes = 0\<rparr>"

definition errInvalidToolJSON :: go_error where
  "errInvalidToolJSON = OtherError ''invalid tool input JSON'' False False"

definition errJSON :: go_error where
  "errJSON = OtherError ''json: cannot unmarshal'' False False"

definition normalizeToolJSONEnabled :: "config \<Rightarrow> bool" where
  "normalizeToolJSONEnabled cfg = (validateJSON cfg \<and> normalizeToolJSON cfg)"

definition takeBlock :: "int \<Rightarrow> normalizer \<Rightarrow> normalizer \<times> toolReplayBlock option" where
  "takeBlock index n =
     (case blk_get (n_blocks n) index of
        None \<Rightarrow> (n, None)
      | Some b \<Rightarrow> (n\<lparr>n_retained := n_retained n - rb_rawBytes b, n_blocks := blk_del index (n_blocks n)\<rparr>, Some b))"

definition norm_judge ::
    "config \<Rightarrow> event \<Rightarrow> streamPayload \<Rightarrow> bytes \<Rightarrow> normalizer \<Rightarrow> normalizer \<times> (go_error + bytes list)" where
  "norm_judge cfg ev p raw n =
     (case judgeTruncatedToolInput ev p of
        truncWait \<Rightarrow>
          if int (length raw) > maxResponseBytes cfg - n_retained n then (n, Inl errTooLarge)
          else (n\<lparr>n_held := n_held n @ [raw], n_retained := n_retained n + int (length raw),
                  n_heldBytes := n_heldBytes n + int (length raw)\<rparr>, Inr [])
      | truncExcused \<Rightarrow>
          (n\<lparr>n_held := [], n_retained := n_retained n - n_heldBytes n, n_heldBytes := 0\<rparr>,
           Inr (n_held n @ [raw]))
      | truncReject \<Rightarrow> (n, Inl errInvalidToolJSON))"

definition norm_start :: "streamPayload \<Rightarrow> bytes \<Rightarrow> normalizer \<Rightarrow> normalizer \<times> (go_error + bytes list)" where
  "norm_start p raw n =
     ((if blockUsesInputJSON (pl_cbType p)
       then (case takeBlock (pl_index p) n of
               (n', _) \<Rightarrow> n'\<lparr>n_blocks := blk_put (pl_index p) replayBlock0 (n_blocks n')\<rparr>)
       else n), Inr [raw])"

definition norm_delta ::
    "config \<Rightarrow> streamPayload \<Rightarrow> bytes \<Rightarrow> normalizer \<Rightarrow> normalizer \<times> (go_error + bytes list)" where
  "norm_delta cfg p raw n =
     (if pl_dType p \<noteq> ''input_json_delta'' then (n, Inr [raw])
      else if int (length raw) > maxResponseBytes cfg - n_retained n then (n, Inl errTooLarge)
      else let b0 = (case blk_get (n_blocks n) (pl_index p) of None \<Rightarrow> replayBlock0 | Some b \<Rightarrow> b);
               b1 = b0\<lparr>rb_sawInputDelta := True\<rparr>;
               b2 = (if pl_partial p \<noteq> [] then b1\<lparr>rb_rawDeltas := [], rb_input := rb_input b1 @ pl_partial p\<rparr>
                     else if rb_input b1 = [] then b1\<lparr>rb_rawDeltas := rb_rawDeltas b1 @ [raw]\<rparr>
                     else b1);
               b3 = b2\<lparr>rb_rawBytes := rb_rawBytes b2 + int (length raw)\<rparr>
           in (n\<lparr>n_blocks := blk_put (pl_index p) b3 (n_blocks n),
                 n_retained := n_retained n + int (length raw)\<rparr>, Inr []))"

definition norm_stop ::
    "config \<Rightarrow> streamPayload \<Rightarrow> bytes \<Rightarrow> normalizer \<Rightarrow> normalizer \<times> (go_error + bytes list)" where
  "norm_stop cfg p raw n0 =
     (case takeBlock (pl_index p) n0 of
        (n, None) \<Rightarrow> (n, Inr [raw])
      | (n, Some b) \<Rightarrow>
          if \<not> rb_jsonInput b \<or> \<not> rb_sawInputDelta b then (n, Inr [raw])
          else if rb_input b = [] then (n, Inr (rb_rawDeltas b @ [raw]))
          else let coalesced = toolInputDeltaEvent (pl_index p) (rb_input b)
               in if \<not> validJSONObject (rb_input b) then
                    (let heldBytes = int (length coalesced) + int (length raw)
                     in if heldBytes > maxResponseBytes cfg - n_retained n then (n, Inl errTooLarge)
                        else (n\<lparr>n_held := [coalesced, raw], n_heldBytes := heldBytes,
                                n_retained := n_retained n + heldBytes\<rparr>, Inr []))
                  else (n, Inr [coalesced, raw]))"

definition norm_accept ::
    "config \<Rightarrow> normalizer \<Rightarrow> event \<Rightarrow> bytes \<Rightarrow> normalizer \<times> (go_error + bytes list)" where
  "norm_accept cfg n ev raw =
     (if \<not> normalizeToolJSONEnabled cfg then (n, Inr [raw])
      else case (if ev_data ev = [] then Some payload0 else payload_of ev) of
             None \<Rightarrow> (n, Inl errJSON)
           | Some p \<Rightarrow>
               if n_held n \<noteq> [] then norm_judge cfg ev p raw n
               else if ev_data ev = [] then (n, Inr [raw])
               else if pl_type p = ''content_block_start'' then norm_start p raw n
               else if pl_type p = ''content_block_delta'' then norm_delta cfg p raw n
               else if pl_type p = ''content_block_stop'' then norm_stop cfg p raw n
               else (n, Inr [raw]))"

text \<open>The outputs over a sequence of events; the first error stops it.\<close>

fun norm_run :: "config \<Rightarrow> normalizer \<Rightarrow> event list \<Rightarrow> normalizer \<times> bytes list \<times> go_error option" where
  "norm_run cfg n [] = (n, [], None)"
| "norm_run cfg n (ev # evs) =
     (case norm_accept cfg n ev (ev_raw ev) of
        (n', Inl e) \<Rightarrow> (n', [], Some e)
      | (n', Inr out) \<Rightarrow> (case norm_run cfg n' evs of (n'', outs, e) \<Rightarrow> (n'', out @ outs, e)))"

section \<open>The byte account of the normalizer\<close>

definition norm_inv :: "config \<Rightarrow> normalizer \<Rightarrow> bool" where
  "norm_inv cfg n =
     (blk_inv (n_blocks n) \<and> (\<forall>k b. blk_get (n_blocks n) k = Some b \<longrightarrow> 0 \<le> rb_rawBytes b) \<and>
      n_heldBytes n = int (length (concat (n_held n))) \<and>
      n_retained n = blk_total rb_rawBytes (n_blocks n) + n_heldBytes n \<and>
      n_retained n \<le> maxResponseBytes cfg)"

lemma takeBlock_inv: "norm_inv cfg n \<Longrightarrow> norm_inv cfg (fst (takeBlock k n))"
proof (cases "blk_get (n_blocks n) k")
  case (Some b)
  assume inv: "norm_inv cfg n"
  with Some have b: "0 \<le> rb_rawBytes b" by (auto simp: norm_inv_def)
  from inv have "n_retained n - rb_rawBytes b \<le> maxResponseBytes cfg"
    unfolding norm_inv_def using b by linarith
  with inv Some show ?thesis
    unfolding norm_inv_def takeBlock_def
    by (simp add: bm.inv_del bm.total_del bm.get_del)
qed (simp add: takeBlock_def)

lemma norm_judge_inv: "norm_inv cfg n \<Longrightarrow> norm_inv cfg (fst (norm_judge cfg ev p raw n))"
  by (auto simp: norm_inv_def norm_judge_def split: truncVerdict.splits)

lemma norm_start_inv: "norm_inv cfg n \<Longrightarrow> norm_inv cfg (fst (norm_start p raw n))"
  using takeBlock_inv [of cfg n "pl_index p"]
  by (auto simp: norm_inv_def norm_start_def takeBlock_def replayBlock0_def bm.inv_put bm.get_put bm.total_put
      bm.inv_del bm.get_del bm.total_del split: option.splits if_splits)

lemma norm_delta_inv: "norm_inv cfg n \<Longrightarrow> norm_inv cfg (fst (norm_delta cfg p raw n))"
  by (auto simp: norm_inv_def norm_delta_def Let_def replayBlock0_def bm.inv_put bm.get_put bm.total_put
      split: option.splits)

lemma takeBlock_held [simp]: "n_held (fst (takeBlock k n)) = n_held n" "n_heldBytes (fst (takeBlock k n)) = n_heldBytes n"
  by (simp_all add: takeBlock_def split: option.splits)

lemma norm_stop_inv:
  assumes "norm_inv cfg n0" "n_held n0 = []"
  shows "norm_inv cfg (fst (norm_stop cfg p raw n0))"
proof -
  obtain n ob where n: "takeBlock (pl_index p) n0 = (n, ob)" by force
  with takeBlock_inv [OF assms(1), of "pl_index p"] takeBlock_held [of "pl_index p" n0] assms(2)
  have inv: "norm_inv cfg n" "n_held n = []" by simp_all
  then show ?thesis
    by (cases ob) (auto simp: norm_stop_def n Let_def norm_inv_def)
qed

lemma norm_accept_inv: "norm_inv cfg n \<Longrightarrow> norm_inv cfg (fst (norm_accept cfg n ev raw))"
  by (auto simp: norm_accept_def norm_judge_inv norm_start_inv norm_delta_inv norm_stop_inv split: option.splits)

lemma norm_run_inv: "norm_inv cfg n \<Longrightarrow> norm_inv cfg (fst (norm_run cfg n evs))"
proof (induction evs arbitrary: n)
  case (Cons ev evs)
  from norm_accept_inv [OF Cons.prems, of ev "ev_raw ev"]
    Cons.IH [of "fst (norm_accept cfg n ev (ev_raw ev))"] show ?case
    by (auto simp: case_prod_beta split: sum.splits)
qed simp

text \<open>
  The normalizer withholds no more wire bytes than the response cap, whatever the
  stream: its account is the bytes of the deltas of the open tool blocks plus the frames
  held for a verdict.
\<close>

theorem normalizer_account:
  assumes "valid_config cfg"
  shows "norm_inv cfg (fst (norm_run cfg norm0 evs))"
  using assms by (intro norm_run_inv) (simp add: norm_inv_def norm0_def valid_config_def)

theorem normalizer_account_witness:
  "n_retained (fst (norm_run example_config norm0
     [\<lparr>ev_name = ''content_block_delta'', ev_data = ''x'', ev_raw = ''data''\<rparr>])) \<le> 4000"
  using normalizer_account [OF example_config_valid,
      of "[\<lparr>ev_name = ''content_block_delta'', ev_data = ''x'', ev_raw = ''data''\<rparr>]"]
  by (simp add: norm_inv_def example_config_def)

section \<open>What the validator accepted, the normalizer replays\<close>

text \<open>The validator's blocks and the normalizer's hold the same input.\<close>

definition same_block :: "toolJSONBlock option \<Rightarrow> toolReplayBlock option \<Rightarrow> bool" where
  "same_block x y =
     (case (x, y) of
        (None, None) \<Rightarrow> True
      | (Some b, Some r) \<Rightarrow> tb_jsonInput b = rb_jsonInput r \<and> tb_sawInputDelta b = rb_sawInputDelta r \<and>
                            tb_input b = rb_input r
      | _ \<Rightarrow> False)"

lemma same_block_simps [simp]:
  "same_block None y \<longleftrightarrow> y = None"
  "same_block (Some b) y \<longleftrightarrow> (\<exists>r. y = Some r \<and> tb_jsonInput b = rb_jsonInput r \<and>
     tb_sawInputDelta b = rb_sawInputDelta r \<and> tb_input b = rb_input r)"
  by (auto simp: same_block_def split: option.splits)

definition in_step :: "toolJSONValidator \<Rightarrow> normalizer \<Rightarrow> bool" where
  "in_step v n =
     (blk_inv (tv_blocks v) \<and> blk_inv (n_blocks n) \<and>
      (\<forall>k. same_block (blk_get (tv_blocks v) k) (blk_get (n_blocks n) k)) \<and>
      (tv_truncated v \<longleftrightarrow> n_held n \<noteq> []))"

text \<open>A bare event (no data, and not a ping) while a verdict is pending is the one difference.\<close>

definition bare_while_held :: "toolJSONValidator \<Rightarrow> event \<Rightarrow> bool" where
  "bare_while_held v ev = (tv_truncated v \<and> ev_data ev = [] \<and> ev_name ev \<noteq> ''ping'')"

definition replays :: "toolJSONValidator \<Rightarrow> normalizer \<times> (go_error + bytes list) \<Rightarrow> bool" where
  "replays v x = (case snd x of Inl e \<Rightarrow> e = errTooLarge | Inr out \<Rightarrow> in_step v (fst x))"

lemma start_in_step:
  assumes "in_step v n" "tv_start p v = (v', None)" "n_held n = []"
  shows "replays v' (norm_start p raw n)"
proof (cases "blk_get (n_blocks n) (pl_index p)")
  case None
  with assms show ?thesis
    by (auto simp: in_step_def replays_def tv_start_def norm_start_def takeBlock_def toolBlock0_def
        replayBlock0_def bm.get_put bm.inv_put split: option.splits if_splits)
next
  case (Some r)
  with assms show ?thesis
    by (auto simp: in_step_def replays_def tv_start_def norm_start_def takeBlock_def toolBlock0_def
        replayBlock0_def bm.get_put bm.inv_put bm.get_del bm.inv_del split: option.splits if_splits)
qed

lemma delta_in_step:
  assumes "in_step v n" "tv_delta cfg p v = (v', None)" "n_held n = []"
  shows "replays v' (norm_delta cfg p raw n)"
proof -
  from assms(1) have "same_block (blk_get (tv_blocks v) (pl_index p)) (blk_get (n_blocks n) (pl_index p))"
    by (simp add: in_step_def)
  with assms show ?thesis
    by (cases "blk_get (tv_blocks v) (pl_index p)")
      (auto simp: in_step_def replays_def tv_delta_def norm_delta_def Let_def toolBlock0_def replayBlock0_def
        bm.get_put bm.inv_put split: if_splits)
qed

lemma stop_in_step:
  assumes "in_step v n" "\<not> tv_truncated v"
  shows "replays (tv_stop p v) (norm_stop cfg p raw n)"
proof -
  from assms(1) have "same_block (blk_get (tv_blocks v) (pl_index p)) (blk_get (n_blocks n) (pl_index p))"
    by (simp add: in_step_def)
  with assms show ?thesis
    by (cases "blk_get (tv_blocks v) (pl_index p)")
      (auto simp: in_step_def replays_def tv_stop_def norm_stop_def takeBlock_def Let_def bm.get_del bm.inv_del)
qed

lemma accept_in_step:
  assumes step: "in_step v n" and ok: "toolVal_accept cfg v ev = (v', None)"
    and bare: "\<not> bare_while_held v ev" and on: "normalizeToolJSONEnabled cfg"
  shows "replays v' (norm_accept cfg n ev raw)"
proof (cases "ev_data ev = []")
  case True
  with ok have "v' = v" by (simp add: toolVal_accept_def)
  with True step bare on show ?thesis
    by (auto simp: norm_accept_def norm_judge_def judgeTruncatedToolInput_def bare_while_held_def replays_def
        in_step_def)
next
  case False
  with ok obtain p where p: "payload_of ev = Some p" by (auto simp: toolVal_accept_def split: option.splits)
  show ?thesis
  proof (cases "tv_truncated v")
    case True
    with step have "n_held n \<noteq> []" by (simp add: in_step_def)
    with True False p ok step on show ?thesis
      by (auto simp: norm_accept_def norm_judge_def toolVal_accept_def replays_def in_step_def
          split: truncVerdict.splits if_splits)
  next
    case nt: False
    with step have held: "n_held n = []" by (simp add: in_step_def)
    from False nt p held on step ok start_in_step [OF step _ held] delta_in_step [OF step _ held]
      stop_in_step [OF step nt]
    show ?thesis
      by (auto simp: norm_accept_def toolVal_accept_def replays_def in_step_def split: if_splits)
  qed
qed

text \<open>Where a bare event follows a cut-off tool block.\<close>

fun no_bare :: "config \<Rightarrow> toolJSONValidator \<Rightarrow> event list \<Rightarrow> bool" where
  "no_bare cfg v [] = True"
| "no_bare cfg v (ev # evs) =
     (\<not> bare_while_held v ev \<and> no_bare cfg (fst (toolVal_accept cfg v ev)) evs)"

lemma run_in_step:
  "in_step v n \<Longrightarrow> toolVal_run cfg v evs = (v', None) \<Longrightarrow> no_bare cfg v evs \<Longrightarrow>
   normalizeToolJSONEnabled cfg \<Longrightarrow> norm_run cfg n evs = (n', outs, e) \<Longrightarrow>
   e = None \<and> in_step v' n' \<or> e = Some errTooLarge"
proof (induction evs arbitrary: v n outs)
  case (Cons ev evs)
  from Cons.prems(2) obtain v1 where v1: "toolVal_accept cfg v ev = (v1, None)" "toolVal_run cfg v1 evs = (v', None)"
    by (auto split: prod.splits option.splits)
  from accept_in_step [OF Cons.prems(1) v1(1), of "ev_raw ev"] Cons.prems(3,4)
  have r: "replays v1 (norm_accept cfg n ev (ev_raw ev))" by simp
  show ?case
  proof (cases "norm_accept cfg n ev (ev_raw ev)")
    case (Pair n1 res)
    show ?thesis
    proof (cases res)
      case (Inl x)
      with Pair r Cons.prems(5) show ?thesis by (simp add: replays_def)
    next
      case (Inr out)
      with Pair r have "in_step v1 n1" by (simp add: replays_def)
      with Cons.IH [of v1 n1] Cons.prems v1 Pair Inr show ?thesis by (auto split: prod.splits)
    qed
  qed
qed simp

text \<open>
  C20. A stream whose tool input the buffering path accepted, with no bare event while a
  cut-off tool block waits for its excuse, is replayed by the normalizer: it never calls the
  same input invalid, so a commit can only fail on the size cap.
\<close>

theorem validated_stream_replays:
  assumes "toolVal_run cfg toolVal0 evs = (v, None)" "no_bare cfg toolVal0 evs"
    and "normalizeToolJSONEnabled cfg" "norm_run cfg norm0 evs = (n, outs, e)"
  shows "e = None \<or> e = Some errTooLarge"
  using run_in_step [OF _ assms(1-4)] by (auto simp: in_step_def toolVal0_def norm0_def)

definition ev_json :: "bytes \<Rightarrow> json \<Rightarrow> event" where
  "ev_json name j = \<lparr>ev_name = name, ev_data = render j, ev_raw = encodeSSEFrame name j\<rparr>"

definition cut_delta :: event where
  "cut_delta = ev_json ''content_block_delta'' (tool_delta_payload 0 ''{'')"

definition block_stop :: event where
  "block_stop = ev_json ''content_block_stop''
     (JObj [(''type'', JStr ''content_block_stop''), (''index'', JNum ''0'')])"

definition max_tokens_delta :: event where
  "max_tokens_delta = ev_json ''message_delta''
     (JObj [(''type'', JStr ''message_delta''), (''delta'', JObj [(''stop_reason'', JStr ''max_tokens'')])])"

definition bare_event :: event where
  "bare_event = \<lparr>ev_name = [], ev_data = [], ev_raw = ''id: 7'' @ [LF, LF]\<rparr>"

lemma example_payloads:
  "payload_of cut_delta = Some (payload0\<lparr>pl_type := ''content_block_delta'', pl_dType := ''input_json_delta'', pl_partial := ''{''\<rparr>)"
  "payload_of block_stop = Some (payload0\<lparr>pl_type := ''content_block_stop''\<rparr>)"
  "payload_of max_tokens_delta = Some (payload0\<lparr>pl_type := ''message_delta'', pl_stop := ''max_tokens''\<rparr>)"
  by code_simp+

lemma example_invalid: "\<not> validJSONObject ''{''"
  by code_simp

lemma example_nonempty: "ev_data cut_delta \<noteq> []" "ev_data block_stop \<noteq> []" "ev_data max_tokens_delta \<noteq> []"
  "ev_name cut_delta = ''content_block_delta''" "ev_name block_stop = ''content_block_stop''"
  "ev_name max_tokens_delta = ''message_delta''" "length (ev_raw cut_delta) < 200"
  "length (ev_raw block_stop) < 200" "length (toolInputDeltaEvent 0 ''{'') < 200"
  by code_simp+

lemmas example_events = example_payloads example_invalid example_nonempty

lemma example_validated:
  "\<exists>v. toolVal_run example_config toolVal0 [cut_delta, block_stop, max_tokens_delta] = (v, None) \<and>
     no_bare example_config toolVal0 [cut_delta, block_stop, max_tokens_delta]"
  by (simp add: toolVal_accept_def example_events payload0_def tv_delta_def tv_stop_def Let_def toolVal0_def
      toolBlock0_def bm.get_put bare_while_held_def judgeTruncatedToolInput_def example_config_def)

theorem validated_stream_replays_witness:
  "case norm_run example_config norm0 [cut_delta, block_stop, max_tokens_delta] of
     (n, outs, e) \<Rightarrow> e = None \<or> e = Some errTooLarge"
proof -
  obtain n outs e where r: "norm_run example_config norm0 [cut_delta, block_stop, max_tokens_delta] = (n, outs, e)"
    by (cases "norm_run example_config norm0 [cut_delta, block_stop, max_tokens_delta]")
  obtain v where v: "toolVal_run example_config toolVal0 [cut_delta, block_stop, max_tokens_delta] = (v, None)"
    "no_bare example_config toolVal0 [cut_delta, block_stop, max_tokens_delta]"
    using example_validated by blast
  have "normalizeToolJSONEnabled example_config" by (simp add: normalizeToolJSONEnabled_def example_config_def)
  from validated_stream_replays [OF v this r] r show ?thesis by simp
qed

lemma bare_refused:
  assumes "in_step v n" "bare_while_held v ev" "normalizeToolJSONEnabled cfg"
  shows "snd (norm_accept cfg n ev raw) = Inl errInvalidToolJSON"
  using assms
  by (simp add: in_step_def bare_while_held_def norm_accept_def norm_judge_def judgeTruncatedToolInput_def payload0_def)

lemma bare_run:
  "in_step v n \<Longrightarrow> toolVal_run cfg v evs = (v', None) \<Longrightarrow> \<not> no_bare cfg v evs \<Longrightarrow>
   normalizeToolJSONEnabled cfg \<Longrightarrow> norm_run cfg n evs = (n', outs, e) \<Longrightarrow>
   e = Some errInvalidToolJSON \<or> e = Some errTooLarge"
proof (induction evs arbitrary: v n outs)
  case (Cons ev evs)
  from Cons.prems(2) obtain v1 where v1: "toolVal_accept cfg v ev = (v1, None)" "toolVal_run cfg v1 evs = (v', None)"
    by (auto split: prod.splits option.splits)
  obtain n1 res where a: "norm_accept cfg n ev (ev_raw ev) = (n1, res)" by force
  show ?case
  proof (cases "bare_while_held v ev")
    case True
    from bare_refused [OF Cons.prems(1) this Cons.prems(4), of "ev_raw ev"] a Cons.prems(5) show ?thesis by simp
  next
    case False
    from accept_in_step [OF Cons.prems(1) v1(1) False Cons.prems(4), of "ev_raw ev"] a
    have r: "replays v1 (n1, res)" by simp
    show ?thesis
    proof (cases res)
      case (Inl x)
      with r a Cons.prems(5) show ?thesis by (simp add: replays_def)
    next
      case (Inr out)
      with r have "in_step v1 n1" by (simp add: replays_def)
      with Cons.IH [of v1 n1] Cons.prems v1 a Inr False show ?thesis by (auto split: prod.splits)
    qed
  qed
qed simp

text \<open>
  C39. The exception is real, for every stream: if the buffering path accepts a stream with a
  bare event (no data and not a ping, such as an \<open>id:\<close> line alone, which clients ignore)
  between a cut-off tool block and the \<open>message_delta\<close> that excuses it, the normalizer never
  completes it. Unless the size cap stops it first, it calls the input the buffering path
  accepted invalid, when the response has already been committed.
\<close>

theorem bare_event_breaks_replay:
  assumes "toolVal_run cfg toolVal0 evs = (v, None)" "\<not> no_bare cfg toolVal0 evs"
    and "normalizeToolJSONEnabled cfg" "norm_run cfg norm0 evs = (n, outs, e)"
  shows "e = Some errInvalidToolJSON \<or> e = Some errTooLarge"
  using bare_run [OF _ assms] by (auto simp: in_step_def toolVal0_def norm0_def)

lemma example_bare:
  "snd (toolVal_run example_config toolVal0 [cut_delta, block_stop, bare_event, max_tokens_delta]) = None"
  "\<not> no_bare example_config toolVal0 [cut_delta, block_stop, bare_event, max_tokens_delta]"
  "validateSSEEventShape bare_event = None"
  by (simp_all add: toolVal_accept_def example_events payload0_def tv_delta_def tv_stop_def Let_def toolVal0_def
      toolBlock0_def bm.get_put bare_while_held_def judgeTruncatedToolInput_def example_config_def bare_event_def
      validateSSEEventShape_def)

theorem bare_event_breaks_replay_witness:
  "validateSSEEventShape bare_event = None \<and>
   snd (toolVal_run example_config toolVal0 [cut_delta, block_stop, bare_event, max_tokens_delta]) = None \<and>
   snd (snd (norm_run example_config norm0 [cut_delta, block_stop, bare_event, max_tokens_delta])) \<noteq> None"
proof -
  obtain n outs e where r: "norm_run example_config norm0 [cut_delta, block_stop, bare_event, max_tokens_delta] = (n, outs, e)"
    by (cases "norm_run example_config norm0 [cut_delta, block_stop, bare_event, max_tokens_delta]")
  obtain v where v: "toolVal_run example_config toolVal0 [cut_delta, block_stop, bare_event, max_tokens_delta] = (v, None)"
    using example_bare(1) by (metis prod.collapse)
  have "normalizeToolJSONEnabled example_config" by (simp add: normalizeToolJSONEnabled_def example_config_def)
  from bare_event_breaks_replay [OF v example_bare(2) this r] r v example_bare(3) show ?thesis by auto
qed

end
