(* ===== verification/Replay.thy ===== *)
theory Replay
  imports Tool_Replay "HOL-Library.List_Lexorder" "HOL-Library.Char_ord"
begin

text \<open>
  Replaying the spool to the client (sse.go): the usage backfill of \<open>message_start\<close>, which
  decodes an event into \<open>map[string]any\<close> and re-encodes it, the replay loop over 32 KiB
  reads, and the choices \<open>replayWithUsage\<close> and \<open>replayWithNormalizer\<close>.
\<close>

section \<open>Values of type any\<close>

text \<open>What \<open>json.Unmarshal\<close> builds in an \<open>any\<close>; map keys and strings are decoded.\<close>

datatype any =
    ANull
  | ABool bool
  | ANum bytes
  | AStr bytes
  | AArr "any list"
  | AMap "(bytes \<times> any) list"

text \<open>A Go map from decoded members: a later member replaces an earlier one.\<close>

definition go_map :: "(bytes \<times> 'v) list \<Rightarrow> (bytes \<times> 'v) list" where
  "go_map ms = fold (\<lambda>(k, v). AList.update k v) ms []"

fun all_some :: "'a option list \<Rightarrow> 'a list option" where
  "all_some [] = Some []"
| "all_some (None # xs) = None"
| "all_some (Some x # xs) = map_option ((#) x) (all_some xs)"

fun any_of :: "(bytes \<Rightarrow> bytes option) \<Rightarrow> json \<Rightarrow> any option" where
  "any_of renum JNull = Some ANull"
| "any_of renum (JBool b) = Some (ABool b)"
| "any_of renum (JNum t) = map_option ANum (renum t)"
| "any_of renum (JStr b) = Some (AStr (unquote b))"
| "any_of renum (JArr vs) = map_option AArr (all_some (map (any_of renum) vs))"
| "any_of renum (JObj ms) =
     map_option (\<lambda>vs. AMap (go_map (zip (map (\<lambda>(k, v). unquote k) ms) vs)))
       (all_some (map (\<lambda>(k, v). any_of renum v) ms))"

text \<open>The encoder sorts the keys of a map by their bytes.\<close>

fun any_json :: "any \<Rightarrow> json" where
  "any_json ANull = JNull"
| "any_json (ABool b) = JBool b"
| "any_json (ANum t) = JNum t"
| "any_json (AStr s) = json_string s"
| "any_json (AArr vs) = JArr (map any_json vs)"
| "any_json (AMap ms) =
     JObj (map (\<lambda>(k, j). (quote False k, j)) (sort_key fst (map (\<lambda>(k, v). (k, any_json v)) ms)))"

text \<open>\<open>json.Unmarshal\<close> into \<open>map[string]any\<close>; null gives the nil map.\<close>

definition any_root :: "(bytes \<Rightarrow> bytes option) \<Rightarrow> bytes \<Rightarrow> (bytes \<times> any) list option" where
  "any_root renum data =
     (case json_parse data of
        None \<Rightarrow> None
      | Some j \<Rightarrow>
          (case any_of renum j of Some (AMap ms) \<Rightarrow> Some ms | Some ANull \<Rightarrow> Some [] | _ \<Rightarrow> None))"

fun as_map :: "any option \<Rightarrow> (bytes \<times> any) list option" where
  "as_map (Some (AMap ms)) = Some ms"
| "as_map _ = None"

definition any_int :: "int \<Rightarrow> any" where
  "any_int n = ANum (append_int n)"

section \<open>Backfill\<close>

definition backfillMessageStartUsage ::
    "(bytes \<Rightarrow> bytes option) \<Rightarrow> captureStats \<Rightarrow> event \<Rightarrow> bytes option" where
  "backfillMessageStartUsage renum st ev =
     (case any_root renum (ev_data ev) of
        None \<Rightarrow> None
      | Some root \<Rightarrow>
          (case as_map (map_of root ''message'') of
             None \<Rightarrow> None
           | Some msg \<Rightarrow>
               let usage0 = (case as_map (map_of msg ''usage'') of None \<Rightarrow> [] | Some u \<Rightarrow> u);
                   usage = AList.update ''cache_read_input_tokens'' (any_int (st_cacheReadTok st))
                             (AList.update ''cache_creation_input_tokens'' (any_int (st_cacheCreationTok st))
                               (AList.update ''input_tokens'' (any_int (st_inputTok st)) usage0));
                   root' = AList.update ''message'' (AMap (AList.update ''usage'' (AMap usage) msg)) root
               in Some (encodeSSEFrame ''message_start'' (any_json (AMap root')))))"

definition input_usage_keys :: "bytes list" where
  "input_usage_keys = [''input_tokens'', ''cache_creation_input_tokens'', ''cache_read_input_tokens'']"

definition stripMessageDeltaInputUsage :: "(bytes \<Rightarrow> bytes option) \<Rightarrow> event \<Rightarrow> bytes option" where
  "stripMessageDeltaInputUsage renum ev =
     (case any_root renum (ev_data ev) of
        None \<Rightarrow> None
      | Some root \<Rightarrow>
          (case as_map (map_of root ''usage'') of
             None \<Rightarrow> None
           | Some usage \<Rightarrow>
               if \<not> list_ex (\<lambda>k. map_of usage k \<noteq> None) input_usage_keys then None
               else let usage' = fold AList.delete input_usage_keys usage
                    in Some (encodeSSEFrame ''message_delta''
                         (any_json (AMap (AList.update ''usage'' (AMap usage') root))))))"

section \<open>The replay loop\<close>

text \<open>The state of the loop: whether \<open>message_start\<close> was patched, the normalizer, the client.\<close>

type_synonym rstate = "bool \<times> normalizer \<times> downstream"

definition replay_raw ::
    "(bytes \<Rightarrow> bytes option) \<Rightarrow> captureStats option \<Rightarrow> bool \<Rightarrow> event \<Rightarrow> bool \<times> bytes" where
  "replay_raw renum bf patched ev =
     (case bf of
        Some st \<Rightarrow>
          if \<not> patched \<and> ev_name ev = ''message_start'' then
            (case backfillMessageStartUsage renum st ev of
               Some p \<Rightarrow> (True, p) | None \<Rightarrow> (patched, ev_raw ev))
          else if patched \<and> ev_name ev = ''message_delta'' then
            (patched, case stripMessageDeltaInputUsage renum ev of Some p \<Rightarrow> p | None \<Rightarrow> ev_raw ev)
          else (patched, ev_raw ev)
      | None \<Rightarrow> (patched, ev_raw ev))"

fun replay_events ::
    "(bytes \<Rightarrow> bytes option) \<Rightarrow> config \<Rightarrow> captureStats option \<Rightarrow> rstate \<Rightarrow> event list \<Rightarrow>
     rstate \<times> go_error option" where
  "replay_events renum cfg bf s [] = (s, None)"
| "replay_events renum cfg bf (patched, n, w) (ev # evs) =
     (case replay_raw renum bf patched ev of
        (patched', raw) \<Rightarrow>
          (case norm_accept cfg n ev raw of
             (n', Inl e) \<Rightarrow> ((patched', n', w), Some e)
           | (n', Inr out) \<Rightarrow>
               (case w_write_all w out of
                  (w', Some e) \<Rightarrow> ((patched', n', w'), Some e)
                | (w', None) \<Rightarrow> replay_events renum cfg bf (patched', n', w') evs)))"

fun replay_loop ::
    "(bytes \<Rightarrow> bytes option) \<Rightarrow> config \<Rightarrow> captureStats option \<Rightarrow> sseParser \<Rightarrow> rstate \<Rightarrow> bytes list \<Rightarrow>
     rstate \<times> go_error option" where
  "replay_loop renum cfg bf p s [] = replay_events renum cfg bf s (snd (feedChunk p [] True))"
| "replay_loop renum cfg bf p s (b # bs) =
     (case feedChunk p b False of
        (p', evs) \<Rightarrow>
          (case replay_events renum cfg bf s evs of
             (s', Some e) \<Rightarrow> (s', Some e)
           | (s', None) \<Rightarrow> replay_loop renum cfg bf p' s' bs))"

text \<open>The reads of a 32 KiB buffer.\<close>

function chunks_of :: "nat \<Rightarrow> 'a list \<Rightarrow> 'a list list" where
  "chunks_of n xs = (if n = 0 \<or> xs = [] then [] else take n xs # chunks_of n (drop n xs))"
  by pat_completeness auto
termination by (relation "measure (\<lambda>(n, xs). length xs)") auto

declare chunks_of.simps [simp del]

definition replayBufferedWithNormalizer ::
    "(bytes \<Rightarrow> bytes option) \<Rightarrow> config \<Rightarrow> bytes \<times> go_error option \<Rightarrow> downstream \<Rightarrow> captureStats option \<Rightarrow>
     normalizer \<Rightarrow> downstream \<times> normalizer \<times> go_error option" where
  "replayBufferedWithNormalizer renum cfg r w st n =
     (let bf = (case st of Some x \<Rightarrow> if shouldBackfillMessageStartUsage cfg x then Some x else None | None \<Rightarrow> None)
      in case replay_loop renum cfg bf (newParser 0) (False, n, w) (chunks_of 32768 (fst r)) of
           ((_, n', w'), Some e) \<Rightarrow> (w', n', Some e)
         | ((_, n', w'), None) \<Rightarrow> (w', n', snd r))"

definition replayBuffered ::
    "(bytes \<Rightarrow> bytes option) \<Rightarrow> config \<Rightarrow> bytes \<times> go_error option \<Rightarrow> downstream \<Rightarrow> captureStats option \<Rightarrow>
     downstream \<times> go_error option" where
  "replayBuffered renum cfg r w st =
     (case replayBufferedWithNormalizer renum cfg r w st norm0 of (w', _, e) \<Rightarrow> (w', e))"

definition replayWithUsage ::
    "(bytes \<Rightarrow> bytes option) \<Rightarrow> config \<Rightarrow> spool_rd \<Rightarrow> spool \<Rightarrow> downstream \<Rightarrow> captureStats option \<Rightarrow>
     downstream \<times> go_error option" where
  "replayWithUsage renum cfg rd sp w st =
     (if (case st of None \<Rightarrow> True | Some x \<Rightarrow> \<not> shouldBackfillMessageStartUsage cfg x) \<and>
         \<not> normalizeToolJSONEnabled cfg
      then replayRaw rd sp w
      else case spool_reader rd sp of
             Inl e \<Rightarrow> (w, Some e)
           | Inr r \<Rightarrow> replayBuffered renum cfg r w st)"

definition replayWithNormalizer ::
    "(bytes \<Rightarrow> bytes option) \<Rightarrow> config \<Rightarrow> spool_rd \<Rightarrow> spool \<Rightarrow> downstream \<Rightarrow> normalizer \<Rightarrow>
     downstream \<times> normalizer \<times> go_error option" where
  "replayWithNormalizer renum cfg rd sp w n =
     (case spool_reader rd sp of
        Inl e \<Rightarrow> (w, n, Some e)
      | Inr r \<Rightarrow> replayBufferedWithNormalizer renum cfg r w None n)"

section \<open>The loop over reads is one pass over the events\<close>

lemma concat_chunks_of: "0 < n \<Longrightarrow> concat (chunks_of n xs) = xs"
proof (induction n xs rule: chunks_of.induct)
  case (1 n xs)
  then show ?case by (subst chunks_of.simps) auto
qed

lemma replay_events_append:
  "replay_events renum cfg bf s (as @ bs) =
     (case replay_events renum cfg bf s as of
        (s', None) \<Rightarrow> replay_events renum cfg bf s' bs | (s', Some e) \<Rightarrow> (s', Some e))"
  by (induction renum cfg bf s as rule: replay_events.induct)
    (auto split: prod.splits sum.splits option.splits)

lemma feed_unlimited_err:
  assumes "p_max p = 0" "p_err p = None"
  shows "feedChunk p b eof = feed_end eof p b"
proof -
  have "p_err (fst (feed_end eof p b)) = None"
    using feed_bytes_max0 [OF assms, of b] by (simp add: feed_end_def close_line_def emit_def)
  with feedChunk_bytes [of p b eof] show ?thesis
    unfolding agree_def by (metis prod.expand)
qed

lemma replay_loop_events:
  "p_max p = 0 \<Longrightarrow> p_err p = None \<Longrightarrow>
   replay_loop renum cfg bf p s bs = replay_events renum cfg bf s (snd (feed_end True p (concat bs)))"
proof (induction bs arbitrary: p s)
  case Nil
  then show ?case by (simp add: feed_unlimited_err)
next
  case (Cons b bs)
  obtain q es where q: "feedChunk p b False = (q, es)" by force
  with feed_unlimited_err [OF Cons.prems, of b False] have fb: "feed_bytes p b = (q, es)"
    by (simp add: feed_end_False)
  with feed_bytes_max0 [OF Cons.prems, of b] have "p_max q = 0" "p_err q = None" by simp_all
  from Cons.IH [OF this] q fb show ?case
    by (simp add: feed_end_app replay_events_append emit_def split: prod.splits option.splits)
qed

text \<open>How the reads cut the spool has no effect on what is replayed.\<close>

lemma replay_by_events:
  "replayBufferedWithNormalizer renum cfg r w st n =
     (let bf = (case st of Some x \<Rightarrow> if shouldBackfillMessageStartUsage cfg x then Some x else None | None \<Rightarrow> None)
      in case replay_events renum cfg bf (False, n, w) (parse_stream 0 (fst r)) of
           ((_, n', w'), Some e) \<Rightarrow> (w', n', Some e)
         | ((_, n', w'), None) \<Rightarrow> (w', n', snd r))"
  using replay_loop_events [of "newParser 0" renum cfg _ _ "chunks_of 32768 (fst r)"]
  by (simp add: replayBufferedWithNormalizer_def parse_stream_end newParser_start concat_chunks_of Let_def)

end
