(* ===== verification/Engine.thy ===== *)
theory Engine
  imports Replay
begin

text \<open>
  The transactional engine (sse.go: \<open>captureSSECore\<close>, \<open>process\<close>, \<open>replayCaptured\<close>,
  \<open>writeStreamHead\<close>, \<open>onReadErr\<close>; wire.go: \<open>wireModel\<close>).

  A wire is a record of operations on its own state, as the Go interface is. The select
  loop is a step function: each input is what one round of the select received (a read, a
  tick of the keepalive timer, the idle timer, the context), so a run over a list of
  inputs is one interleaving of the timers with the reads. \<open>Inl\<close> is a return of
  \<open>captureSSECore\<close>, with \<open>(wrote, fail)\<close>.
\<close>

section \<open>The wire interface\<close>

record 'm wire =
  wm_scrape :: "event \<Rightarrow> captureStats \<Rightarrow> captureStats"
  wm_buffered :: "'m \<Rightarrow> event \<Rightarrow> captureStats \<Rightarrow> 'm \<times> captureStats \<times> bool \<times> failure option"
  wm_completeOnEOF :: "'m \<Rightarrow> bool"
  wm_live :: "'m \<Rightarrow> event \<Rightarrow> bytes \<Rightarrow> captureStats \<Rightarrow>
     'm \<times> captureStats \<times> bytes list \<times> bool \<times> failure option"
  wm_keepalive :: bytes
  wm_replayBuffered :: "'m \<Rightarrow> spool \<Rightarrow> downstream \<Rightarrow> captureStats \<Rightarrow> downstream \<times> go_error option"
  wm_replayPrefix :: "'m \<Rightarrow> spool \<Rightarrow> downstream \<Rightarrow> 'm \<times> downstream \<times> go_error option"
  wm_forwardable :: "'m \<Rightarrow> bool"

text \<open>The arguments of \<open>captureSSECore\<close> that do not change while it runs.\<close>

record 'm capture =
  g_cfg :: config
  g_wire :: "'m wire"
  g_hdr :: header
  g_io :: "int \<Rightarrow> spool_io"
  g_keepEvery :: int
  g_progressGated :: bool
  g_earlyCommit :: bool

record 'm engine =
  e_model :: 'm
  e_spool :: spool
  e_parser :: sseParser
  e_w :: downstream
  e_committed :: bool
  e_headerWritten :: bool
  e_grace :: bool
  e_st :: captureStats

definition engine0 :: "'m capture \<Rightarrow> 'm \<Rightarrow> downstream \<Rightarrow> captureStats \<Rightarrow> 'm engine" where
  "engine0 G m w st = \<lparr>e_model = m, e_spool = newSpool,
     e_parser = newParser (max (maxResponseBytes (g_cfg G)) 1), e_w = w, e_committed = False,
     e_headerWritten = False, e_grace = False, e_st = st\<rparr>"

section \<open>Committing\<close>

definition refusalFallbackCode :: bytes where
  "refusalFallbackCode = ''refusal_fallback''"

definition stream_header :: "header \<Rightarrow> bytes \<Rightarrow> header \<Rightarrow> header" where
  "stream_header upstreamHdr mode h =
     header_set
       (header_set
         (header_del (header_overlay h (safeResponseHeaders upstreamHdr False)) ''Content-Encoding'')
         ''Content-Type'' ''text/event-stream'')
       ''X-Steady-Proxy-Mode'' mode"

definition writeStreamHead :: "header \<Rightarrow> bytes \<Rightarrow> 'm engine \<Rightarrow> 'm engine" where
  "writeStreamHead upstreamHdr mode s =
     s\<lparr>e_w := (e_w s)\<lparr>ds_header := stream_header upstreamHdr mode (ds_header (e_w s)), ds_status := Some 200\<rparr>,
       e_st := (e_st s)\<lparr>st_mode := mode\<rparr>\<rparr>"

definition writeHead :: "'m capture \<Rightarrow> bytes \<Rightarrow> 'm engine \<Rightarrow> 'm engine" where
  "writeHead G mode s =
     (if e_headerWritten s then s else (writeStreamHead (g_hdr G) mode s)\<lparr>e_headerWritten := True\<rparr>)"

definition replay_failure :: "go_error \<Rightarrow> failure" where
  "replay_failure e =
     (if e = errTooLarge then classifyBufferError e
      else failure0\<lparr>f_transient := True, f_status := 502, f_atype := ''api_error'',
             f_code := ''response_replay_failed'', f_message := ''failed replaying buffered response''\<rparr>)"

definition replayCaptured :: "'m capture \<Rightarrow> 'm engine \<Rightarrow> 'm engine \<times> failure option" where
  "replayCaptured G s0 =
     (let s = writeHead G ''buffered'' s0
      in case wm_replayBuffered (g_wire G) (e_model s) (e_spool s) (e_w s) (e_st s) of
           (w, Some e) \<Rightarrow> (s\<lparr>e_w := w\<rparr>, Some (replay_failure e))
         | (w, None) \<Rightarrow> (s\<lparr>e_w := w, e_spool := discard (e_spool s)\<rparr>, None))"

definition commitLive :: "'m capture \<Rightarrow> 'm engine \<Rightarrow> 'm engine \<times> failure option" where
  "commitLive G s0 =
     (let s = (writeHead G ''live'' s0)\<lparr>e_committed := True\<rparr>
      in case wm_replayPrefix (g_wire G) (e_model s) (e_spool s) (e_w s) of
           (m, w, e) \<Rightarrow>
             (s\<lparr>e_model := m, e_w := w, e_spool := discard (e_spool s)\<rparr>, map_option replay_failure e))"

section \<open>Events\<close>

definition count_event :: "event \<Rightarrow> captureStats \<Rightarrow> captureStats" where
  "count_event ev st0 =
     (let st = st0\<lparr>st_bytes := st_bytes st0 + int (length (ev_raw ev))\<rparr>
      in if ev_name ev = ''ping''
         then st\<lparr>st_curPingRun := st_curPingRun st + 1,
                 st_maxPingRun := max (st_maxPingRun st) (st_curPingRun st + 1)\<rparr>
         else st\<lparr>st_curPingRun := 0\<rparr>)"

type_synonym 'm result = "bool \<times> failure option \<times> 'm engine"

definition process_live :: "'m capture \<Rightarrow> event \<Rightarrow> 'm engine \<Rightarrow> 'm result + 'm engine" where
  "process_live G ev s0 =
     (case wm_live (g_wire G) (e_model s0) ev (ev_raw ev) (e_st s0) of
        (m, st, out, done, fail) \<Rightarrow>
          let s = s0\<lparr>e_model := m, e_st := st, e_w := w_send (e_w s0) out\<rparr>
          in case fail of
               Some f \<Rightarrow> Inl (True, Some f, s)
             | None \<Rightarrow>
                 let s' = (if out = [] then s\<lparr>e_w := w_send (e_w s) [wm_keepalive (g_wire G)]\<rparr> else s)
                 in if done then Inl (True, None, s') else Inr s')"

definition spool_ev :: "'m capture \<Rightarrow> event \<Rightarrow> 'm engine \<Rightarrow> 'm engine \<times> failure option" where
  "spool_ev G ev s =
     (case spool_write (g_cfg G) (g_io G (sp_total (e_spool s))) (e_spool s) (ev_raw ev) of
        (sp, None) \<Rightarrow> (s\<lparr>e_spool := sp\<rparr>, None)
      | (sp, Some e) \<Rightarrow> (s\<lparr>e_spool := discard sp\<rparr>, Some (classifyBufferError e)))"

definition process_buffered :: "'m capture \<Rightarrow> event \<Rightarrow> 'm engine \<Rightarrow> 'm result + 'm engine" where
  "process_buffered G ev s0 =
     (case wm_buffered (g_wire G) (e_model s0) ev (e_st s0) of
        (m, st, done, fail) \<Rightarrow>
          let s = s0\<lparr>e_model := m, e_st := st\<rparr>
          in case fail of
               Some f \<Rightarrow>
                 if f_code f = refusalFallbackCode then
                   (case spool_ev G ev s of
                      (s', Some bf) \<Rightarrow> Inl (False, Some bf, s')
                    | (s', None) \<Rightarrow>
                        Inl (False, Some f, s'\<lparr>e_st := (e_st s')\<lparr>st_heldRefusal := Some (e_spool s')\<rparr>\<rparr>))
                 else Inl (False, Some f, s\<lparr>e_spool := discard (e_spool s)\<rparr>)
             | None \<Rightarrow>
                 (case spool_ev G ev s of
                    (s', Some bf) \<Rightarrow> Inl (False, Some bf, s')
                  | (s', None) \<Rightarrow>
                      if done then (case replayCaptured G s' of (s'', f) \<Rightarrow> Inl (True, f, s''))
                      else Inr s'))"

definition process_event :: "'m capture \<Rightarrow> event \<Rightarrow> 'm engine \<Rightarrow> 'm result + 'm engine" where
  "process_event G ev s0 =
     (let s = s0\<lparr>e_st := wm_scrape (g_wire G) ev (count_event ev (e_st s0))\<rparr>
      in if e_committed s then process_live G ev s else process_buffered G ev s)"

fun process :: "'m capture \<Rightarrow> event list \<Rightarrow> 'm engine \<Rightarrow> 'm result + 'm engine" where
  "process G [] s =
     (case p_err (e_parser s) of
        Some e \<Rightarrow> Inl (e_committed s, Some (classifyBufferError e), s)
      | None \<Rightarrow> Inr s)"
| "process G (ev # evs) s =
     (case process_event G ev s of Inl r \<Rightarrow> Inl r | Inr s' \<Rightarrow> process G evs s')"

section \<open>The select loop\<close>

datatype input =
    Read bytes "go_error option" ctx_err
  | KeepTick
  | IdleTick
  | CtxDone ctx_err

definition onReadErr :: "go_error \<Rightarrow> ctx_err \<Rightarrow> failure" where
  "onReadErr e ctx =
     (if ctx = CtxDeadline then failDeadline
      else if ctx = CtxCanceled then
        failure0\<lparr>f_status := 499, f_atype := ''api_error'', f_code := ''client_gone'', f_message := ''client cancelled''\<rparr>
      else if e = EOF \<or> e = UnexpectedEOF then
        failure0\<lparr>f_transient := True, f_status := 502, f_atype := ''api_error'', f_code := ''truncated_stream'',
          f_message := ''stream ended before a complete response''\<rparr>
      else failure0\<lparr>f_transient := True, f_status := 502, f_atype := ''api_error'', f_code := ''stream_read_error'',
          f_message := error_text e\<rparr>)"

definition idle_failure :: failure where
  "idle_failure = failure0\<lparr>f_transient := True, f_status := 504, f_atype := ''timeout_error'',
     f_code := ''upstream_idle'', f_message := ''upstream stalled with no bytes''\<rparr>"

definition ctx_failure :: "ctx_err \<Rightarrow> failure" where
  "ctx_failure ctx =
     (if ctx = CtxDeadline then failDeadline
      else failure0\<lparr>f_status := 499, f_atype := ''api_error'', f_code := ''client_gone'', f_message := ''context done''\<rparr>)"

text \<open>A clean end that some wires take as completion.\<close>

definition clean_eof :: "'m capture \<Rightarrow> go_error \<Rightarrow> ctx_err \<Rightarrow> 'm engine \<Rightarrow> bool" where
  "clean_eof G e ctx s =
     (e = EOF \<and> ctx = CtxOk \<and> \<not> cur_has (p_cur (e_parser s)) \<and>
      p_lineStart (e_parser s) = length (p_raw (e_parser s)) \<and> wm_completeOnEOF (g_wire G) (e_model s))"

definition on_read :: "'m capture \<Rightarrow> bytes \<Rightarrow> go_error option \<Rightarrow> ctx_err \<Rightarrow> 'm engine \<Rightarrow> 'm result + 'm engine" where
  "on_read G data err ctx s0 =
     (let s1 = (case err of
                  Some e \<Rightarrow> if e \<noteq> EOF then s0\<lparr>e_st := (e_st s0)\<lparr>st_readErr := Some e\<rparr>\<rparr> else s0
                | None \<Rightarrow> s0)
      in case feedChunk (e_parser s1) data (err \<noteq> None) of
           (p, events) \<Rightarrow>
             (case process G events (s1\<lparr>e_parser := p\<rparr>) of
                Inl r \<Rightarrow> Inl r
              | Inr s \<Rightarrow>
                  (case err of
                     Some e \<Rightarrow>
                       if clean_eof G e ctx s then
                         (if \<not> e_committed s
                          then (case replayCaptured G s of (s', f) \<Rightarrow> Inl (True, f, s'))
                          else Inl (True, None, s))
                       else Inl (e_committed s, Some (onReadErr e ctx), s)
                   | None \<Rightarrow>
                       if \<not> e_committed s \<and> wm_forwardable (g_wire G) (e_model s) \<and>
                          (g_earlyCommit G \<or> (g_progressGated G \<and> e_grace s))
                       then (case commitLive G s of
                               (s', Some f) \<Rightarrow> Inl (True, Some f, s')
                             | (s', None) \<Rightarrow> Inr s')
                       else Inr s)))"

definition send_keepalive :: "'m capture \<Rightarrow> 'm engine \<Rightarrow> 'm engine" where
  "send_keepalive G s = s\<lparr>e_w := w_send (e_w s) [wm_keepalive (g_wire G)]\<rparr>"

definition on_keep :: "'m capture \<Rightarrow> 'm engine \<Rightarrow> 'm result + 'm engine" where
  "on_keep G s0 =
     (if g_keepEvery G \<le> 0 then Inr s0
      else let s = s0\<lparr>e_grace := True\<rparr>
           in if e_committed s then Inr (send_keepalive G s)
              else if g_progressGated G \<and> \<not> wm_forwardable (g_wire G) (e_model s) then Inr s
              else (case commitLive G s of
                      (s', Some f) \<Rightarrow> Inl (True, Some f, s')
                    | (s', None) \<Rightarrow> Inr (send_keepalive G s')))"

definition give_up :: "failure \<Rightarrow> 'm engine \<Rightarrow> 'm result" where
  "give_up f s =
     (if e_committed s then (True, Some f, s) else (False, Some f, s\<lparr>e_spool := discard (e_spool s)\<rparr>))"

fun capture_step :: "'m capture \<Rightarrow> input \<Rightarrow> 'm engine \<Rightarrow> 'm result + 'm engine" where
  "capture_step G (Read data err ctx) s = on_read G data err ctx s"
| "capture_step G KeepTick s = on_keep G s"
| "capture_step G IdleTick s = Inl (give_up idle_failure s)"
| "capture_step G (CtxDone ctx) s = Inl (give_up (ctx_failure ctx) s)"

text \<open>\<open>Inr\<close>: the loop is still waiting when the inputs end.\<close>

fun capture_run :: "'m capture \<Rightarrow> input list \<Rightarrow> 'm engine \<Rightarrow> 'm result + 'm engine" where
  "capture_run G [] s = Inr s"
| "capture_run G (i # is) s =
     (case capture_step G i s of Inl r \<Rightarrow> Inl r | Inr s' \<Rightarrow> capture_run G is s')"

definition captureSSECore ::
    "'m capture \<Rightarrow> 'm \<Rightarrow> downstream \<Rightarrow> captureStats \<Rightarrow> input list \<Rightarrow> 'm result + 'm engine" where
  "captureSSECore G m w st inputs = capture_run G inputs (engine0 G m w st)"

section \<open>What the engine promises for every wire\<close>

text \<open>A write only adds to the body.\<close>

definition appends :: "downstream \<Rightarrow> downstream \<Rightarrow> bool" where
  "appends w w' = (ds_header w' = ds_header w \<and> ds_status w' = ds_status w \<and> ds_limit w' = ds_limit w \<and>
     prefix (ds_body w) (ds_body w'))"

lemma appends_refl [simp]: "appends w w"
  by (simp add: appends_def)

lemma appends_trans: "appends a b \<Longrightarrow> appends b c \<Longrightarrow> appends a c"
  by (auto simp: appends_def intro: prefix_order.trans)

lemma appends_write: "appends w (fst (w_write w p))"
  by (auto simp: appends_def w_write_def split: option.splits)

lemma appends_send: "appends w (w_send w ps)"
  by (induction ps arbitrary: w) (auto intro: appends_trans [OF appends_write])

lemma appends_write_all: "appends w (fst (w_write_all w ps))"
proof (induction ps arbitrary: w)
  case (Cons p ps)
  from appends_trans [OF appends_write Cons.IH] appends_write [of w p] show ?case
    by (simp add: w_write_all_Cons del: w_write_all.simps)
qed simp

lemma appends_replayRaw: "appends w (fst (replayRaw rd sp w))"
  using appends_write [of w] by (auto simp: replayRaw_def case_prod_beta split: sum.splits option.splits)

lemma appends_replay_events: "replay_events renum cfg bf (x, n, w) evs = ((x', n', w'), e) \<Longrightarrow> appends w w'"
proof (induction evs arbitrary: x n w)
  case (Cons ev evs)
  obtain y raw where r: "replay_raw renum bf x ev = (y, raw)" by force
  obtain n1 res where a: "norm_accept cfg n ev raw = (n1, res)" by force
  show ?case
  proof (cases res)
    case (Inl err)
    with Cons.prems r a show ?thesis by auto
  next
    case (Inr out)
    obtain w1 er where w1: "w_write_all w out = (w1, er)" by force
    with appends_write_all [of w out] have "appends w w1" by simp
    with Cons.IH [of y n1 w1] Cons.prems r a Inr w1 show ?thesis
      by (cases er) (auto intro: appends_trans)
  qed
qed auto

lemma appends_replay_norm:
  "replayBufferedWithNormalizer renum cfg r w st n = (w', n', e) \<Longrightarrow> appends w w'"
  using appends_replay_events by (fastforce simp: replay_by_events Let_def split: prod.splits option.splits)

locale wire_laws =
  fixes W :: "'m wire"
  assumes buffered_appends: "wm_replayBuffered W m sp w st = (w', e) \<Longrightarrow> appends w w'"
    and prefix_appends: "wm_replayPrefix W m sp w = (m', w', e) \<Longrightarrow> appends w w'"

text \<open>
  \<open>engine_ok w0\<close>: before the commit nothing has reached the client; after it, one status
  line, 200, with the stream's headers, and a body that only grew. \<open>result_ok\<close> is the
  contract of \<open>captureSSECore\<close>: \<open>wrote\<close> tells whether the client saw anything, and a
  result without a failure is always a response.
\<close>

definition sent_ok :: "'m capture \<Rightarrow> downstream \<Rightarrow> downstream \<Rightarrow> bool" where
  "sent_ok G w0 w =
     (ds_status w = Some 200 \<and>
      (\<exists>mode. ds_header w = stream_header (g_hdr G) mode (ds_header w0) \<and> (mode = ''buffered'' \<or> mode = ''live'')) \<and>
      ds_limit w = ds_limit w0 \<and> prefix (ds_body w0) (ds_body w))"

definition engine_ok :: "'m capture \<Rightarrow> downstream \<Rightarrow> 'm engine \<Rightarrow> bool" where
  "engine_ok G w0 s =
     (if e_committed s then e_headerWritten s \<and> sent_ok G w0 (e_w s)
      else \<not> e_headerWritten s \<and> e_w s = w0)"

definition result_ok :: "'m capture \<Rightarrow> downstream \<Rightarrow> 'm result \<Rightarrow> bool" where
  "result_ok G w0 r =
     (case r of (wrote, fail, s) \<Rightarrow>
        if wrote then sent_ok G w0 (e_w s) else e_w s = w0 \<and> fail \<noteq> None)"

definition step_good :: "'m capture \<Rightarrow> downstream \<Rightarrow> 'm result + 'm engine \<Rightarrow> bool" where
  "step_good G w0 x = (case x of Inl r \<Rightarrow> result_ok G w0 r | Inr s \<Rightarrow> engine_ok G w0 s)"

lemma sent_ok_appends: "sent_ok G w0 w \<Longrightarrow> appends w w' \<Longrightarrow> sent_ok G w0 w'"
  by (auto simp: sent_ok_def appends_def intro: prefix_order.trans)

lemma sent_ok_head:
  "e_w s = w0 \<Longrightarrow> \<not> e_headerWritten s \<Longrightarrow> mode = ''buffered'' \<or> mode = ''live'' \<Longrightarrow>
   sent_ok G w0 (e_w (writeHead G mode s))"
  by (auto simp: sent_ok_def writeHead_def writeStreamHead_def)

context wire_laws
begin

lemma replayCaptured_ok:
  assumes "g_wire G = W" "engine_ok G w0 s" "\<not> e_committed s" "replayCaptured G s = (s', f)"
  shows "sent_ok G w0 (e_w s')"
proof -
  have h: "sent_ok G w0 (e_w (writeHead G ''buffered'' s))"
    using assms(2,3) by (intro sent_ok_head) (auto simp: engine_ok_def)
  let ?s = "writeHead G ''buffered'' s"
  obtain w e where w: "wm_replayBuffered W (e_model ?s) (e_spool ?s) (e_w ?s) (e_st ?s) = (w, e)"
    by force
  have "sent_ok G w0 w" by (rule sent_ok_appends [OF h buffered_appends [OF w]])
  with w assms(1,4) show ?thesis
    by (cases e) (auto simp: replayCaptured_def Let_def)
qed

lemma commitLive_ok:
  assumes "g_wire G = W" "engine_ok G w0 s" "\<not> e_committed s" "commitLive G s = (s', f)"
  shows "sent_ok G w0 (e_w s') \<and> engine_ok G w0 s'"
proof -
  have h: "sent_ok G w0 (e_w (writeHead G ''live'' s))"
    using assms(2,3) by (intro sent_ok_head) (auto simp: engine_ok_def)
  let ?s = "(writeHead G ''live'' s)\<lparr>e_committed := True\<rparr>"
  obtain m w e where w: "wm_replayPrefix W (e_model ?s) (e_spool ?s) (e_w ?s) = (m, w, e)"
    by (metis prod_cases3)
  have "appends (e_w ?s) w" by (rule prefix_appends [OF w])
  with h have "sent_ok G w0 w" using sent_ok_appends [OF h, of w] by simp
  moreover have "e_headerWritten (writeHead G ''live'' s)" by (simp add: writeHead_def)
  ultimately show ?thesis
    using w assms(1,4) by (auto simp: commitLive_def Let_def engine_ok_def)
qed

lemma process_event_ok:
  assumes "g_wire G = W" "engine_ok G w0 s"
  shows "step_good G w0 (process_event G ev s)"
proof (cases "e_committed s")
  case True
  define t where "t = s\<lparr>e_st := wm_scrape (g_wire G) ev (count_event ev (e_st s))\<rparr>"
  have t: "sent_ok G w0 (e_w t)" "e_headerWritten t" "e_committed t"
    using True assms(2) by (auto simp: t_def engine_ok_def)
  have "step_good G w0 (process_live G ev t)"
    using t sent_ok_appends [OF t(1) appends_send] sent_ok_appends [OF t(1) appends_write]
      sent_ok_appends [OF t(1) appends_trans [OF appends_send appends_write]]
    by (auto simp: process_live_def step_good_def result_ok_def engine_ok_def Let_def split: prod.splits option.splits)
  with True show ?thesis by (simp add: process_event_def t_def)
next
  case False
  define t where "t = s\<lparr>e_st := wm_scrape (g_wire G) ev (count_event ev (e_st s))\<rparr>"
  obtain m st dn fail where b: "wm_buffered (g_wire G) (e_model t) ev (e_st t) = (m, st, dn, fail)"
    by (metis prod_cases4)
  obtain u bf where u: "spool_ev G ev (t\<lparr>e_model := m, e_st := st\<rparr>) = (u, bf)" by force
  have u_ok: "e_w u = w0" "\<not> e_headerWritten u" "\<not> e_committed u"
    using False assms(2) u by (auto simp: t_def engine_ok_def spool_ev_def split: prod.splits option.splits)
  have w: "e_w t = w0" using False assms(2) by (simp add: t_def engine_ok_def)
  have rep: "sent_ok G w0 (e_w s')" if "replayCaptured G u = (s', f)" for s' f
    using u_ok that by (intro replayCaptured_ok [OF assms(1) _ _ that]) (simp_all add: engine_ok_def)
  have "step_good G w0 (process_buffered G ev t)"
    using u_ok w rep
    by (auto simp: process_buffered_def b u Let_def step_good_def result_ok_def engine_ok_def
        split: option.splits prod.splits)
  with False show ?thesis by (simp add: process_event_def t_def)
qed

lemma process_ok:
  "g_wire G = W \<Longrightarrow> engine_ok G w0 s \<Longrightarrow> step_good G w0 (process G evs s)"
proof (induction evs arbitrary: s)
  case Nil
  then show ?case by (auto simp: step_good_def result_ok_def engine_ok_def split: option.splits if_splits)
next
  case (Cons ev evs)
  show ?case
  proof (cases "process_event G ev s")
    case (Inl r)
    with process_event_ok [OF Cons.prems, of ev] show ?thesis by (simp add: step_good_def)
  next
    case (Inr t)
    with process_event_ok [OF Cons.prems, of ev] have "engine_ok G w0 t" by (simp add: step_good_def)
    from Cons.IH [OF Cons.prems(1) this] Inr show ?thesis by simp
  qed
qed

lemma on_read_ok:
  assumes "g_wire G = W" "engine_ok G w0 s"
  shows "step_good G w0 (on_read G data err ctx s)"
proof -
  define s1 where "s1 = (case err of
      Some e \<Rightarrow> if e \<noteq> EOF then s\<lparr>e_st := (e_st s)\<lparr>st_readErr := Some e\<rparr>\<rparr> else s | None \<Rightarrow> s)"
  obtain p events where p: "feedChunk (e_parser s1) data (err \<noteq> None) = (p, events)" by force
  have "engine_ok G w0 (s1\<lparr>e_parser := p\<rparr>)"
    using assms(2) by (auto simp: s1_def engine_ok_def split: option.splits)
  from process_ok [OF assms(1) this, of events]
  have pr: "step_good G w0 (process G events (s1\<lparr>e_parser := p\<rparr>))" .
  show ?thesis
  proof (cases "process G events (s1\<lparr>e_parser := p\<rparr>)")
    case (Inl r)
    with pr p show ?thesis by (simp add: on_read_def s1_def [symmetric] Let_def step_good_def)
  next
    case (Inr t)
    with pr have t: "engine_ok G w0 t" by (simp add: step_good_def)
    have rep: "\<not> e_committed t \<Longrightarrow> replayCaptured G t = (s', f) \<Longrightarrow> sent_ok G w0 (e_w s')" for s' f
      using replayCaptured_ok [OF assms(1) t] by blast
    have com: "\<not> e_committed t \<Longrightarrow> commitLive G t = (s', f) \<Longrightarrow> sent_ok G w0 (e_w s') \<and> engine_ok G w0 s'" for s' f
      using commitLive_ok [OF assms(1) t] by blast
    show ?thesis
      using Inr p t rep com
      by (auto simp: on_read_def s1_def [symmetric] Let_def step_good_def result_ok_def engine_ok_def
          split: option.splits prod.splits if_splits)
  qed
qed

lemma on_keep_ok:
  assumes "g_wire G = W" "engine_ok G w0 s"
  shows "step_good G w0 (on_keep G s)"
proof -
  let ?t = "s\<lparr>e_grace := True\<rparr>"
  have t: "engine_ok G w0 ?t" using assms(2) by (simp add: engine_ok_def)
  have keep: "engine_ok G w0 (send_keepalive G u)" if "engine_ok G w0 u" "e_committed u" for u
    using that sent_ok_appends [OF _ appends_write, of G w0 "e_w u"]
    by (simp add: engine_ok_def send_keepalive_def)
  consider "g_keepEvery G \<le> 0" | "0 < g_keepEvery G" "e_committed s" | "0 < g_keepEvery G" "\<not> e_committed s"
    by linarith
  then show ?thesis
  proof cases
    case 1
    with assms(2) show ?thesis by (simp add: on_keep_def step_good_def)
  next
    case 2
    with keep [OF t] show ?thesis by (simp add: on_keep_def Let_def step_good_def)
  next
    case 3
    obtain u f where u: "commitLive G ?t = (u, f)" by force
    with commitLive_ok [OF assms(1) t _ u] 3 have ok: "sent_ok G w0 (e_w u)" "engine_ok G w0 u" by auto
    have "e_committed u" using u by (auto simp: commitLive_def Let_def split: prod.splits)
    with 3 t u ok keep [OF ok(2)] show ?thesis
      by (cases f) (simp_all add: on_keep_def Let_def step_good_def result_ok_def)
  qed
qed

lemma capture_step_ok:
  assumes "g_wire G = W" "engine_ok G w0 s"
  shows "step_good G w0 (capture_step G i s)"
proof (cases i)
  case (Read data err ctx)
  with on_read_ok [OF assms] show ?thesis by simp
next
  case KeepTick
  with on_keep_ok [OF assms] show ?thesis by simp
qed (use assms(2) in \<open>auto simp: step_good_def result_ok_def give_up_def engine_ok_def\<close>)

lemma capture_run_ok:
  "g_wire G = W \<Longrightarrow> engine_ok G w0 s \<Longrightarrow> step_good G w0 (capture_run G is s)"
proof (induction "is" arbitrary: s)
  case (Cons i "is")
  show ?case
  proof (cases "capture_step G i s")
    case (Inl r)
    with capture_step_ok [OF Cons.prems, of i] show ?thesis by (simp add: step_good_def)
  next
    case (Inr t)
    with capture_step_ok [OF Cons.prems, of i] have "engine_ok G w0 t" by (simp add: step_good_def)
    from Cons.IH [OF Cons.prems(1) this] Inr show ?thesis by simp
  qed
qed (simp add: step_good_def)

lemma captureSSECore_ok:
  "g_wire G = W \<Longrightarrow> step_good G w0 (captureSSECore G m w0 st inputs)"
  unfolding captureSSECore_def by (rule capture_run_ok) (simp_all add: engine_ok_def engine0_def)

end

section \<open>The loop always ends\<close>

text \<open>An input that ends the loop: the read that fails or ends, the idle timer, the context.\<close>

fun ends_capture :: "input \<Rightarrow> bool" where
  "ends_capture (Read data err ctx) = (err \<noteq> None)"
| "ends_capture KeepTick = False"
| "ends_capture IdleTick = True"
| "ends_capture (CtxDone ctx) = True"

lemma ending_step: "ends_capture i \<Longrightarrow> \<exists>r. capture_step G i s = Inl r"
  by (cases i) (auto simp: give_up_def on_read_def Let_def split: option.splits prod.splits sum.splits if_splits)

text \<open>Whatever the wire and the interleaving, the loop returns at the latest on such an input.\<close>

lemma capture_ends:
  assumes "i \<in> set inputs" "ends_capture i"
  shows "\<exists>r. captureSSECore G m w st inputs = Inl r"
proof -
  have "i \<in> set is \<Longrightarrow> \<exists>r. capture_run G is s = Inl r" for "is" s
  proof (induction "is" arbitrary: s)
    case (Cons j "is")
    show ?case
    proof (cases "capture_step G j s")
      case (Inr t)
      with ending_step [OF assms(2), of G s] Cons.prems have "i \<in> set is" by (cases "i = j") auto
      with Cons.IH Inr show ?thesis by simp
    next
      case (Inl r)
      then show ?thesis by (cases r) simp
    qed
  qed simp
  with assms(1) show ?thesis by (simp add: captureSSECore_def)
qed

section \<open>What a buffered response contains\<close>

text \<open>The events the parser cuts from the reads.\<close>

fun input_events :: "sseParser \<Rightarrow> input list \<Rightarrow> event list" where
  "input_events p [] = []"
| "input_events p (Read data err ctx # is) =
     (case feedChunk p data (err \<noteq> None) of (p', evs) \<Rightarrow> evs @ input_events p' is)"
| "input_events p (i # is) = input_events p is"

definition raw_bytes :: "event list \<Rightarrow> bytes" where
  "raw_bytes evs = concat (map ev_raw evs)"

lemma raw_bytes_simps [simp]: "raw_bytes [] = []" "raw_bytes (ev # evs) = ev_raw ev @ raw_bytes evs"
  "raw_bytes (as @ bs) = raw_bytes as @ raw_bytes bs"
  by (simp_all add: raw_bytes_def)

section \<open>Committed captures\<close>

lemma process_event_committed:
  "e_committed s \<Longrightarrow>
   (case process_event G ev s of Inl (wr, f, s') \<Rightarrow> e_committed s' | Inr s' \<Rightarrow> e_committed s')"
  by (auto simp: process_event_def process_live_def Let_def split: prod.splits option.splits)

lemma process_committed:
  "e_committed s \<Longrightarrow>
   (case process G evs s of Inl (wr, f, s') \<Rightarrow> e_committed s' | Inr s' \<Rightarrow> e_committed s')"
proof (induction evs arbitrary: s)
  case (Cons ev evs)
  show ?case
  proof (cases "process_event G ev s")
    case (Inl r)
    with process_event_committed [OF Cons.prems, of G ev] show ?thesis by simp
  next
    case (Inr t)
    with process_event_committed [OF Cons.prems, of G ev] Cons.IH [of t] show ?thesis by simp
  qed
qed (auto split: option.splits)

text \<open>A committed capture stays committed.\<close>

lemma capture_step_committed:
  assumes "e_committed s"
  shows "case capture_step G i s of Inl (wr, f, s') \<Rightarrow> e_committed s' | Inr s' \<Rightarrow> e_committed s'"
proof (cases i)
  case (Read data err ctx)
  define s1 where "s1 = (case err of
      Some e \<Rightarrow> if e \<noteq> EOF then s\<lparr>e_st := (e_st s)\<lparr>st_readErr := Some e\<rparr>\<rparr> else s | None \<Rightarrow> s)"
  obtain p events where p: "feedChunk (e_parser s1) data (err \<noteq> None) = (p, events)" by force
  have "e_committed (s1\<lparr>e_parser := p\<rparr>)" using assms by (auto simp: s1_def split: option.splits)
  from process_committed [OF this, of G events] show ?thesis
    using p Read
    by (auto simp: on_read_def s1_def [symmetric] Let_def split: sum.splits option.splits prod.splits)
qed (use assms in \<open>auto simp: on_keep_def Let_def send_keepalive_def give_up_def\<close>)

lemma capture_run_committed:
  "e_committed s \<Longrightarrow> capture_run G is s = Inl (wr, f, s') \<Longrightarrow> e_committed s'"
proof (induction "is" arbitrary: s)
  case (Cons i "is")
  show ?case
  proof (cases "capture_step G i s")
    case (Inl r)
    with capture_step_committed [OF Cons.prems(1), of G i] Cons.prems(2) show ?thesis by simp
  next
    case (Inr t)
    with capture_step_committed [OF Cons.prems(1), of G i] Cons.prems(2) Cons.IH [of t] show ?thesis by simp
  qed
qed simp

lemma commitLive_committed: "commitLive G s = (s', f) \<Longrightarrow> e_committed s'"
  by (auto simp: commitLive_def Let_def split: prod.splits)

lemma on_keep_next:
  "on_keep G s = Inr t \<Longrightarrow> e_committed t \<or> t = s \<or> t = s\<lparr>e_grace := True\<rparr>"
  by (auto simp: on_keep_def Let_def send_keepalive_def dest!: commitLive_committed
      split: if_splits prod.splits option.splits)

section \<open>What stands behind a buffered success\<close>

text \<open>
  \<open>took W m evs m' dn\<close>: on the buffering path the wire took the events \<open>evs\<close> one after the
  other without a failure, from state \<open>m\<close> to \<open>m'\<close>; \<open>dn\<close> tells whether the last one
  completed the response.
\<close>

inductive took :: "'m wire \<Rightarrow> 'm \<Rightarrow> event list \<Rightarrow> 'm \<Rightarrow> bool \<Rightarrow> bool" for W :: "'m wire" and m :: 'm where
  took_none: "took W m [] m False"
| took_event: "took W m evs m1 False \<Longrightarrow> wm_buffered W m1 ev st = (m2, st', dn, None) \<Longrightarrow>
    took W m (evs @ [ev]) m2 dn"

inductive_cases took_snocE: "took W m (evs @ [ev]) m2 dn"

text \<open>
  \<open>took_view\<close> relates an engine that has not committed to the events it has taken: the wire
  accepted them and the spool holds their bytes. \<open>sent_run G w0 m evs w\<close>: the client's
  connection \<open>w\<close> is what the wire's buffered replay made of \<open>w0\<close> (with its head written) from
  a spool with the bytes of \<open>evs\<close>, after the wire had taken them and found the response
  complete.
\<close>

definition took_view :: "'m capture \<Rightarrow> downstream \<Rightarrow> 'm \<Rightarrow> event list \<Rightarrow> 'm engine \<Rightarrow> bool" where
  "took_view G w0 m evs s =
     (\<not> e_committed s \<and> \<not> e_headerWritten s \<and> e_w s = w0 \<and>
      (valid_config (g_cfg G) \<longrightarrow>
         spool_inv (g_cfg G) (e_spool s) \<and> spool_contents (e_spool s) = raw_bytes evs) \<and>
      took (g_wire G) m evs (e_model s) False)"

definition sent_run :: "'m capture \<Rightarrow> downstream \<Rightarrow> 'm \<Rightarrow> event list \<Rightarrow> downstream \<Rightarrow> bool" where
  "sent_run G w0 m evs w =
     (\<exists>m' dn sp st w1. took (g_wire G) m evs m' dn \<and> (dn \<or> wm_completeOnEOF (g_wire G) m') \<and>
        (valid_config (g_cfg G) \<longrightarrow> spool_contents sp = raw_bytes evs) \<and> ds_body w1 = ds_body w0 \<and> ds_limit w1 = ds_limit w0 \<and>
        wm_replayBuffered (g_wire G) m' sp w1 st = (w, None))"

definition succeeded :: "'m capture \<Rightarrow> downstream \<Rightarrow> 'm \<Rightarrow> event list \<Rightarrow> 'm result \<Rightarrow> bool" where
  "succeeded G w0 m evs r =
     (case r of (wrote, fail, s) \<Rightarrow>
        wrote \<and> fail = None \<and> \<not> e_committed s \<longrightarrow> (\<exists>n. sent_run G w0 m (take n evs) (e_w s)))"

lemma succeeded_committed: "e_committed (snd (snd r)) \<Longrightarrow> succeeded G w0 m evs r"
  by (auto simp: succeeded_def split: prod.splits)

lemma succeeded_failed: "fst (snd r) \<noteq> None \<or> \<not> fst r \<Longrightarrow> succeeded G w0 m evs r"
  by (auto simp: succeeded_def split: prod.splits)

lemma succeeded_prefix: "succeeded G w0 m as r \<Longrightarrow> succeeded G w0 m (as @ bs) r"
  unfolding succeeded_def
  by (auto split: prod.splits)
    (metis append_Nil2 min.cobounded1 min_def take_all take_append take_take linear diff_is_0_eq' take0)

lemma replayCaptured_sent:
  assumes "replayCaptured G s = (s', f)" "took (g_wire G) m evs (e_model s) dn"
    and "dn \<or> wm_completeOnEOF (g_wire G) (e_model s)"
    and "\<not> e_headerWritten s" "e_w s = w0"
    and "valid_config (g_cfg G) \<longrightarrow> spool_contents (e_spool s) = raw_bytes evs"
  shows "succeeded G w0 m evs (True, f, s')"
proof (cases f)
  case None
  let ?s = "writeHead G ''buffered'' s"
  from assms(1) None have "wm_replayBuffered (g_wire G) (e_model s) (e_spool s) (e_w ?s) (e_st ?s) = (e_w s', None)"
    by (auto simp: replayCaptured_def Let_def writeHead_def writeStreamHead_def split: prod.splits option.splits if_splits)
  moreover have "ds_body (e_w ?s) = ds_body w0" "ds_limit (e_w ?s) = ds_limit w0"
    using assms(5) by (simp_all add: writeHead_def writeStreamHead_def)
  ultimately have "sent_run G w0 m evs (e_w s')"
    unfolding sent_run_def using assms(2,3,6) by blast
  then show ?thesis by (auto simp: succeeded_def intro!: exI [of _ "length evs"])
qed (simp add: succeeded_failed)

lemma process_event_took:
  assumes "took_view G w0 m evs s"
  shows "case process_event G ev s of
           Inl r \<Rightarrow> succeeded G w0 m (evs @ [ev]) r
         | Inr s' \<Rightarrow> took_view G w0 m (evs @ [ev]) s' \<and> e_parser s' = e_parser s"
proof -
  define t where "t = s\<lparr>e_st := wm_scrape (g_wire G) ev (count_event ev (e_st s))\<rparr>"
  have t: "took_view G w0 m evs t" "\<not> e_committed s" "e_parser t = e_parser s" "e_model t = e_model s"
    using assms by (auto simp: t_def took_view_def)
  obtain m1 st dn fail where b: "wm_buffered (g_wire G) (e_model t) ev (e_st t) = (m1, st, dn, fail)"
    by (metis prod_cases4)
  obtain u bf where u: "spool_ev G ev (t\<lparr>e_model := m1, e_st := st\<rparr>) = (u, bf)" by force
  have step: "fail = None \<Longrightarrow> took (g_wire G) m (evs @ [ev]) m1 dn"
    using took_event [of "g_wire G" m evs "e_model t" ev "e_st t" m1 st dn] b t(1) by (simp add: took_view_def)
  have u_ok: "e_model u = m1 \<and> \<not> e_committed u \<and> \<not> e_headerWritten u \<and> e_w u = w0 \<and> e_parser u = e_parser s \<and>
      (valid_config (g_cfg G) \<longrightarrow>
         spool_inv (g_cfg G) (e_spool u) \<and> spool_contents (e_spool u) = raw_bytes (evs @ [ev]))" if "bf = None"
    using t u that sp.wr_ok [of "g_cfg G" "e_spool t" "g_io G" "ev_raw ev"]
    by (auto simp: spool_ev_def took_view_def split: prod.splits option.splits)
  have rep: "succeeded G w0 m (evs @ [ev]) (True, f, s')"
    if "bf = None" "fail = None" "dn" "replayCaptured G u = (s', f)" for f s'
    using replayCaptured_sent [OF that(4), of m "evs @ [ev]" dn w0] step [OF that(2)] u_ok [OF that(1)] that(3)
    by simp
  have next_view: "took_view G w0 m (evs @ [ev]) u" if "bf = None" "fail = None" "\<not> dn"
    using u_ok [OF that(1)] step [OF that(2)] that(3) by (simp add: took_view_def)
  have "process_event G ev s = process_buffered G ev t"
    using t(2) by (simp add: process_event_def t_def)
  then show ?thesis
    using rep next_view u_ok
    by (cases bf; cases dn; cases fail)
      (auto simp: process_buffered_def b u Let_def succeeded_failed split: option.splits prod.splits)
qed

lemma process_took:
  "took_view G w0 m before s \<Longrightarrow>
   (case process G evs s of
      Inl r \<Rightarrow> succeeded G w0 m (before @ evs) r
    | Inr s' \<Rightarrow> took_view G w0 m (before @ evs) s' \<and> e_parser s' = e_parser s)"
proof (induction evs arbitrary: before s)
  case Nil
  then show ?case by (auto simp: succeeded_failed split: option.splits)
next
  case (Cons ev evs)
  note step = process_event_took [OF Cons.prems, of ev]
  show ?case
  proof (cases "process_event G ev s")
    case (Inl r)
    with step succeeded_prefix [of G w0 m "before @ [ev]" r evs] show ?thesis by simp
  next
    case (Inr t)
    with step have t: "took_view G w0 m (before @ [ev]) t" "e_parser t = e_parser s" by auto
    from Cons.IH [OF t(1), unfolded append_assoc append_Cons append_Nil t(2)] Inr
    show ?thesis by simp
  qed
qed

lemma on_read_took:
  assumes "took_view G w0 m before s" and p: "feedChunk (e_parser s) data (err \<noteq> None) = (p, events)"
  shows "case on_read G data err ctx s of
           Inl r \<Rightarrow> succeeded G w0 m (before @ events) r
         | Inr s' \<Rightarrow> e_committed s' \<or> (took_view G w0 m (before @ events) s' \<and> e_parser s' = p)"
proof -
  define s1 where "s1 = (case err of
      Some e \<Rightarrow> if e \<noteq> EOF then s\<lparr>e_st := (e_st s)\<lparr>st_readErr := Some e\<rparr>\<rparr> else s | None \<Rightarrow> s)"
  have s1: "e_parser s1 = e_parser s" "took_view G w0 m before (s1\<lparr>e_parser := p\<rparr>)"
    using assms(1) by (auto simp: s1_def took_view_def split: option.splits)
  note pr = process_took [OF s1(2), of events]
  show ?thesis
  proof (cases "process G events (s1\<lparr>e_parser := p\<rparr>)")
    case (Inl r)
    with pr p s1(1) show ?thesis by (simp add: on_read_def s1_def [symmetric] Let_def)
  next
    case (Inr t)
    with pr have t: "took_view G w0 m (before @ events) t" "e_parser t = p" by auto
    have eof: "succeeded G w0 m (before @ events) (True, f, u)"
      if "wm_completeOnEOF (g_wire G) (e_model t)" "replayCaptured G t = (u, f)" for u f
      using replayCaptured_sent [OF that(2), of m _ False w0] t(1) that(1) by (simp add: took_view_def)
    have nc: "\<not> e_committed t" using t(1) by (simp add: took_view_def)
    show ?thesis
      using Inr p s1(1) t eof nc
      by (auto simp: on_read_def s1_def [symmetric] Let_def clean_eof_def succeeded_failed
          split: option.splits prod.splits dest: commitLive_committed)
  qed
qed

lemma capture_run_took:
  "took_view G w0 m before s \<Longrightarrow> capture_run G is s = Inl r \<Longrightarrow>
   succeeded G w0 m (before @ input_events (e_parser s) is) r"
proof (induction "is" arbitrary: s before)
  case (Cons i "is")
  have committed: "e_committed t \<Longrightarrow> capture_run G is t = Inl r \<Longrightarrow> succeeded G w0 m evs r" for t evs
    using capture_run_committed [of t G "is" "fst r" "fst (snd r)" "snd (snd r)"]
    by (simp add: succeeded_committed)
  show ?case
  proof (cases i)
    case (Read data err ctx)
    obtain p events where p: "feedChunk (e_parser s) data (err \<noteq> None) = (p, events)" by force
    note d = on_read_took [OF Cons.prems(1) p, of ctx]
    have "succeeded G w0 m (before @ events @ input_events p is) r"
    proof (cases "on_read G data err ctx s")
      case (Inl x)
      with d Cons.prems(2) Read succeeded_prefix [of G w0 m "before @ events" r "input_events p is"]
      show ?thesis by simp
    next
      case (Inr t)
      with Cons.prems(2) Read have run: "capture_run G is t = Inl r" by simp
      from d Inr consider "e_committed t" | "took_view G w0 m (before @ events) t" "e_parser t = p" by auto
      then show ?thesis
      proof cases
        case 1
        with committed run show ?thesis by blast
      next
        case 2
        from Cons.IH [OF 2(1) run] 2(2) show ?thesis by simp
      qed
    qed
    with p Read show ?thesis by simp
  next
    case KeepTick
    show ?thesis
    proof (cases "on_keep G s")
      case (Inl x)
      with KeepTick Cons.prems(2) have "fst (snd r) \<noteq> None"
        using Cons.prems(1)
        by (auto simp: on_keep_def Let_def took_view_def split: if_splits prod.splits option.splits)
      then show ?thesis by (intro succeeded_failed) simp
    next
      case (Inr t)
      with KeepTick Cons.prems(2) have run: "capture_run G is t = Inl r" by simp
      from on_keep_next [OF Inr] Cons.prems(1)
      consider "e_committed t" | "took_view G w0 m before t" "e_parser t = e_parser s"
        by (auto simp: took_view_def)
      then show ?thesis
      proof cases
        case 1
        with committed run show ?thesis by blast
      next
        case 2
        from Cons.IH [OF 2(1) run] 2(2) KeepTick show ?thesis by simp
      qed
    qed
  qed (use Cons.prems(2) in \<open>auto simp: give_up_def succeeded_def split: if_splits\<close>)
qed simp

text \<open>
  A response that was buffered to its end and delivered passed every check of its wire:
  the events read, up to some point, were all accepted, the last one completed the
  response (or the wire accepted the clean end of the stream there), and what the client
  got is the wire's replay of exactly their bytes.
\<close>

lemma buffered_success_checked:
  assumes "captureSSECore G m w0 st inputs = Inl (True, None, s)" "\<not> e_committed s"
  shows "\<exists>n. sent_run G w0 m
    (take n (input_events (newParser (max (maxResponseBytes (g_cfg G)) 1)) inputs)) (e_w s)"
proof -
  have "took_view G w0 m [] (engine0 G m w0 st)"
    using spool_inv_new
    by (simp add: took_view_def engine0_def took_none) (simp add: newSpool_def spool_contents_def)
  from capture_run_took [OF this assms(1) [unfolded captureSSECore_def]] assms(2)
  show ?thesis by (auto simp: succeeded_def engine0_def)
qed

text \<open>A wire whose buffered replay sends the spool as it is.\<close>

locale raw_wire = wire_laws W for W :: "'m wire" +
  fixes rd :: spool_rd
  assumes replay_is_raw: "wm_replayBuffered W m sp w st = replayRaw rd sp w"
begin

lemma sent_run_raw:
  "g_wire G = W \<Longrightarrow> valid_config (g_cfg G) \<Longrightarrow> sent_run G w0 m evs w \<Longrightarrow> ds_body w = ds_body w0 @ raw_bytes evs"
  by (auto simp: sent_run_def replay_is_raw dest: replayRaw_contents)

end

text \<open>Arguments for the examples.\<close>

definition example_capture :: "'m wire \<Rightarrow> 'm capture" where
  "example_capture W = \<lparr>g_cfg = example_config, g_wire = W, g_hdr = Map.empty, g_io = (\<lambda>t. io_fine),
     g_keepEvery = 1000, g_progressGated = False, g_earlyCommit = False\<rparr>"

end
