(* ===== verification/Anthropic_Wire.thy ===== *)
theory Anthropic_Wire
  imports Engine
begin

text \<open>
  The Anthropic Messages wire (wire.go: \<open>anthropicWire\<close>), an instance of the engine's
  interface, and what the engine's contract means on it.
\<close>

record anthropicWire =
  aw_val :: streamValidator
  aw_toolVal :: toolJSONValidator
  aw_toolNorm :: normalizer
  aw_sawProgress :: bool
  aw_streamToolDeltas :: bool
  aw_interceptRefusal :: bool

definition newAnthropicWire :: "bool \<Rightarrow> anthropicWire" where
  "newAnthropicWire interceptRefusal = \<lparr>aw_val = validator0, aw_toolVal = toolVal0, aw_toolNorm = norm0,
     aw_sawProgress = False, aw_streamToolDeltas = False, aw_interceptRefusal = interceptRefusal\<rparr>"

text \<open>\<open>captureSSECore\<close> sets \<open>streamToolDeltas\<close> from \<open>progressGated\<close> when it starts.\<close>

definition anthropic_start :: "bool \<Rightarrow> bool \<Rightarrow> anthropicWire" where
  "anthropic_start interceptRefusal progressGated =
     (newAnthropicWire interceptRefusal)\<lparr>aw_streamToolDeltas := progressGated\<rparr>"

definition refusal_failure :: failure where
  "refusal_failure = failure0\<lparr>f_status := 502, f_atype := ''api_error'', f_code := refusalFallbackCode,
     f_message := ''model refused; retrying with fallback model''\<rparr>"

definition checked_shape :: "config \<Rightarrow> event \<Rightarrow> failure option" where
  "checked_shape cfg ev = (if validateJSON cfg then validateSSEEventShape ev else None)"

definition checked_tools ::
    "config \<Rightarrow> anthropicWire \<Rightarrow> event \<Rightarrow> anthropicWire \<times> failure option" where
  "checked_tools cfg a ev =
     (if validateJSON cfg
      then (case toolVal_accept cfg (aw_toolVal a) ev of (v, f) \<Rightarrow> (a\<lparr>aw_toolVal := v\<rparr>, f))
      else (a, None))"

definition anthropic_buffered ::
    "config \<Rightarrow> anthropicWire \<Rightarrow> event \<Rightarrow> captureStats \<Rightarrow> anthropicWire \<times> captureStats \<times> bool \<times> failure option" where
  "anthropic_buffered cfg a0 ev st =
     (case checked_shape cfg ev of
        Some f \<Rightarrow> (a0, st, False, Some f)
      | None \<Rightarrow>
          if ev_name ev = ''error'' then (a0, st, False, Some (classifySSEError (ev_data ev)))
          else (case checked_tools cfg a0 ev of
                  (a, Some f) \<Rightarrow> (a, st, False, Some f)
                | (a, None) \<Rightarrow>
                    let v = streamValidator_accept (aw_val a) ev;
                        b = a\<lparr>aw_val := v\<rparr>
                    in if v_invalid v
                       then (b, st, False, Some (malformedSSE ''out-of-order stream event''))
                       else let c = (if ev_name ev = ''content_block_delta'' then b\<lparr>aw_sawProgress := True\<rparr> else b)
                            in if terminal v then
                                 (if aw_interceptRefusal c \<and> st_stop st = ''refusal''
                                  then (c, st, False, Some refusal_failure)
                                  else (c, st, True, None))
                               else (c, st, False, None)))"

definition live_norm_failure :: "go_error \<Rightarrow> failure" where
  "live_norm_failure e =
     (if e = errTooLarge then classifyBufferError e
      else if e = errInvalidToolJSON then malformedSSE invalidToolInputMessage
      else malformedSSE ''invalid JSON in stream event'')"

definition anthropic_live ::
    "config \<Rightarrow> anthropicWire \<Rightarrow> event \<Rightarrow> bytes \<Rightarrow> captureStats \<Rightarrow>
     anthropicWire \<times> captureStats \<times> bytes list \<times> bool \<times> failure option" where
  "anthropic_live cfg a0 ev raw st =
     (case checked_shape cfg ev of
        Some f \<Rightarrow> (a0, st, [], False, Some f)
      | None \<Rightarrow>
          if ev_name ev = ''error'' then
            (let f = classifySSEError (ev_data ev)
             in if \<not> f_transient f then (a0, st, [raw], False, Some (f\<lparr>f_delivered := True\<rparr>))
                else (a0, st, [], False, Some f))
          else (case checked_tools cfg a0 ev of
                  (a, Some f) \<Rightarrow> (a, st, [], False, Some f)
                | (a, None) \<Rightarrow>
                    if aw_streamToolDeltas a then
                      (a\<lparr>aw_val := streamValidator_accept (aw_val a) ev\<rparr>, st, [raw],
                       ev_name ev = ''message_stop'', None)
                    else (case norm_accept cfg (aw_toolNorm a) ev raw of
                            (n, Inl e) \<Rightarrow> (a\<lparr>aw_toolNorm := n\<rparr>, st, [], False, Some (live_norm_failure e))
                          | (n, Inr out) \<Rightarrow>
                              let v = streamValidator_accept (aw_val a) ev
                              in (a\<lparr>aw_toolNorm := n, aw_val := v\<rparr>, st, out,
                                  ev_name ev = ''message_stop'' \<or> terminal v, None))))"

definition anthropic_replayPrefix ::
    "(bytes \<Rightarrow> bytes option) \<Rightarrow> config \<Rightarrow> spool_rd \<Rightarrow> anthropicWire \<Rightarrow> spool \<Rightarrow> downstream \<Rightarrow>
     anthropicWire \<times> downstream \<times> go_error option" where
  "anthropic_replayPrefix renum cfg rd a sp w =
     (if aw_streamToolDeltas a then (case replayRaw rd sp w of (w', e) \<Rightarrow> (a, w', e))
      else (case replayWithNormalizer renum cfg rd sp w (aw_toolNorm a) of
              (w', n, e) \<Rightarrow> (a\<lparr>aw_toolNorm := n\<rparr>, w', e)))"

definition keepalive_comment :: bytes where
  "keepalive_comment = '': keepalive'' @ [LF, LF]"

definition anthropic_wire :: "(bytes \<Rightarrow> bytes option) \<Rightarrow> config \<Rightarrow> spool_rd \<Rightarrow> anthropicWire wire" where
  "anthropic_wire renum cfg rd =
     \<lparr>wm_scrape = scrapeUsage,
      wm_buffered = anthropic_buffered cfg,
      wm_completeOnEOF = (\<lambda>a. False),
      wm_live = anthropic_live cfg,
      wm_keepalive = keepalive_comment,
      wm_replayBuffered = (\<lambda>a sp w st. replayWithUsage renum cfg rd sp w (Some st)),
      wm_replayPrefix = anthropic_replayPrefix renum cfg rd,
      wm_forwardable = aw_sawProgress\<rparr>"

section \<open>The wire keeps the engine's laws\<close>

lemma appends_replayWithUsage: "replayWithUsage renum cfg rd sp w st = (w', e) \<Longrightarrow> appends w w'"
  using appends_replayRaw [of w rd sp] appends_replay_norm
  by (fastforce simp: replayWithUsage_def replayBuffered_def split: if_splits sum.splits prod.splits)

lemma appends_replayWithNormalizer: "replayWithNormalizer renum cfg rd sp w n = (w', n', e) \<Longrightarrow> appends w w'"
  using appends_replay_norm by (fastforce simp: replayWithNormalizer_def split: sum.splits)

interpretation an: wire_laws "anthropic_wire renum cfg rd" for renum and cfg :: config and rd :: spool_rd
proof
  show "appends w w'" if "wm_replayBuffered (anthropic_wire renum cfg rd) m sp w st = (w', e)" for m sp w st w' e
    using that by (auto simp: anthropic_wire_def dest: appends_replayWithUsage)
  show "appends w w'" if "wm_replayPrefix (anthropic_wire renum cfg rd) m sp w = (m', w', e)" for m sp w m' w' e
    using that appends_replayRaw [of w rd sp]
    by (auto simp: anthropic_wire_def anthropic_replayPrefix_def dest: appends_replayWithNormalizer
        split: if_splits prod.splits)
qed

text \<open>
  C3. The contract of the engine on the Messages wire: if the capture reports that
  nothing was written, the client's connection is untouched and there is a failure to
  report; if it reports that something was written, the client has exactly one status
  line, 200, the stream's headers, and a body that only grew.
\<close>

theorem anthropic_contract:
  assumes "captureSSECore G (anthropic_start intercept gated) w0 st inputs = Inl (wrote, fail, s)"
    and "g_wire G = anthropic_wire renum cfg rd"
  shows "if wrote then sent_ok G w0 (e_w s) else e_w s = w0 \<and> fail \<noteq> None"
  using an.captureSSECore_ok [OF assms(2), of w0 "anthropic_start intercept gated" st inputs] assms(1)
  by (simp add: step_good_def result_ok_def)

section \<open>A delivered response is a message\<close>

lemma toolVal_run_snoc:
  "toolVal_run cfg v evs = (v1, None) \<Longrightarrow> toolVal_run cfg v (evs @ [ev]) = toolVal_accept cfg v1 ev"
proof (induction evs arbitrary: v)
  case Nil
  then show ?case by (cases "toolVal_accept cfg v1 ev"; cases "snd (toolVal_accept cfg v1 ev)") auto
next
  case (Cons e evs)
  then show ?case by (auto split: prod.splits option.splits)
qed

lemma sawStop_step: "v_sawStop (v_accept_name n v) \<longleftrightarrow> v_sawStop v \<or> n = ''message_stop''"
  by (simp add: v_accept_name_def)

text \<open>With no fault, a validator that has seen the stop is terminal.\<close>

lemma stop_is_terminal:
  "n = ''message_stop'' \<Longrightarrow> \<not> v_invalid (v_accept_name n v) \<Longrightarrow> terminal (v_accept_name n v)"
  by (simp add: v_accept_name_def terminal_def)

definition took_message :: "config \<Rightarrow> event list \<Rightarrow> anthropicWire \<Rightarrow> bool \<Rightarrow> bool" where
  "took_message cfg evs a dn =
     (aw_val a = foldl streamValidator_accept validator0 evs \<and>
      (\<forall>ev \<in> set evs. ev_name ev \<noteq> ''error'') \<and>
      (validateJSON cfg \<longrightarrow> toolVal_run cfg toolVal0 evs = (aw_toolVal a, None)) \<and>
      (if dn then terminal (aw_val a) \<and> (\<exists>es ev. evs = es @ [ev] \<and> ev_name ev = ''message_stop'' \<and>
               (\<forall>e \<in> set es. ev_name e \<noteq> ''message_stop''))
       else \<not> v_sawStop (aw_val a) \<and> (\<forall>e \<in> set evs. ev_name e \<noteq> ''message_stop'')))"

lemma checked_tools_val: "checked_tools cfg a ev = (b, f) \<Longrightarrow> aw_val b = aw_val a"
  by (auto simp: checked_tools_def split: if_splits prod.splits)

lemma took_is_message:
  "took (anthropic_wire renum cfg rd) (anthropic_start intercept gated) evs a dn \<Longrightarrow> took_message cfg evs a dn"
proof (induction rule: took.induct)
  case took_none
  then show ?case
    by (simp add: took_message_def anthropic_start_def newAnthropicWire_def validator0_def)
next
  case (took_event evs a1 ev st a2 st' dn)
  from took_event.hyps(2) have b: "anthropic_buffered cfg a1 ev st = (a2, st', dn, None)"
    by (simp add: anthropic_wire_def)
  obtain b f where c: "checked_tools cfg a1 ev = (b, f)" by force
  from b c have n: "ev_name ev \<noteq> ''error''" "f = None"
    by (auto simp: anthropic_buffered_def Let_def split: option.splits if_splits)
  from b c n have v: "aw_val a2 = streamValidator_accept (aw_val a1) ev" "aw_toolVal a2 = aw_toolVal b"
    "\<not> v_invalid (aw_val a2)" "dn \<longleftrightarrow> terminal (aw_val a2)"
    using checked_tools_val [OF c]
    by (auto simp: anthropic_buffered_def Let_def split: option.splits if_splits)
  have tools: "validateJSON cfg \<Longrightarrow> toolVal_run cfg toolVal0 (evs @ [ev]) = (aw_toolVal a2, None)"
    using toolVal_run_snoc [of cfg toolVal0 evs "aw_toolVal a1" ev] took_event.IH c n(2) v(2)
    by (auto simp: took_message_def checked_tools_def split: prod.splits)
  have stop: "dn \<longleftrightarrow> ev_name ev = ''message_stop''"
    using v(3,4) took_event.IH stop_is_terminal [of "ev_name ev" "aw_val a1"] sawStop_step [of "ev_name ev" "aw_val a1"]
    unfolding v(1) streamValidator_accept_def by (auto simp: took_message_def terminal_def)
  show ?case
    using took_event.IH v(1,4) n(1) tools stop sawStop_step [of "ev_name ev" "aw_val a1"]
    by (auto simp: took_message_def streamValidator_accept_def)
qed

text \<open>
  C7. Everything the proxy delivers as a buffered success on the Messages route is one
  complete message: the events it took form a transcript (one start, every content block
  closed, one stop, nothing after it), none of them is an error, and every tool input in
  it was accepted.
\<close>

theorem anthropic_success_is_message:
  assumes "captureSSECore G (anthropic_start intercept gated) w0 st inputs = Inl (True, None, s)"
    and "\<not> e_committed s" "g_wire G = anthropic_wire renum cfg rd"
  shows "\<exists>n. let evs = take n (input_events (newParser (max (maxResponseBytes (g_cfg G)) 1)) inputs) in
    transcript (map ev_name evs) \<and> (\<forall>ev \<in> set evs. ev_name ev \<noteq> ''error'') \<and>
    (validateJSON cfg \<longrightarrow> snd (toolVal_run cfg toolVal0 evs) = None)"
proof -
  let ?evs = "input_events (newParser (max (maxResponseBytes (g_cfg G)) 1)) inputs"
  obtain n a where "took (anthropic_wire renum cfg rd) (anthropic_start intercept gated) (take n ?evs) a True"
    using buffered_success_checked [OF assms(1,2)] assms(3)
    by (auto simp: sent_run_def anthropic_wire_def)
  from took_is_message [OF this] have m: "took_message cfg (take n ?evs) a True" .
  then obtain es ev where es: "take n ?evs = es @ [ev]" "ev_name ev = ''message_stop''"
    "\<forall>e \<in> set es. ev_name e \<noteq> ''message_stop''" and t: "terminal (v_run validator0 (map ev_name (es @ [ev])))"
    by (auto simp: took_message_def v_run_events)
  from es(3) have "''message_stop'' \<notin> set (map ev_name es)" by auto
  with es t terminal_transcript [of "map ev_name es"] have "transcript (map ev_name (take n ?evs))"
    by simp
  with m show ?thesis by (intro exI [of _ n]) (auto simp: took_message_def Let_def)
qed

definition example_message :: "input list" where
  "example_message =
     [Read (''event: message_start'' @ [LF] @ ''data: {}'' @ [LF, LF] @ ''event: message_st'') None CtxOk,
      Read (''op'' @ [LF] @ ''data: {}'' @ [LF, LF]) None CtxOk]"

definition example_anthropic :: "anthropicWire wire" where
  "example_anthropic = anthropic_wire Some (example_config\<lparr>normalizeToolJSON := False\<rparr>) rd_fine"

lemma example_capture_run:
  "case captureSSECore (example_capture example_anthropic) (anthropic_start False False) w_new stats0 example_message of
     Inl (True, None, s) \<Rightarrow> \<not> e_committed s \<and> length (ds_body (e_w s)) = 61
   | _ \<Rightarrow> False"
  by code_simp

lemma example_capture_result:
  obtains s where "captureSSECore (example_capture example_anthropic) (anthropic_start False False)
      w_new stats0 example_message = Inl (True, None, s)"
    "\<not> e_committed s" "length (ds_body (e_w s)) = 61"
  using example_capture_run by (auto split: sum.splits prod.splits option.splits bool.splits)

theorem anthropic_success_is_message_witness:
  "\<exists>n. transcript (map ev_name (take n (input_events (newParser 4000) example_message)))"
proof -
  obtain s where s: "captureSSECore (example_capture example_anthropic) (anthropic_start False False)
      w_new stats0 example_message = Inl (True, None, s)" "\<not> e_committed s"
    by (rule example_capture_result)
  have "g_wire (example_capture example_anthropic) =
      anthropic_wire Some (example_config\<lparr>normalizeToolJSON := False\<rparr>) rd_fine"
    by (simp add: example_capture_def example_anthropic_def)
  from anthropic_success_is_message [OF s this] show ?thesis
    by (auto simp: Let_def example_capture_def example_config_def)
qed

theorem anthropic_contract_witness:
  "case captureSSECore (example_capture example_anthropic) (anthropic_start False False)
      w_new stats0 example_message of
     Inl (wrote, fail, s) \<Rightarrow> wrote \<and> sent_ok (example_capture example_anthropic) w_new (e_w s)
   | Inr s \<Rightarrow> False"
proof -
  obtain s where s: "captureSSECore (example_capture example_anthropic) (anthropic_start False False)
      w_new stats0 example_message = Inl (True, None, s)"
    by (rule example_capture_result)
  have "g_wire (example_capture example_anthropic) =
      anthropic_wire Some (example_config\<lparr>normalizeToolJSON := False\<rparr>) rd_fine"
    by (simp add: example_capture_def example_anthropic_def)
  from anthropic_contract [OF s this] s show ?thesis by simp
qed

end
