(* ===== verification/Responses_Errors.thy ===== *)
theory Responses_Errors
  imports Complex_Main Classify
begin

text \<open>
  The OpenAI error classifier (responses.go): the identity of an error, read once for
  in-band and HTTP errors, the delay advertised in a rate-limit message, and the two
  classifiers that use them.
\<close>

section \<open>Identities\<close>

definition firstNonEmpty :: "bytes \<Rightarrow> bytes \<Rightarrow> bytes" where
  "firstNonEmpty a b = (if a \<noteq> [] then a else b)"

definition responsesIdent :: "bytes \<Rightarrow> bytes" where
  "responsesIdent s = to_lower (trim_space s)"

definition isResponsesQuotaIdentity :: "bytes \<Rightarrow> bool" where
  "isResponsesQuotaIdentity s =
     (s \<in> {''insufficient_quota'', ''usage_limit_reached'', ''usage_not_included''})"

definition responsesRejectedStatus :: "bytes \<Rightarrow> int" where
  "responsesRejectedStatus t =
     (if t = ''authentication_error'' then 401
      else if t = ''permission_error'' then 403
      else if t = ''not_found_error'' then 404
      else 0)"

definition isResponsesRequestShapeCode :: "bytes \<Rightarrow> bool" where
  "isResponsesRequestShapeCode c = (c \<in>
     {''context_length_exceeded'', ''string_above_max_length'', ''invalid_prompt'',
      ''invalid_image'', ''invalid_image_format'', ''invalid_image_url'',
      ''invalid_base64_image'', ''image_parse_error'', ''image_too_large'',
      ''invalid_image_mode'', ''empty_image_file'',
      ''unknown_parameter'', ''unsupported_parameter'', ''missing_required_parameter'',
      ''model_not_found'', ''unsupported_value'', ''invalid_type'',
      ''bio_policy'', ''cyber_policy''})"

definition isCodexRecoverableError :: "bytes \<Rightarrow> bool" where
  "isCodexRecoverableError code = (trim_space code = ''context_length_exceeded'')"

datatype responsesFault =
    faultUnknown | faultTimeout | faultRateLimit | faultOverloaded
  | faultRequestShape | faultQuota | faultRejected

definition responsesRequestTooLarge :: bytes where
  "responsesRequestTooLarge = ''must be reduced in order to run successfully''"

definition responsesFaultOf :: "bytes \<Rightarrow> bytes \<Rightarrow> bytes \<Rightarrow> responsesFault" where
  "responsesFaultOf t c msg =
     (if isResponsesQuotaIdentity t \<or> isResponsesQuotaIdentity c then faultQuota
      else if contains msg responsesRequestTooLarge \<or> isResponsesRequestShapeCode c
      then faultRequestShape
      else if c = ''request_timeout'' then faultTimeout
      else if c = ''rate_limit_exceeded'' then faultRateLimit
      else if c = ''server_is_overloaded'' \<or> c = ''overloaded'' then faultOverloaded
      else if t = ''timeout_error'' then faultTimeout
      else if t = ''rate_limit_error'' then faultRateLimit
      else if t = ''overloaded_error'' \<or> t = ''service_unavailable_error'' then faultOverloaded
      else if t = ''invalid_request_error'' then faultRequestShape
      else if t = [] then (if anyContains msg requestShapeSigs then faultRequestShape else faultUnknown)
      else if responsesRejectedStatus t \<noteq> 0 then faultRejected
      else faultUnknown)"

section \<open>float64\<close>

text \<open>
  The delay is summed in binary floating point. \<open>fl\<close> rounds a positive rational to the
  nearest float64, ties to even; the exponent is not bounded above, which no result
  here can tell: a sum past the largest float is past \<open>math.MaxInt32\<close> too.
\<close>

definition pow2 :: "int \<Rightarrow> rat" where
  "pow2 e = (if 0 \<le> e then 2 ^ nat e else 1 / 2 ^ nat (- e))"

function bit_length :: "int \<Rightarrow> int" where
  "bit_length n = (if n \<le> 0 then 0 else 1 + bit_length (n div 2))"
  by pat_completeness auto
termination
  by (relation "measure nat") auto

declare bit_length.simps [simp del]

text \<open>The exponent of the leading bit of a positive rational.\<close>

definition log2_floor :: "rat \<Rightarrow> int" where
  "log2_floor r =
     (case quotient_of r of (n, d) \<Rightarrow>
        let k = bit_length n - bit_length d
        in if r < pow2 k then k - 1 else k)"

definition half_even :: "rat \<Rightarrow> int" where
  "half_even r =
     (let m = \<lfloor>r\<rfloor>; x = r - of_int m
      in if x < 1 / 2 then m else if 1 / 2 < x then m + 1 else if even m then m else m + 1)"

definition fl :: "rat \<Rightarrow> rat" where
  "fl r =
     (if r = 0 then 0
      else let e = max (-1074) (log2_floor r - 52)
           in of_int (half_even (r / pow2 e)) * pow2 e)"

text \<open>
  \<open>strconv.ParseFloat\<close> of decimal digits with an optional fraction: correctly rounded,
  an error when that leaves the exponents of a float64.
\<close>

definition decimal_val :: "bytes \<Rightarrow> rat" where
  "decimal_val s =
     (case str_cut s ''.'' of
        None \<Rightarrow> of_int (digits_val 0 s)
      | Some (a, b) \<Rightarrow> of_int (digits_val 0 (a @ b)) / 10 ^ length b)"

definition parse_float :: "bytes \<Rightarrow> rat option" where
  "parse_float s = (let v = fl (decimal_val s) in if 1024 \<le> log2_floor v then None else Some v)"

section \<open>The delay in a message\<close>

definition re_space :: "char \<Rightarrow> bool" where
  "re_space c = (c \<in> {CHR 0x09, CHR 0x0A, CHR 0x0C, CHR 0x0D, CHR 0x20})"

text \<open>
  \<open>[a-z]+\<close> under \<open>(?i)\<close>: ASCII letters of either case, and the long s and Kelvin sign
  that Unicode folds to them.
\<close>

definition letter_width :: "bytes \<Rightarrow> nat" where
  "letter_width s =
     (case s of
        [] \<Rightarrow> 0
      | c # t \<Rightarrow>
          if byte_in 65 90 c \<or> byte_in 97 122 c then 1
          else if has_prefix s [CHR 0xC5, CHR 0xBF] then 2
          else if has_prefix s [CHR 0xE2, CHR 0x84, CHR 0xAA] then 3
          else 0)"

lemma letter_width_pos: "letter_width s \<noteq> 0 \<Longrightarrow> s \<noteq> []"
  by (auto simp: letter_width_def)

function take_letters :: "bytes \<Rightarrow> bytes \<times> bytes" where
  "take_letters s =
     (if letter_width s = 0 then ([], s)
      else case take_letters (drop (letter_width s) s) of
             (u, t) \<Rightarrow> (take (letter_width s) s @ u, t))"
  by pat_completeness auto
termination
  by (relation "measure length") (auto simp: letter_width_pos)

declare take_letters.simps [simp del]

text \<open>\<open>[0-9]+(?:\.[0-9]+)?\<close>: each class excludes the next one's bytes, so greedy is the only way.\<close>

definition take_number :: "bytes \<Rightarrow> bytes \<times> bytes" where
  "take_number s =
     (let d = takeWhile is_digit s; t = dropWhile is_digit s in
      case t of
        [] \<Rightarrow> (d, t)
      | p # t' \<Rightarrow>
          if p = CHR ''.'' \<and> takeWhile is_digit t' \<noteq> []
          then (d @ p # takeWhile is_digit t', dropWhile is_digit t')
          else (d, t))"

text \<open>One number+unit term with the space after it: the term and the rest.\<close>

definition delay_term :: "bytes \<Rightarrow> ((bytes \<times> bytes) \<times> bytes) option" where
  "delay_term s =
     (if takeWhile is_digit s = [] then None
      else case take_number s of (num, t) \<Rightarrow>
        case take_letters (dropWhile re_space t) of (u, t') \<Rightarrow>
          if u = [] then None else Some ((num, u), dropWhile re_space t'))"

lemma take_letters_split: "take_letters s = (u, t) \<Longrightarrow> s = u @ t"
proof (induction s arbitrary: u t rule: take_letters.induct)
  case (1 s)
  show ?case
  proof (cases "letter_width s = 0")
    case True
    with "1.prems" show ?thesis by (simp add: take_letters.simps)
  next
    case False
    obtain u' t' where r: "take_letters (drop (letter_width s) s) = (u', t')" by fastforce
    with "1.prems" False have "u = take (letter_width s) s @ u'" "t = t'"
      by (auto simp: take_letters.simps [of s])
    with "1.IH" [OF False r] show ?thesis
      by (metis append_assoc append_take_drop_id)
  qed
qed

lemma dropWhile_length_le: "length (dropWhile P s) \<le> length s"
  by (induction s) auto

lemma take_number_length: "take_number s = (n, t) \<Longrightarrow> length t \<le> length s"
proof -
  assume a: "take_number s = (n, t)"
  have le: "length (dropWhile is_digit s) \<le> length s" by (rule dropWhile_length_le)
  show ?thesis
  proof (cases "dropWhile is_digit s")
    case Nil
    with a show ?thesis by (simp add: take_number_def)
  next
    case (Cons p s')
    have "length (dropWhile is_digit s') \<le> length s'" by (rule dropWhile_length_le)
    with Cons le have "length (dropWhile is_digit s') \<le> length s" by simp
    with a Cons le show ?thesis by (auto simp: take_number_def Let_def intro: dropWhile_length_le split: if_splits)
  qed
qed

lemma delay_term_length: "delay_term s = Some (p, t) \<Longrightarrow> length t < length s"
proof -
  assume a: "delay_term s = Some (p, t)"
  then obtain num t1 u t2 where 1: "take_number s = (num, t1)"
      "take_letters (dropWhile re_space t1) = (u, t2)" "u \<noteq> []" "t = dropWhile re_space t2"
    by (auto simp: delay_term_def split: if_splits prod.splits)
  have "length t \<le> length t2" using 1(4) dropWhile_length_le by auto
  moreover have "length t2 < length (dropWhile re_space t1)"
    using take_letters_split [OF 1(2)] 1(3) by simp
  moreover have "length (dropWhile re_space t1) \<le> length t1" by (rule dropWhile_length_le)
  moreover have "length t1 \<le> length s" using take_number_length [OF 1(1)] .
  ultimately show ?thesis by simp
qed

function delay_terms :: "bytes \<Rightarrow> (bytes \<times> bytes) list" where
  "delay_terms s = (case delay_term s of None \<Rightarrow> [] | Some (p, t) \<Rightarrow> p # delay_terms t)"
  by pat_completeness auto
termination
  by (relation "measure length") (auto simp: delay_term_length)

declare delay_terms.simps [simp del]

text \<open>The terms of the leftmost match of \<open>retryAfterMsgRe\<close>, none without a match.\<close>

fun advertised_terms :: "bytes \<Rightarrow> (bytes \<times> bytes) list" where
  "advertised_terms [] = []"
| "advertised_terms (c # s) =
     (let t = drop 12 (c # s) in
      if map lower_char (take 12 (c # s)) = ''try again in'' \<and> t \<noteq> [] \<and> re_space (hd t)
         \<and> delay_terms (dropWhile re_space t) \<noteq> []
      then delay_terms (dropWhile re_space t)
      else advertised_terms s)"

definition retryAfterUnitSeconds :: "bytes \<Rightarrow> rat" where
  "retryAfterUnitSeconds u =
     (let unit = to_lower u in
      if unit \<in> {''ms'', ''millisecond'', ''milliseconds''} then fl (1 / 1000)
      else if unit \<in> {''s'', ''sec'', ''secs'', ''second'', ''seconds''} then 1
      else if unit \<in> {''m'', ''min'', ''mins'', ''minute'', ''minutes''} then 60
      else if unit \<in> {''h'', ''hour'', ''hours''} then 3600
      else 0)"

fun delay_total :: "rat \<Rightarrow> (bytes \<times> bytes) list \<Rightarrow> rat" where
  "delay_total acc [] = acc"
| "delay_total acc ((num, u) # ts) =
     (case parse_float num of
        None \<Rightarrow> acc
      | Some v \<Rightarrow>
          if retryAfterUnitSeconds u = 0 then acc
          else delay_total (fl (acc + fl (v * retryAfterUnitSeconds u))) ts)"

definition max_int32 :: int where
  "max_int32 = 2147483647"

definition parseRetryAfterFromMessage :: "bytes \<Rightarrow> int" where
  "parseRetryAfterFromMessage message =
     (let total = delay_total 0 (advertised_terms message) in
      if total \<le> 0 then 0
      else if of_int max_int32 \<le> total then max_int32
      else max 1 \<lceil>fl (total - fl (1 / 10 ^ 9))\<rceil>)"

section \<open>The classifiers\<close>

definition classifyResponsesError :: "bytes \<Rightarrow> bytes \<Rightarrow> bytes \<Rightarrow> failure" where
  "classifyResponsesError errType errCode message =
     (let t = responsesIdent errType; c = responsesIdent errCode in
      case responsesFaultOf t c (to_lower message) of
        faultTimeout \<Rightarrow> failure0\<lparr>f_transient := True, f_status := 504, f_atype := ''timeout_error'',
          f_code := ''responses_timeout'', f_message := message\<rparr>
      | faultRateLimit \<Rightarrow> failure0\<lparr>f_transient := True, f_status := 429,
          f_atype := ''rate_limit_error'', f_code := ''responses_rate_limit'',
          f_message := message, f_retryAfter := parseRetryAfterFromMessage message\<rparr>
      | faultOverloaded \<Rightarrow> failure0\<lparr>f_transient := True, f_status := 529,
          f_atype := ''overloaded_error'', f_code := ''responses_overloaded'', f_message := message\<rparr>
      | faultQuota \<Rightarrow> failure0\<lparr>f_status := 429,
          f_atype := (if isResponsesQuotaIdentity t then t else c),
          f_code := ''responses_quota'', f_message := message\<rparr>
      | faultRequestShape \<Rightarrow> failure0\<lparr>f_status := 400, f_atype := ''invalid_request_error'',
          f_code := ''responses_request_shape'', f_message := message\<rparr>
      | faultRejected \<Rightarrow> failure0\<lparr>f_status := responsesRejectedStatus t, f_atype := t,
          f_code := ''responses_'' @ t, f_message := message\<rparr>
      | faultUnknown \<Rightarrow> failure0\<lparr>f_transient := True, f_status := 502, f_atype := ''api_error'',
          f_code := ''responses_error'', f_message := message\<rparr>)"

definition responsesErrorVerdict :: errorBodyRule where
  "responsesErrorVerdict atype code msg bodyLower =
     (case responsesFaultOf (responsesIdent atype) (responsesIdent code) (to_lower msg) of
        faultTimeout \<Rightarrow> verdictTransient
      | faultRateLimit \<Rightarrow> verdictTransient
      | faultOverloaded \<Rightarrow> verdictTransient
      | faultRequestShape \<Rightarrow> verdictPermanent
      | faultQuota \<Rightarrow> verdictPermanent
      | faultUnknown \<Rightarrow> verdictUnknown
      | faultRejected \<Rightarrow> verdictUnknown)"

definition classifyResponsesHTTPErrorBytes :: "env \<Rightarrow> int \<Rightarrow> header \<Rightarrow> bytes \<Rightarrow> failure" where
  "classifyResponsesHTTPErrorBytes E st h b =
     (let f = classifyHTTPErrorBytesShaped E st h b responsesErrorVerdict;
          d = parseRetryAfterFromMessage (f_message f)
      in if f_transient f \<and> f_retryAfter f = 0 \<and> 0 < d then f\<lparr>f_retryAfter := d\<rparr> else f)"

section \<open>Rounding\<close>

lemma pow2_powi: "pow2 e = 2 powi e"
  by (simp add: pow2_def power_int_def inverse_eq_divide power_divide)

lemma pow2_pos [simp]: "0 < pow2 e"
  by (simp add: pow2_def)

lemma pow2_add: "pow2 (a + b) = pow2 a * pow2 b"
  by (simp add: pow2_powi power_int_add)

lemma pow2_mono: "a \<le> b \<Longrightarrow> pow2 a \<le> pow2 b"
  by (simp add: pow2_powi power_int_increasing)

lemma bit_length_bounds:
  "0 < n \<Longrightarrow> 0 < bit_length n \<and> pow2 (bit_length n - 1) \<le> of_int n \<and> of_int n < pow2 (bit_length n)"
proof (induction n rule: bit_length.induct)
  case (1 n)
  show ?case
  proof (cases "n = 1")
    case True
    then show ?thesis by (simp add: bit_length.simps pow2_def)
  next
    case False
    with "1.prems" have p: "0 < n div 2" by linarith
    define k where "k = bit_length (n div 2)"
    from "1.IH" p "1.prems" have k: "0 < k" "pow2 (k - 1) \<le> of_int (n div 2)" "of_int (n div 2) < pow2 k"
      by (simp_all add: k_def)
    have n: "bit_length n = 1 + k" using "1.prems" by (simp add: bit_length.simps [of n] k_def)
    have two: "pow2 (j + 1) = 2 * pow2 j" for j by (simp add: pow2_add) (simp add: pow2_def)
    have "pow2 k = of_int (2 ^ nat k)" using k(1) by (simp add: pow2_def)
    with k(3) have "of_int (n div 2) < (of_int (2 ^ nat k) :: rat)" by simp
    hence "n div 2 < 2 ^ nat k" by (simp only: of_int_less_iff)
    hence "n < 2 * 2 ^ nat k" by linarith
    hence "(of_int n :: rat) < of_int (2 * 2 ^ nat k)" by (simp only: of_int_less_iff)
    hence hi: "of_int n < 2 * pow2 k" using k(1) by (simp add: pow2_def)
    have "2 * (n div 2) \<le> n" by linarith
    hence "(of_int (2 * (n div 2)) :: rat) \<le> of_int n" by (simp only: of_int_le_iff)
    with k(2) have "2 * pow2 (k - 1) \<le> of_int n" by simp
    with hi n k(1) two [of "k - 1"] two [of k] show ?thesis by (simp add: add.commute)
  qed
qed

lemma log2_floor_bound:
  assumes "0 < r" "r < 2 ^ m"
  shows "log2_floor r < int m"
proof -
  obtain n d where q: "quotient_of r = (n, d)" by fastforce
  have d: "0 < d" using quotient_of_denom_pos [OF q] .
  have r: "r = of_int n / of_int d" using quotient_of_div [OF q] .
  with assms d have n: "0 < n" by (simp add: zero_less_divide_iff)
  define k where "k = bit_length n - bit_length d"
  have "pow2 (k - 1) * of_int d \<le> pow2 (k - 1) * pow2 (bit_length d)"
    using bit_length_bounds [OF d] by (simp add: less_imp_le)
  also have "\<dots> = pow2 (bit_length n - 1)" by (simp add: k_def flip: pow2_add)
  also have "\<dots> \<le> of_int n" using bit_length_bounds [OF n] by simp
  finally have "pow2 (k - 1) \<le> r" using d by (simp add: r le_divide_eq)
  hence lo: "pow2 (log2_floor r) \<le> r"
    by (auto simp: log2_floor_def q Let_def k_def)
  show ?thesis
  proof (rule ccontr)
    assume "\<not> ?thesis"
    hence "pow2 (int m) \<le> pow2 (log2_floor r)" by (intro pow2_mono) simp
    with lo assms(2) show False by (simp add: pow2_def)
  qed
qed

lemma half_even_bounds:
  "of_int a \<le> r \<Longrightarrow> a \<le> half_even r"
  "r \<le> of_int b \<Longrightarrow> half_even r \<le> b"
proof -
  show "a \<le> half_even r" if "of_int a \<le> r"
  proof -
    from that have "a \<le> \<lfloor>r\<rfloor>" by (simp add: le_floor_iff)
    then show ?thesis by (auto simp: half_even_def Let_def)
  qed
  show "half_even r \<le> b" if "r \<le> of_int b"
  proof (cases "r = of_int b")
    case True
    then show ?thesis by (simp add: half_even_def)
  next
    case False
    with that have "\<lfloor>r\<rfloor> < b" by (simp add: floor_less_iff)
    then show ?thesis by (auto simp: half_even_def Let_def)
  qed
qed

text \<open>Rounding a number of moderate size does not cross a multiple of a power of one half.\<close>

lemma fl_grid:
  assumes "0 \<le> r" "r < 2 ^ m" "m + g \<le> 52" "of_int a / 2 ^ g \<le> r" "r \<le> of_int b / 2 ^ g"
  shows "of_int a / 2 ^ g \<le> fl r \<and> fl r \<le> of_int b / 2 ^ g"
proof (cases "r = 0")
  case True
  with assms show ?thesis by (simp add: fl_def)
next
  case False
  with assms have r: "0 < r" by simp
  define e where "e = max (-1074) (log2_floor r - 52)"
  define j where "j = nat (- int g - e)"
  have e: "e \<le> - int g" using log2_floor_bound [OF r assms(2)] assms(3) by (simp add: e_def)
  have "pow2 (- int g) = pow2 (- int g - e) * pow2 e" by (simp flip: pow2_add)
  moreover have "pow2 (- int g - e) = of_int (2 ^ j)" using e by (simp add: pow2_def j_def)
  moreover have "pow2 (- int g) = 1 / 2 ^ g" by (auto simp: pow2_def)
  ultimately have half: "1 / 2 ^ g = of_int (2 ^ j) * pow2 e" by simp
  have scale: "of_int c / 2 ^ g = of_int (c * 2 ^ j) * pow2 e" for c
  proof -
    have "(of_int c / 2 ^ g :: rat) = of_int c * (1 / 2 ^ g)" by simp
    also have "\<dots> = of_int (c * 2 ^ j) * pow2 e" unfolding half by simp
    finally show ?thesis .
  qed
  from assms(4) have "of_int (a * 2 ^ j) \<le> r / pow2 e" by (simp only: scale le_divide_eq pow2_pos if_True)
  moreover from assms(5) have "r / pow2 e \<le> of_int (b * 2 ^ j)" by (simp only: scale divide_le_eq pow2_pos if_True)
  ultimately have "a * 2 ^ j \<le> half_even (r / pow2 e)" "half_even (r / pow2 e) \<le> b * 2 ^ j"
    by (auto intro: half_even_bounds)
  hence "(of_int (a * 2 ^ j) :: rat) \<le> of_int (half_even (r / pow2 e))"
    "(of_int (half_even (r / pow2 e)) :: rat) \<le> of_int (b * 2 ^ j)"
    by (simp_all only: of_int_le_iff)
  then show ?thesis
    using False unfolding fl_def Let_def e_def [symmetric] scale by simp
qed

lemma fl_between:
  assumes "0 \<le> r" "r < 2 ^ 50" "of_int a / 2 \<le> r" "r \<le> of_int b / 2"
  shows "of_int a / 2 \<le> fl r \<and> fl r \<le> of_int b / 2"
  using fl_grid [of r 50 1 a b] assms by simp

lemma fl_int: "0 \<le> n \<Longrightarrow> n < 2 ^ 49 \<Longrightarrow> fl (of_int n) = of_int n"
proof -
  assume n: "0 \<le> n" "n < 2 ^ 49"
  hence "(of_int n :: rat) < of_int (2 ^ 49)" by (simp only: of_int_less_iff)
  with n fl_between [of "of_int n" "2 * n" "2 * n"] show ?thesis by simp
qed

section \<open>Advertised delays\<close>

lemma take_number_int:
  "list_all is_digit ds \<Longrightarrow> ds \<noteq> [] \<Longrightarrow> \<not> is_digit c \<Longrightarrow> c \<noteq> CHR ''.'' \<Longrightarrow>
   take_number (ds @ c # t) = (ds, c # t)"
proof -
  assume a: "list_all is_digit ds" "\<not> is_digit c" "c \<noteq> CHR ''.''"
  hence "takeWhile is_digit (ds @ c # t) = ds" "dropWhile is_digit (ds @ c # t) = c # t"
    by (simp_all add: list_all_iff takeWhile_append dropWhile_append)
  with a show ?thesis by (simp add: take_number_def)
qed

lemma delay_terms_seconds:
  assumes "list_all is_digit ds" "ds \<noteq> []"
  shows "delay_terms (ds @ ''s.'') = [(ds, ''s'')]"
proof -
  have s: "take_letters ''s.'' = (''s'', ''.'')" by code_simp
  have e: "delay_term ''.'' = None" by code_simp
  have "takeWhile is_digit (ds @ ''s.'') \<noteq> []"
    using assms by (cases ds) auto
  moreover have "take_number (ds @ ''s.'') = (ds, ''s.'')"
    using assms by (intro take_number_int) (simp_all add: is_digit_def)
  ultimately have "delay_term (ds @ ''s.'') = Some ((ds, ''s''), ''.'')"
    by (simp add: delay_term_def s re_space_def)
  with e show ?thesis by (simp add: delay_terms.simps [of "ds @ ''s.''"] delay_terms.simps [of "''.''"])
qed

lemma advertised_seconds_terms:
  assumes "list_all is_digit ds" "ds \<noteq> []"
  shows "advertised_terms (''Please try again in '' @ ds @ ''s.'') = [(ds, ''s'')]"
proof -
  have "\<not> re_space c" if "is_digit c" for c
    using that by (auto simp: re_space_def is_digit_def)
  with assms have d: "dropWhile re_space (ds @ ''s.'') = ds @ ''s.''"
    by (cases ds) auto
  have "re_space (CHR 0x20)" by (simp add: re_space_def)
  then show ?thesis
    by (simp add: Let_def lower_char_def d delay_terms_seconds [OF assms])
qed

lemma digits_no_dot: "list_all is_digit a \<Longrightarrow> CHR ''.'' \<notin> set a"
  by (auto simp: list_all_iff is_digit_def)

lemma str_cut_dot: "CHR ''.'' \<notin> set a \<Longrightarrow> str_cut (a @ CHR ''.'' # b) ''.'' = Some (a, b)"
  by (induction a) (auto simp: has_prefix_iff)

lemma no_dot: "CHR ''.'' \<notin> set s \<Longrightarrow> str_cut s ''.'' = None"
  by (induction s) auto

text \<open>
  When a rate limit advertises a whole number of seconds, the proxy waits exactly
  that long: the binary floating-point sum and the rounding up lose nothing, up to the
  cap of 2^31 - 1 seconds.
\<close>

theorem advertised_seconds:
  assumes "0 < n" "n \<le> max_int32"
  shows "parseRetryAfterFromMessage (''Please try again in '' @ itoa n @ ''s.'') = n"
proof -
  have i: "list_all is_digit (itoa n)" "itoa n \<noteq> []" "digits_val 0 (itoa n) = n"
    using itoa_loop_spec [of n "[]"] assms(1) by (auto simp: itoa_def Let_def)
  have "CHR ''.'' \<notin> set (itoa n)" using i(1) by (auto simp: list_all_iff is_digit_def)
  hence "str_cut (itoa n) ''.'' = None"
    by (rule no_dot)
  hence v: "decimal_val (itoa n) = of_int n" using i(3) by (simp add: decimal_val_def)
  have fn: "fl (of_int n) = of_int n" using assms by (intro fl_int) (simp_all add: max_int32_def)
  have "(of_int n :: rat) \<le> of_int max_int32" using assms(2) by (simp only: of_int_le_iff)
  hence small: "(of_int n :: rat) < 2 ^ 50" by (simp add: max_int32_def)
  have "log2_floor (of_int n) < 50" using log2_floor_bound [of "of_int n" 50] assms small by simp
  hence p: "parse_float (itoa n) = Some (of_int n)" by (simp add: parse_float_def v fn)
  have u: "retryAfterUnitSeconds ''s'' = 1" by code_simp
  have t: "delay_total 0 [(itoa n, ''s'')] = of_int n" by (simp add: p u fn)
  have c: "\<lceil>fl (of_int n - fl (1 / 10 ^ 9))\<rceil> = n"
  proof -
    define eps where "eps = fl (1 / 10 ^ 9)"
    have "of_int 0 / 2 \<le> eps \<and> eps \<le> of_int 1 / 2" unfolding eps_def by (rule fl_between) simp_all
    hence "of_int (2 * n - 1) / 2 \<le> fl (of_int n - eps) \<and> fl (of_int n - eps) \<le> of_int (2 * n) / 2"
      using small assms(1) by (intro fl_between) (simp_all add: field_simps)
    then show ?thesis unfolding eps_def by (intro ceiling_unique) (simp_all add: field_simps)
  qed
  have o: "(of_int max_int32 \<le> (of_int n :: rat)) \<longleftrightarrow> max_int32 \<le> n" "\<not> (of_int n :: rat) \<le> 0"
    using assms(1) by (simp_all only: of_int_le_iff of_int_le_0_iff not_le)
  show ?thesis
    unfolding parseRetryAfterFromMessage_def advertised_seconds_terms [OF i(1,2)] Let_def t c o(1)
    using o(2) assms by simp
qed

theorem advertised_seconds_witness:
  "parseRetryAfterFromMessage (''Please try again in '' @ itoa 20 @ ''s.'') = 20"
  by (rule advertised_seconds) (simp_all add: max_int32_def)


section \<open>In-band and HTTP errors\<close>

lemma f_transient_ResponsesError:
  "f_transient (classifyResponsesError ty c msg) \<longleftrightarrow>
     responsesFaultOf (responsesIdent ty) (responsesIdent c) (to_lower msg)
       \<in> {faultUnknown, faultTimeout, faultRateLimit, faultOverloaded}"
  by (simp add: classifyResponsesError_def Let_def failure0_def split: responsesFault.split)

lemma f_transient_ResponsesHTTP:
  "f_transient (classifyResponsesHTTPErrorBytes E st h b) =
     f_transient (classifyHTTPErrorBytesShaped E st h b responsesErrorVerdict)"
  by (simp add: classifyResponsesHTTPErrorBytes_def Let_def)

text \<open>
  C37. One fault, two paths: an OpenAI error body answered over HTTP (no redirect, no
  authoritative header) and the same type, code and message raised in-band are judged
  through the same fault. A timeout, rate limit or overload is retried on both paths
  whatever the status. A request-shape or quota fault is final in-band, and over HTTP unless
  the status is 408, 409 or 5xx, which alone make it retryable. Any other fault is left to the
  path: in-band an unknown one is retried and a refused caller is final, over HTTP the status
  decides (408, 409, 429 and 5xx are retried), so the two paths can differ.
\<close>

theorem responses_paths_agree:
  assumes "\<not> (300 \<le> st \<and> st < 400)" "httpRetryHint h = None"
  shows "let ae = parse_apiError b;
             fault = responsesFaultOf (responsesIdent (ae_type ae)) (responsesIdent (ae_code ae))
                       (to_lower (ae_message ae));
             inband = f_transient (classifyResponsesError (ae_type ae) (ae_code ae) (ae_message ae));
             http = f_transient (classifyResponsesHTTPErrorBytes E st h b)
         in (if fault \<in> {faultTimeout, faultRateLimit, faultOverloaded} then inband \<and> http
             else if fault \<in> {faultRequestShape, faultQuota}
             then \<not> inband \<and> (http \<longleftrightarrow> st \<in> {408, 409} \<or> 500 \<le> st)
             else (inband \<longleftrightarrow> fault = faultUnknown) \<and>
                  (http \<longleftrightarrow> st \<in> {408, 409, 429} \<or> 500 \<le> st))"
  using assms unfolding Let_def
  by (cases "responsesFaultOf (responsesIdent (ae_type (parse_apiError b)))
        (responsesIdent (ae_code (parse_apiError b))) (to_lower (ae_message (parse_apiError b)))")
    (auto simp: f_transient_ResponsesError f_transient_ResponsesHTTP classify_transient
      body_verdict_def Let_def responsesErrorVerdict_def retry_policy_def)

theorem responses_paths_agree_witness:
  "f_transient (classifyResponsesHTTPErrorBytes example_env 400 Map.empty
     ''{\"error\":{\"type\":\"invalid_request_error\",\"code\":\"rate_limit_exceeded\"}}'')"
proof -
  have e: "parse_apiError ''{\"error\":{\"type\":\"invalid_request_error\",\"code\":\"rate_limit_exceeded\"}}''
      = \<lparr>ae_type = ''invalid_request_error'', ae_code = ''rate_limit_exceeded'', ae_message = []\<rparr>"
    by code_simp
  have f: "responsesFaultOf (responsesIdent ''invalid_request_error'') (responsesIdent ''rate_limit_exceeded'')
      [] = faultRateLimit"
    by code_simp
  have "httpRetryHint Map.empty = None"
    by (simp add: httpRetryHint_def header_get_def header_values_def hint_value_def)
  with responses_paths_agree [of 400 Map.empty
      "''{\"error\":{\"type\":\"invalid_request_error\",\"code\":\"rate_limit_exceeded\"}}''" example_env] show ?thesis
    by (simp add: e f Let_def)
qed

end
