(* ===== verification/Responses_Json.thy ===== *)
theory Responses_Json
  imports Json_Decode
begin

text \<open>
  How the Responses wire reads a frame (responses.go): the token reader of
  \<open>json.Decoder\<close>, which keeps duplicate keys apart, the Unicode check that stands in for
  the client's stricter JSON parser, and the accessors of decoded objects.
\<close>

section \<open>The token reader\<close>

text \<open>
  \<open>Decoder.readValue\<close>: one value from the front of the input and what follows it. The
  scanner is the one of \<open>json_parse\<close>; a number ends at the first byte that cannot
  continue it, every other value with its own last byte.
\<close>

fun read_value :: "bytes \<Rightarrow> jstate \<Rightarrow> (json \<times> bytes) option" where
  "read_value s (EndValue, [], Some v) = Some (v, s)"
| "read_value [] st = map_option (\<lambda>v. (v, [])) (json_result (jrun [CHR 0x20] st))"
| "read_value (c # s) (InNum n b, [], r) =
     (case num_next n c of
        Some n' \<Rightarrow> read_value s (InNum n' (c # b), [], None)
      | None \<Rightarrow> if num_accept n then Some (JNum (rev b), c # s) else None)"
| "read_value (c # s) st =
     (case jstep st c of None \<Rightarrow> None | Some st' \<Rightarrow> read_value s st')"

definition next_value :: "bytes \<Rightarrow> (json \<times> bytes) option" where
  "next_value s = read_value s (BeginValue, [], None)"

definition skip_ws :: "bytes \<Rightarrow> bytes" where
  "skip_ws s = dropWhile json_space s"

lemma skip_ws_length: "length (skip_ws s) \<le> length s"
  by (simp add: skip_ws_def length_dropWhile_le)

lemma read_value_length: "read_value s st = Some (v, t) \<Longrightarrow> length t \<le> length s"
proof (induction s st rule: read_value.induct)
  case (3 c s n b r)
  then show ?case by (auto split: option.splits if_splits)
qed (auto split: option.splits)

lemma skip_ws_Cons: "skip_ws s = c # t \<Longrightarrow> length t < length s"
  using skip_ws_length [of s] by simp

lemma next_value_length: "next_value s = Some (v, t) \<Longrightarrow> length t \<le> length s"
  by (simp add: next_value_def read_value_length)

text \<open>
  The members of an object whose opening brace was read: \<open>More\<close>, the comma, the key, the
  colon and the value of each round, and the closing brace.
\<close>

function object_members :: "bool \<Rightarrow> bytes \<Rightarrow> ((bytes \<times> json) list \<times> bytes) option" where
  "object_members first s =
     (case skip_ws s of
        [] \<Rightarrow> None
      | c # t \<Rightarrow>
          if c = CHR ''}'' then Some ([], t)
          else if c = CHR '']'' \<or> (\<not> first \<and> c \<noteq> CHR '','') then None
          else let u = (if first then c # t else skip_ws t) in
            if u = [] \<or> hd u \<noteq> CHR 0x22 then None
            else (case next_value u of
                    Some (JStr k, u1) \<Rightarrow>
                      (case skip_ws u1 of
                         [] \<Rightarrow> None
                       | d # u2 \<Rightarrow>
                           if d \<noteq> CHR '':'' then None
                           else (case next_value u2 of
                                   None \<Rightarrow> None
                                 | Some (v, u3) \<Rightarrow>
                                     map_option (\<lambda>(ms, z). ((unquote k, v) # ms, z))
                                       (object_members False u3)))
                  | _ \<Rightarrow> None))"
  by pat_completeness auto
termination
proof (relation "measure (length \<circ> snd)", goal_cases)
  case (2 first s c t u p w u1 k d u2 q v u3)
  have "length u \<le> length s"
    using 2(1,4) skip_ws_length [of s] skip_ws_length [of t] by (auto split: if_splits)
  moreover have "next_value u = Some (w, u1)" using 2 by simp
  hence "length u1 \<le> length u" by (rule next_value_length)
  moreover have "length u2 < length u1" using 2 skip_ws_Cons by auto
  moreover have "length u3 \<le> length u2" using 2 next_value_length by auto
  ultimately show ?case by simp
qed auto

declare object_members.simps [simp del]

text \<open>The tokens of a text that is one object and nothing else: its members in order.\<close>

definition object_tokens :: "bytes \<Rightarrow> (bytes \<times> json) list option" where
  "object_tokens data =
     (case skip_ws data of
        [] \<Rightarrow> None
      | c # t \<Rightarrow>
          if c \<noteq> CHR ''{'' then None
          else (case object_members True t of
                  None \<Rightarrow> None
                | Some (ms, z) \<Rightarrow> if skip_ws z = [] then Some ms else None))"

section \<open>Unicode the client accepts\<close>

definition responsesHex4 :: "bytes \<Rightarrow> int option" where
  "responsesHex4 s =
     (case s of
        [a, b, c, d] \<Rightarrow> if list_all hex_digit [a, b, c, d] then Some (hex4_val a b c d) else None
      | _ \<Rightarrow> None)"

text \<open>The escapes of the text: \<open>ins\<close> tells whether the scan is inside a string literal.\<close>

function unicode_escapes :: "bool \<Rightarrow> bytes \<Rightarrow> bool" where
  "unicode_escapes ins [] = True"
| "unicode_escapes ins (c # s) =
     (if c = CHR 0x22 then unicode_escapes (\<not> ins) s
      else if c \<noteq> CHR 0x5C \<or> \<not> ins \<or> s = [] then unicode_escapes ins s
      else if hd s \<noteq> CHR ''u'' then unicode_escapes ins (tl s)
      else if length s < 5 then False
      else (case responsesHex4 (take 4 (tl s)) of
              None \<Rightarrow> False
            | Some code \<Rightarrow>
                if 0xD800 \<le> code \<and> code \<le> 0xDBFF then
                  (let t = drop 5 s in
                   if length t < 6 \<or> t ! 0 \<noteq> CHR 0x5C \<or> t ! 1 \<noteq> CHR ''u'' then False
                   else (case responsesHex4 (take 4 (drop 2 t)) of
                           None \<Rightarrow> False
                         | Some low \<Rightarrow>
                             if low < 0xDC00 \<or> 0xDFFF < low then False
                             else unicode_escapes ins (drop 6 t)))
                else if 0xDC00 \<le> code \<and> code \<le> 0xDFFF then False
                else unicode_escapes ins (drop 5 s)))"
  by pat_completeness auto
termination
  by (relation "measure (length \<circ> snd)") auto

definition validResponsesJSONUnicode :: "bytes \<Rightarrow> bool" where
  "validResponsesJSONUnicode data = (utf8_valid data \<and> unicode_escapes False data)"

section \<open>Decoded objects\<close>

fun unique_keys :: "json \<Rightarrow> bool" where
  "unique_keys (JArr vs) = list_all unique_keys vs"
| "unique_keys (JObj ms) = (distinct (map (\<lambda>m. unquote (fst m)) ms) \<and> list_all (\<lambda>m. unique_keys (snd m)) ms)"
| "unique_keys v = True"

text \<open>The raw value is a complete one (\<open>None\<close> is the empty message, which has no token).\<close>

definition uniqueResponsesJSONValue :: "json option \<Rightarrow> bool" where
  "uniqueResponsesJSONValue raw = (case raw of None \<Rightarrow> False | Some v \<Rightarrow> unique_keys v)"

definition envelope_fields :: "bytes list" where
  "envelope_fields =
     [''type'', ''headers'', ''metadata'', ''response'', ''error'', ''item'', ''item_id'',
      ''call_id'', ''delta'', ''text'', ''summary_index'', ''content_index'', ''safety_buffering'']"

fun collect_fields :: "bool \<Rightarrow> (bytes \<times> json) list \<Rightarrow> (bytes \<rightharpoonup> json) \<Rightarrow> (bytes \<rightharpoonup> json) option" where
  "collect_fields uniqueNested [] m = Some m"
| "collect_fields uniqueNested ((k, v) # ms) m =
     (if m k \<noteq> None \<and> (uniqueNested \<or> k \<in> set envelope_fields) then None
      else if uniqueNested \<and> \<not> unique_keys v then None
      else collect_fields uniqueNested ms (m(k \<mapsto> v)))"

definition decodeResponsesObject :: "bytes \<Rightarrow> bool \<Rightarrow> (bytes \<rightharpoonup> json) option" where
  "decodeResponsesObject data uniqueNested =
     (if \<not> validResponsesJSONUnicode data then None
      else case object_tokens data of
             None \<Rightarrow> None
           | Some ms \<Rightarrow> collect_fields uniqueNested ms Map.empty)"

definition decodeUniqueResponsesObject :: "bytes \<Rightarrow> (bytes \<rightharpoonup> json) option" where
  "decodeUniqueResponsesObject data = decodeResponsesObject data True"

text \<open>A value that is no object, or no value at all, reads as an object without members.\<close>

definition responsesObject :: "json option \<Rightarrow> (bytes \<rightharpoonup> json)" where
  "responsesObject raw =
     (case raw of
        None \<Rightarrow> Map.empty
      | Some v \<Rightarrow> (case raw_map v of None \<Rightarrow> Map.empty | Some m \<Rightarrow> m))"

definition responsesString :: "json option \<Rightarrow> bytes" where
  "responsesString raw = (case raw of Some (JStr b) \<Rightarrow> unquote b | _ \<Rightarrow> [])"

text \<open>\<open>json.Unmarshal\<close> into \<open>*string\<close> and \<open>*int64\<close> succeeds.\<close>

fun string_or_null :: "json \<Rightarrow> bool" where
  "string_or_null JNull = True"
| "string_or_null (JStr b) = True"
| "string_or_null v = False"

fun int_or_null :: "json \<Rightarrow> bool" where
  "int_or_null JNull = True"
| "int_or_null (JNum t) = (case parse_int64 t of Inr n \<Rightarrow> True | Inl n \<Rightarrow> False)"
| "int_or_null v = False"

definition responsesRequiredInteger :: "json option \<Rightarrow> bool" where
  "responsesRequiredInteger raw =
     (case raw of None \<Rightarrow> False | Some v \<Rightarrow> v \<noteq> JNull \<and> int_or_null v)"

section \<open>The token reader and the scanner agree\<close>

text \<open>
  A scan inside a container is a scan of the value alone with the open containers kept
  below: \<open>lift base\<close> puts a state of the inner scan back on top of \<open>base\<close>.
\<close>

fun lift :: "frame list \<Rightarrow> jstate \<Rightarrow> jstate" where
  "lift base (EndValue, [], Some v) = deliver v base"
| "lift base (m, st, r) = (m, st @ base, None)"

text \<open>Modes that only an open container can be in.\<close>

fun needs_frame :: "jmode \<Rightarrow> bool" where
  "needs_frame BeginValueOrEnd = True"
| "needs_frame BeginKeyOrEnd = True"
| "needs_frame BeginKey = True"
| "needs_frame EndKey = True"
| "needs_frame EndValue = True"
| "needs_frame (InString key b) = key"
| "needs_frame (InEsc key b) = key"
| "needs_frame (InHex key n b) = key"
| "needs_frame m = False"

fun inner_ok :: "jstate \<Rightarrow> bool" where
  "inner_ok (m, st, r) =
     (if st = [] \<and> m = EndValue then r \<noteq> None else r = None \<and> (st = [] \<longrightarrow> \<not> needs_frame m))"

definition lifts :: "frame list \<Rightarrow> jstate \<Rightarrow> jstate option \<Rightarrow> bool" where
  "lifts base y r = (\<exists>x. r = Some x \<and> y = lift base x \<and> inner_ok x)"

lemma lifts_Some [simp]: "lifts base y (Some x) \<longleftrightarrow> y = lift base x \<and> inner_ok x"
  by (auto simp: lifts_def)

lemma lift_deliver [simp]: "lift base (deliver v st) = deliver v (st @ base)" "inner_ok (deliver v st)"
  by (cases st; cases "hd st"; auto)+

lemma lift_open [simp]:
  "st \<noteq> [] \<Longrightarrow> lift base (m, st, r) = (m, st @ base, None)"
  "m \<noteq> EndValue \<Longrightarrow> lift base (m, st, r) = (m, st @ base, None)"
  by (cases "(base, m, st, r)" rule: lift.cases; auto)+

lemma lift_begin_value:
  "begin_value c (st @ base) = Some y \<Longrightarrow> lifts base y (begin_value c st)"
  by (auto simp: begin_value_def push_def split: if_splits)

lemma lift_end_value:
  "end_value c (f # st @ base) None = Some y \<Longrightarrow> lifts base y (end_value c (f # st) None)"
  by (cases f) (auto split: if_splits)

lemma lift_end_string:
  "end_string key b (st @ base) = Some y \<Longrightarrow> (st = [] \<longrightarrow> \<not> key) \<Longrightarrow> lifts base y (end_string key b st)"
  by (cases "(key, b, st)" rule: end_string.cases) auto

lemma lift_step:
  assumes "jstep (m, st @ base, None) c = Some y" "inner_ok (m, st, None)"
    and "st = [] \<Longrightarrow> \<forall>n b. m \<noteq> InNum n b"
  shows "lifts base y (jstep (m, st, None) c)"
proof (cases m)
  case (InNum n b)
  with assms(3) obtain f st' where st: "st = f # st'" by (cases st) auto
  show ?thesis
  proof (cases "num_next n c")
    case None
    obtain ms fs r where d: "deliver (JNum (rev b)) (f # st') = (ms, fs, r)" by (metis prod_cases3)
    have b: "deliver (JNum (rev b)) (f # st' @ base) = (ms, fs @ base, None)" "fs \<noteq> []" "r = None"
      using d by (cases f; auto)+
    then obtain g gs where "fs = g # gs" by (cases fs) auto
    with assms(1) InNum None st d b lift_end_value [of c g gs base y] show ?thesis
      by (auto split: if_splits)
  next
    case (Some n')
    with assms InNum st show ?thesis by auto
  qed
next
  case (InLit xs v)
  with assms show ?thesis by (cases xs) (auto split: if_splits)
next
  case (InString key b)
  with assms lift_end_string [of key "rev b" st base] show ?thesis
    by (auto split: if_splits)
next
  case BeginValue
  with assms lift_begin_value show ?thesis by simp
next
  case BeginValueOrEnd
  with assms obtain f st' where "st = f # st'" by (cases st) auto
  with assms BeginValueOrEnd lift_begin_value [of c st base] lift_end_value [of c f st' base] show ?thesis
    by (auto split: if_splits)
next
  case BeginKeyOrEnd
  with assms obtain f st' where "st = f # st'" by (cases st) auto
  with assms BeginKeyOrEnd lift_end_value [of c f st' base] show ?thesis
    by (auto split: if_splits)
next
  case EndValue
  with assms obtain f st' where "st = f # st'" by (cases st) auto
  with assms EndValue lift_end_value [of c f st' base] show ?thesis by simp
qed (use assms in \<open>auto split: if_splits\<close>)

text \<open>One step of the final space leaves an open container open.\<close>

lemma space_keeps_open:
  assumes "jstep (m, st, None) (CHR 0x20) = Some y" "st \<noteq> []"
  shows "fst (snd y) \<noteq> []"
proof -
  have sp: "json_space (CHR 0x20)" by (simp add: json_space_def)
  have d: "end_value (CHR 0x20) st' r = Some z \<Longrightarrow> st' \<noteq> [] \<Longrightarrow> fst (snd z) \<noteq> []" for st' r z
    using sp by (cases "(CHR 0x20, st', r)" rule: end_value.cases) auto
  have de: "fst (snd (deliver v st)) \<noteq> []" for v
    using assms(2) by (cases st; cases "hd st") auto
  have b: "begin_value (CHR 0x20) st = Some z \<Longrightarrow> fst (snd z) \<noteq> []" for z
    using sp assms(2) by (auto simp: begin_value_def)
  show ?thesis
  proof (cases m)
    case (InNum n bs)
    with assms d de [of "JNum (rev bs)"] show ?thesis
      by (auto split: option.splits if_splits prod.splits)
  next
    case (InLit xs v)
    with assms de show ?thesis by (cases xs) (auto split: if_splits)
  next
    case (InString key bs)
    with assms show ?thesis by (auto split: if_splits)
  next
    case EndValue
    with assms d show ?thesis by auto
  qed (use assms sp b d in \<open>auto split: if_splits\<close>)
qed

lemma read_value_Nil:
  "\<not> (m = EndValue \<and> st = []) \<Longrightarrow>
   read_value [] (m, st, r) = map_option (\<lambda>v. (v, [])) (json_result (jrun [CHR 0x20] (m, st, r)))"
  by (cases "([]::bytes, m, st, r)" rule: read_value.cases) auto

lemma read_value_Cons:
  "\<not> (m = EndValue \<and> st = []) \<Longrightarrow> (st = [] \<Longrightarrow> \<forall>n b. m \<noteq> InNum n b) \<Longrightarrow>
   read_value (c # s) (m, st, r) =
     (case jstep (m, st, r) c of None \<Rightarrow> None | Some st' \<Rightarrow> read_value s st')"
  by (cases "(c # s, m, st, r)" rule: read_value.cases) auto

text \<open>
  If the scanner, inside containers \<open>base\<close>, accepts the rest of the text, then the token
  reader finds the value there and the scanner goes on behind it.
\<close>

lemma json_result_closed: "json_result (Some z) \<noteq> None \<Longrightarrow> fst (snd z) = []"
  by (auto simp: json_result_def split: option.splits prod.splits jmode.splits list.splits)

lemma read_value_complete:
  "jrun (s @ [CHR 0x20]) (lift base x) = Some z \<Longrightarrow> json_result (Some z) \<noteq> None \<Longrightarrow> inner_ok x \<Longrightarrow>
   base \<noteq> [] \<Longrightarrow>
   \<exists>v t. read_value s x = Some (v, t) \<and> jrun (t @ [CHR 0x20]) (deliver v base) = Some z"
proof (induction s arbitrary: x)
  case Nil
  obtain m st r where x: "x = (m, st, r)" by (cases x) auto
  show ?case
  proof (cases "m = EndValue \<and> st = []")
    case True
    with Nil.prems x show ?thesis by auto
  next
    case False
    with Nil.prems x have "lift base x = (m, st @ base, None)" by auto
    with Nil.prems space_keeps_open [of m "st @ base" z] json_result_closed [of z] show ?thesis
      by (auto split: option.splits)
  qed
next
  case (Cons c s)
  obtain m st r where x: "x = (m, st, r)" by (cases x) auto
  show ?case
  proof (cases "m = EndValue \<and> st = []")
    case True
    with Cons.prems x show ?thesis by auto
  next
    case False
    with Cons.prems x have l: "lift base x = (m, st @ base, None)" "r = None" by auto
    from Cons.prems(1) l obtain y where y: "jstep (m, st @ base, None) c = Some y"
        "jrun (s @ [CHR 0x20]) y = Some z"
      by (auto split: option.splits)
    show ?thesis
    proof (cases "st = [] \<and> (\<exists>n b. m = InNum n b)")
      case True
      then obtain n b where n: "st = []" "m = InNum n b" by auto
      show ?thesis
      proof (cases "num_next n c")
        case None
        obtain fs where d: "deliver (JNum (rev b)) base = (EndValue, fs, None)" "fs \<noteq> []"
          using Cons.prems(4) by (cases base; cases "hd base") auto
        with n None y have "num_accept n" "jstep (deliver (JNum (rev b)) base) c = Some y"
          by (auto split: if_splits)
        with n None x y(2) show ?thesis by simp
      next
        case (Some n')
        with n y have "y = lift base (InNum n' (c # b), [], None)" by simp
        with Cons.IH [of "(InNum n' (c # b), [], None)"] Cons.prems y(2) n x Some show ?thesis by simp
      qed
    next
      case nonum: False
      have "lifts base y (jstep (m, st, None) c)"
        using y(1) Cons.prems(3) x l(2) nonum by (intro lift_step) auto
      then obtain x' where x': "jstep (m, st, None) c = Some x'" "y = lift base x'" "inner_ok x'"
        by (auto simp: lifts_def)
      with Cons.IH [of x'] Cons.prems(2,4) y(2) x l(2) False nonum show ?thesis
        by (simp add: read_value_Cons)
    qed
  qed
qed

text \<open>An object key is read by the token reader as a string value.\<close>

lemma read_key:
  assumes "fst (snd z) = []"
  shows "jrun (s @ [CHR 0x20]) (InString True b, FObj ms k # st, None) = Some z \<Longrightarrow>
      \<exists>k' t. read_value s (InString False b, [], None) = Some (JStr k', t) \<and>
        jrun (t @ [CHR 0x20]) (EndKey, FObj ms k' # st, None) = Some z"
    and "jrun (s @ [CHR 0x20]) (InEsc True b, FObj ms k # st, None) = Some z \<Longrightarrow>
      \<exists>k' t. read_value s (InEsc False b, [], None) = Some (JStr k', t) \<and>
        jrun (t @ [CHR 0x20]) (EndKey, FObj ms k' # st, None) = Some z"
    and "jrun (s @ [CHR 0x20]) (InHex True n b, FObj ms k # st, None) = Some z \<Longrightarrow>
      \<exists>k' t. read_value s (InHex False n b, [], None) = Some (JStr k', t) \<and>
        jrun (t @ [CHR 0x20]) (EndKey, FObj ms k' # st, None) = Some z"
proof (induction s arbitrary: b n)
  case Nil
  {
    case 1
    with assms show ?case by (auto split: if_splits)
  next
    case 2
    with assms show ?case by (auto split: if_splits)
  next
    case 3
    with assms show ?case by (auto split: if_splits)
  }
next
  case (Cons c s)
  {
    case 1
    show ?case
    proof (cases "c = CHR 0x22")
      case True
      with 1 show ?thesis by auto
    next
      case False
      with 1 Cons.IH(1) [of "c # b"] Cons.IH(2) [of "c # b"] show ?thesis
        by (auto split: if_splits)
    qed
  next
    case 2
    with Cons.IH(1) [of "c # b"] Cons.IH(3) [of 4 "c # b"] show ?case
      by (auto split: if_splits)
  next
    case 3
    with Cons.IH(1) [of "c # b"] Cons.IH(3) [of "n - 1" "c # b"] show ?case
      by (auto split: if_splits)
  }
qed

lemma jrun_skip_ws:
  assumes "\<And>c. json_space c \<Longrightarrow> jstep x c = Some x"
  shows "jrun (s @ t) x = jrun (skip_ws s @ t) x"
  using assms by (induction s) (auto simp: skip_ws_def)

lemma trailing_space:
  "jrun t (EndValue, [], Some v) = Some z \<Longrightarrow> list_all json_space t \<and> z = (EndValue, [], Some v)"
  by (induction t) (auto split: if_splits option.splits)

lemma skip_ws_all: "list_all json_space (t @ [CHR 0x20]) \<Longrightarrow> skip_ws t = []"
  by (simp add: skip_ws_def list_all_iff)

definition members_state :: "bool \<Rightarrow> (bytes \<times> json) list \<Rightarrow> bytes \<Rightarrow> jstate" where
  "members_state first ms k = (if first then BeginKeyOrEnd else EndValue, [FObj ms k], None)"

lemma object_members_complete:
  assumes "jrun (s @ [CHR 0x20]) (members_state first ms k) = Some z" "json_result (Some z) = Some v"
  shows "\<exists>ms' t. object_members first s = Some (map (\<lambda>(k, v). (unquote k, v)) ms', t) \<and>
    v = JObj (rev ms @ ms') \<and> skip_ws t = []"
  using assms
proof (induction "length s" arbitrary: s first ms k rule: less_induct)
  case less
  have closed: "fst (snd z) = []" using json_result_closed [of z] less.prems(2) by simp
  let ?x = "members_state first ms k"
  have ws: "json_space c \<Longrightarrow> jstep ?x c = Some ?x" for c by (auto simp: members_state_def)
  have run: "jrun (skip_ws s @ [CHR 0x20]) ?x = Some z"
    using less.prems(1) jrun_skip_ws [of ?x s "[CHR 0x20]"] ws by simp
  have sp: "json_space (CHR 0x20)" by (simp add: json_space_def)
  show ?case
  proof (cases "skip_ws s")
    case Nil
    with run closed ws [OF sp] show ?thesis by (auto simp: members_state_def split: if_splits)
  next
    case (Cons c t)
    have nsp: "\<not> json_space c"
      using Cons hd_dropWhile [of json_space s] by (simp add: skip_ws_def)
    have len: "length t < length s" using skip_ws_Cons [OF Cons] .
    show ?thesis
    proof (cases "c = CHR ''}''")
      case True
      with run Cons nsp have "jrun (t @ [CHR 0x20]) (EndValue, [], Some (JObj (rev ms))) = Some z"
        by (auto simp: members_state_def split: if_splits)
      from trailing_space [OF this] less.prems(2) True Cons show ?thesis
        by (intro exI [of _ "[]"] exI [of _ t])
          (simp add: object_members.simps [of first s] skip_ws_all json_result_def)
    next
      case notend: False
      define u where "u = (if first then c # t else skip_ws t)"
      have u: "\<exists>r. u = CHR 0x22 # r \<and> jrun (r @ [CHR 0x20]) (InString True [], [FObj ms k], None) = Some z
          \<and> (\<not> first \<longrightarrow> c = CHR '','')"
      proof (cases first)
        case True
        with run Cons nsp notend show ?thesis
          by (auto simp: members_state_def u_def split: if_splits)
      next
        case False
        with run Cons nsp notend have 1: "c = CHR '',''"
            "jrun (t @ [CHR 0x20]) (BeginKey, [FObj ms k], None) = Some z"
          by (auto simp: members_state_def split: if_splits)
        from 1(2) have 2: "jrun (skip_ws t @ [CHR 0x20]) (BeginKey, [FObj ms k], None) = Some z"
          using jrun_skip_ws [of "(BeginKey, [FObj ms k], None)" t "[CHR 0x20]"] by simp
        show ?thesis
        proof (cases "skip_ws t")
          case Nil
          with 2 closed sp show ?thesis by auto
        next
          case (Cons d r)
          moreover have "\<not> json_space d"
            using Cons hd_dropWhile [of json_space t] by (simp add: skip_ws_def)
          ultimately show ?thesis using 1 2 False by (auto simp: u_def split: if_splits)
        qed
      qed
      then obtain r where r: "u = CHR 0x22 # r"
          "jrun (r @ [CHR 0x20]) (InString True [], [FObj ms k], None) = Some z" "\<not> first \<longrightarrow> c = CHR '',''"
        by blast
      from read_key(1) [OF closed r(2)] obtain k' u1 where k':
          "read_value r (InString False [], [], None) = Some (JStr k', u1)"
          "jrun (u1 @ [CHR 0x20]) (EndKey, [FObj ms k'], None) = Some z"
        by blast
      have nv: "next_value u = Some (JStr k', u1)"
        using k'(1) by (simp add: next_value_def r(1) begin_value_def json_space_def)
      from k'(2) have 3: "jrun (skip_ws u1 @ [CHR 0x20]) (EndKey, [FObj ms k'], None) = Some z"
        using jrun_skip_ws [of "(EndKey, [FObj ms k'], None)" u1 "[CHR 0x20]"] by simp
      have "\<exists>u2. skip_ws u1 = CHR '':'' # u2"
      proof (cases "skip_ws u1")
        case Nil
        with 3 closed sp show ?thesis by auto
      next
        case (Cons d u2)
        moreover have "\<not> json_space d"
          using Cons hd_dropWhile [of json_space u1] by (simp add: skip_ws_def)
        ultimately show ?thesis using 3 by (auto split: if_splits)
      qed
      then obtain u2 where u2: "skip_ws u1 = CHR '':'' # u2" by blast
      with 3 have "jrun (u2 @ [CHR 0x20]) (lift [FObj ms k'] (BeginValue, [], None)) = Some z"
        by (simp add: json_space_def)
      from read_value_complete [OF this] less.prems(2) obtain w u3 where w:
          "next_value u2 = Some (w, u3)"
          "jrun (u3 @ [CHR 0x20]) (members_state False ((k', w) # ms) k') = Some z"
        by (auto simp: next_value_def members_state_def)
      have "length u3 < length s"
      proof -
        have "length u \<le> length s" using Cons len skip_ws_length [of t] skip_ws_length [of s]
          by (auto simp: u_def)
        moreover have "length u1 \<le> length u" by (rule next_value_length [OF nv])
        moreover have "length u2 < length u1" using skip_ws_Cons [OF u2] .
        moreover have "length u3 \<le> length u2" by (rule next_value_length [OF w(1)])
        ultimately show ?thesis by simp
      qed
      from less.hyps [OF this w(2) less.prems(2)] obtain ms' t' where ih:
          "object_members False u3 = Some (map (\<lambda>(k, v). (unquote k, v)) ms', t')"
          "v = JObj (rev ((k', w) # ms) @ ms')" "skip_ws t' = []"
        by blast
      have "c \<noteq> CHR '']''" using r u_def by (cases first) auto
      with notend r Cons have "object_members first s =
          map_option (\<lambda>(ms, z). ((unquote k', w) # ms, z)) (object_members False u3)"
        by (auto simp: object_members.simps [of first s] u_def [symmetric] Let_def
            nv [unfolded r(1)] u2 w(1))
      with ih show ?thesis by (intro exI [of _ "(k', w) # ms'"] exI [of _ t']) simp
    qed
  qed
qed

text \<open>A text that does not open with a brace is no object.\<close>

definition is_obj :: "json \<Rightarrow> bool" where
  "is_obj v = (\<exists>ms. v = JObj ms)"

definition in_array :: "frame list \<Rightarrow> bool" where
  "in_array st = (st \<noteq> [] \<and> (\<exists>vs. last st = FArr vs))"

fun no_obj :: "jstate \<Rightarrow> bool" where
  "no_obj (m, [], r) =
     ((m = EndValue \<and> (\<exists>v. r = Some v \<and> \<not> is_obj v)) \<or>
      (r = None \<and> m \<noteq> EndValue \<and> \<not> needs_frame m \<and> m \<noteq> BeginValue \<and> (\<forall>xs v. m = InLit xs v \<longrightarrow> \<not> is_obj v)))"
| "no_obj (m, f # st, r) = in_array (f # st)"

lemma no_obj_deliver: "\<not> is_obj v \<or> st \<noteq> [] \<Longrightarrow> st \<noteq> [] \<longrightarrow> in_array st \<Longrightarrow> no_obj (deliver v st)"
  by (cases st; cases "hd st") (auto simp: in_array_def)

lemma no_obj_end_value:
  "end_value c st r = Some y \<Longrightarrow> no_obj (EndValue, st, r) \<Longrightarrow> no_obj y"
  by (cases "(c, st, r)" rule: end_value.cases)
    (auto simp: in_array_def is_obj_def intro!: no_obj_deliver split: if_splits)

lemma no_obj_begin_value:
  "begin_value c st = Some y \<Longrightarrow> in_array st \<Longrightarrow> no_obj y"
  by (cases st) (auto simp: begin_value_def push_def in_array_def split: if_splits)

lemma no_obj_end_string: "end_string key b st = Some y \<Longrightarrow> st \<noteq> [] \<longrightarrow> in_array st \<Longrightarrow> no_obj y"
  by (cases "(key, b, st)" rule: end_string.cases)
    (auto simp: in_array_def is_obj_def intro!: no_obj_deliver split: if_splits)

lemma no_obj_step: "jstep (m, st, r) c = Some y \<Longrightarrow> no_obj (m, st, r) \<Longrightarrow> no_obj y"
proof -
  assume a: "jstep (m, st, r) c = Some y" "no_obj (m, st, r)"
  have st: "st \<noteq> [] \<longrightarrow> in_array st" using a(2) by (cases st) auto
  show ?thesis
  proof (cases m)
    case (InNum n b)
    have d: "no_obj (deliver (JNum (rev b)) st)" using st by (intro no_obj_deliver) (simp_all add: is_obj_def)
    obtain fs q where "deliver (JNum (rev b)) st = (EndValue, fs, q)"
      by (cases st; cases "hd st") auto
    with a InNum d no_obj_end_value [of c fs q y] show ?thesis
      by (cases st) (auto split: option.splits if_splits)
  next
    case (InLit xs v)
    with a st no_obj_deliver [of v st] show ?thesis
      by (cases xs; cases st) (auto split: if_splits)
  next
    case (InString key b)
    with a st no_obj_end_string [of key "rev b" st y] show ?thesis
      by (cases st) (auto split: if_splits)
  next
    case BeginValue
    with a no_obj_begin_value [of c st y] show ?thesis by (cases st) auto
  next
    case BeginValueOrEnd
    with a no_obj_begin_value [of c st y] no_obj_end_value [of c st r y] show ?thesis
      by (cases st) (auto split: if_splits)
  next
    case BeginKeyOrEnd
    with a no_obj_end_value [of c st r y] show ?thesis
      by (cases st) (auto split: if_splits)
  next
    case EndValue
    with a no_obj_end_value [of c st r y] show ?thesis by simp
  qed (use a in \<open>cases st; auto split: if_splits\<close>)+
qed

lemma no_obj_run: "jrun s x = Some y \<Longrightarrow> no_obj x \<Longrightarrow> no_obj y"
proof (induction s arbitrary: x)
  case (Cons c s)
  obtain m st r where x: "x = (m, st, r)" by (cases x) auto
  from Cons.prems(1) obtain x' where x': "jstep x c = Some x'" "jrun s x' = Some y"
    by (auto split: option.splits)
  with no_obj_step [of m st r c x'] Cons.prems(2) x have "no_obj x'" by simp
  with Cons.IH x'(2) show ?case by blast
qed simp

lemma object_tokens_complete:
  assumes "json_parse data = Some (JObj ms)"
  shows "object_tokens data = Some (map (\<lambda>(k, v). (unquote k, v)) ms)"
proof -
  let ?x = "(BeginValue, [], None) :: jstate"
  obtain z where z: "jrun (data @ [CHR 0x20]) ?x = Some z" "json_result (Some z) = Some (JObj ms)"
    using assms by (auto simp: json_parse_def json_result_def split: option.splits)
  have zo: "z = (EndValue, [], Some (JObj ms))"
    using z(2) by (auto simp: json_result_def split: option.splits prod.splits jmode.splits list.splits)
  have run: "jrun (skip_ws data @ [CHR 0x20]) ?x = Some z"
    using z(1) jrun_skip_ws [of ?x data "[CHR 0x20]"] by (simp add: begin_value_def)
  show ?thesis
  proof (cases "skip_ws data")
    case Nil
    with run zo show ?thesis by (simp add: begin_value_def json_space_def)
  next
    case (Cons c t)
    have nsp: "\<not> json_space c"
      using Cons hd_dropWhile [of json_space data] by (simp add: skip_ws_def)
    show ?thesis
    proof (cases "c = CHR ''{''")
      case True
      with run Cons have "jrun (t @ [CHR 0x20]) (members_state True [] []) = Some z"
        by (simp add: begin_value_def push_def json_space_def members_state_def)
      from object_members_complete [OF this z(2)] True Cons show ?thesis
        by (auto simp: object_tokens_def)
    next
      case False
      from run Cons obtain x where x: "begin_value c [] = Some x" "jrun (t @ [CHR 0x20]) x = Some z"
        by (auto split: option.splits)
      with nsp False have "no_obj x"
        by (auto simp: begin_value_def push_def in_array_def is_obj_def split: if_splits)
      from no_obj_run [OF x(2) this] zo show ?thesis by (auto simp: is_obj_def)
    qed
  qed
qed

section \<open>The fields of an unambiguous object\<close>

definition keyed :: "bool \<Rightarrow> bytes \<Rightarrow> bool" where
  "keyed u k = (u \<or> k \<in> set envelope_fields)"

definition fresh_keys :: "bool \<Rightarrow> (bytes \<Rightarrow> 'a option) \<Rightarrow> bytes list \<Rightarrow> bool" where
  "fresh_keys u m ks = (distinct (filter (keyed u) ks) \<and> (\<forall>k \<in> set ks. keyed u k \<longrightarrow> m k = None))"

lemma fresh_keys_Cons:
  "fresh_keys u m (k # ks) \<longleftrightarrow> (keyed u k \<longrightarrow> m k = None) \<and> fresh_keys u (m(k \<mapsto> v)) ks"
proof (cases "keyed u k")
  case True
  have "(\<forall>j \<in> set ks. keyed u j \<longrightarrow> (m(k \<mapsto> v)) j = None) \<longleftrightarrow>
      k \<notin> set ks \<and> (\<forall>j \<in> set ks. keyed u j \<longrightarrow> m j = None)"
    using True by (auto split: if_splits)
  with True show ?thesis by (auto simp: fresh_keys_def)
next
  case False
  hence "(\<forall>j \<in> set ks. keyed u j \<longrightarrow> (m(k \<mapsto> v)) j = None) \<longleftrightarrow> (\<forall>j \<in> set ks. keyed u j \<longrightarrow> m j = None)"
    by (auto split: if_splits)
  with False show ?thesis by (simp add: fresh_keys_def)
qed

lemma collect_fields_spec:
  "collect_fields u kvs m =
     (if fresh_keys u m (map fst kvs) \<and> (u \<longrightarrow> list_all (\<lambda>kv. unique_keys (snd kv)) kvs)
      then Some (m ++ map_of (rev kvs)) else None)"
proof (induction u kvs m rule: collect_fields.induct)
  case (1 u m)
  then show ?case by (simp add: fresh_keys_def)
next
  case (2 u k v kvs m)
  have m: "m(k \<mapsto> v) ++ map_of (rev kvs) = m ++ map_of (rev ((k, v) # kvs))"
    by (auto simp: map_add_def fun_eq_iff map_of_append split: option.splits)
  show ?case
  proof (cases "(m k \<noteq> None \<and> keyed u k) \<or> (u \<and> \<not> unique_keys v)")
    case True
    then show ?thesis by (auto simp: fresh_keys_Cons [where v = v] keyed_def)
  next
    case False
    with 2 have "collect_fields u ((k, v) # kvs) m = collect_fields u kvs (m(k \<mapsto> v))"
      by (auto simp: keyed_def)
    also have "\<dots> = (if fresh_keys u (m(k \<mapsto> v)) (map fst kvs) \<and>
        (u \<longrightarrow> list_all (\<lambda>kv. unique_keys (snd kv)) kvs)
        then Some (m(k \<mapsto> v) ++ map_of (rev kvs)) else None)"
      by (rule 2) (use False in \<open>auto simp: keyed_def\<close>)
    finally show ?thesis
      using False unfolding m by (auto simp: fresh_keys_Cons [where v = v and m = m] simp del: rev.simps)
  qed
qed

lemma decodeResponsesObject_spec:
  assumes "json_parse data = Some (JObj ms)" "validResponsesJSONUnicode data"
  shows "decodeResponsesObject data u =
    (if distinct (filter (keyed u) (map (unquote \<circ> fst) ms)) \<and> (u \<longrightarrow> list_all (unique_keys \<circ> snd) ms)
     then raw_map (JObj ms) else None)"
proof -
  have k: "map fst (map (\<lambda>(k, v). (unquote k, v)) ms) = map (unquote \<circ> fst) ms"
    by (induction ms) auto
  have v: "list_all (\<lambda>kv. unique_keys (snd kv)) (map (\<lambda>(k, v). (unquote k, v)) ms) = list_all (unique_keys \<circ> snd) ms"
    by (induction ms) auto
  show ?thesis
    using assms object_tokens_complete [OF assms(1)]
    by (simp add: decodeResponsesObject_def collect_fields_spec fresh_keys_def k v raw_map_def del: map_map)
qed

text \<open>
  C35. The Responses wire reads frames with its own token reader. On every text that Go's
  \<open>json.Unmarshal\<close> accepts as an object and whose Unicode the client accepts, it gives
  exactly the fields Go's map decoder gives, unless a field the client knows is repeated
  (strict mode: unless any key at any depth is), and then it gives nothing: an ambiguous
  frame is never acted on.
\<close>

theorem object_reader_agrees:
  assumes "json_parse data = Some (JObj ms)" "validResponsesJSONUnicode data"
  shows "decodeResponsesObject data False =
      (if distinct (filter (\<lambda>k. k \<in> set envelope_fields) (map (unquote \<circ> fst) ms))
       then Some (responsesObject (json_parse data)) else None) \<and>
    decodeUniqueResponsesObject data =
      (if unique_keys (JObj ms) then Some (responsesObject (json_parse data)) else None)"
proof
  have f: "keyed False = (\<lambda>k. k \<in> set envelope_fields)" "filter (keyed True) ks = ks" for ks
    by (auto simp: keyed_def fun_eq_iff)
  show "decodeResponsesObject data False =
      (if distinct (filter (\<lambda>k. k \<in> set envelope_fields) (map (unquote \<circ> fst) ms))
       then Some (responsesObject (json_parse data)) else None)"
    unfolding decodeResponsesObject_spec [OF assms] f
    by (simp add: responsesObject_def assms(1) raw_map_def)
  show "decodeUniqueResponsesObject data =
      (if unique_keys (JObj ms) then Some (responsesObject (json_parse data)) else None)"
    unfolding decodeUniqueResponsesObject_def decodeResponsesObject_spec [OF assms] f
    by (simp add: responsesObject_def assms(1) raw_map_def comp_def)
qed

theorem object_reader_agrees_witness:
  "decodeResponsesObject ''{\"x\":1,\"type\":\"error\",\"x\":2}'' False \<noteq> None \<and>
   decodeUniqueResponsesObject ''{\"x\":1,\"type\":\"error\",\"x\":2}'' = None"
proof -
  let ?d = "''{\"x\":1,\"type\":\"error\",\"x\":2}''"
  have p: "json_parse ?d = Some (JObj [(''x'', JNum ''1''), (''type'', JStr ''error''), (''x'', JNum ''2'')])"
    by code_simp
  have v: "validResponsesJSONUnicode ?d" by code_simp
  have "distinct (filter (\<lambda>k. k \<in> set envelope_fields)
      (map (unquote \<circ> fst) [(''x'', JNum ''1''), (''type'', JStr ''error''), (''x'', JNum ''2'')]))"
    by code_simp
  moreover have "\<not> unique_keys (JObj [(''x'', JNum ''1''), (''type'', JStr ''error''), (''x'', JNum ''2'')])"
    by code_simp
  ultimately show ?thesis using object_reader_agrees [OF p v] by simp
qed

end
