(* ===== verification/Responses_Replay.thy ===== *)
theory Responses_Replay
  imports Responses_Json Replay
begin

text \<open>
  The buffered replay of the Responses wire (responses.go: \<open>replayResponsesReader\<close>,
  \<open>responsesReplayCoalescer\<close>): adjacent text deltas of one output are combined, every
  other frame is copied. A value \<open>(s, Some e)\<close> is an early return with the error.
\<close>

section \<open>Text-delta groups\<close>

record textGroup =
  tg_eventName :: bytes
  tg_fields :: "bytes \<rightharpoonup> json"
  tg_raw :: bytes
  tg_delta :: bytes
  tg_payloadBytes :: int
  tg_count :: int
  tg_itemID :: bytes
  tg_outputIndex :: int
  tg_contentIndex :: int
  tg_hasLogprobs :: bool
  tg_hasSequence :: bool
  tg_hasObfuscation :: bool

text \<open>The two \<open>ReplaceAll\<close> calls: CRLF, then CR, become LF.\<close>

fun norm_eol :: "bytes \<Rightarrow> bytes" where
  "norm_eol [] = []"
| "norm_eol (c # s) =
     (if c = CR then LF # norm_eol (if s \<noteq> [] \<and> hd s = LF then tl s else s) else c # norm_eol s)"

text \<open>The counts of event and data lines, or \<open>None\<close> where the function returns false.\<close>

fun frame_lines :: "event \<Rightarrow> bytes list \<Rightarrow> (nat \<times> nat) \<Rightarrow> (nat \<times> nat) option" where
  "frame_lines ev [] counts = Some counts"
| "frame_lines ev (line # ls) (eventLines, dataLines) =
     (if line = [] then frame_lines ev ls (eventLines, dataLines)
      else case str_cut line '':'' of
             None \<Rightarrow> None
           | Some (field, value0) \<Rightarrow>
               let value = trim_prefix value0 '' '' in
               if field = ''event'' then
                 (if value \<noteq> ev_name ev then None else frame_lines ev ls (Suc eventLines, dataLines))
               else if field = ''data'' then
                 (if value \<noteq> ev_data ev then None else frame_lines ev ls (eventLines, Suc dataLines))
               else None)"

definition simpleResponsesSSEFrame :: "event \<Rightarrow> bool" where
  "simpleResponsesSSEFrame ev =
     (case frame_lines ev (split_on LF (norm_eol (ev_raw ev))) (0, 0) of
        None \<Rightarrow> False
      | Some (e, d) \<Rightarrow> if ev_name ev = [] then e = 0 \<and> d = 1 else e = 1 \<and> d = 1)"

definition text_delta_fields :: "bytes list" where
  "text_delta_fields =
     [''content_index'', ''delta'', ''item_id'', ''logprobs'', ''obfuscation'', ''output_index'',
      ''sequence_number'', ''type'']"

text \<open>A field that must be there and decode: a string, an integer (null leaves the zero value).\<close>

definition field_string :: "(bytes \<rightharpoonup> json) \<Rightarrow> bytes \<Rightarrow> bytes option" where
  "field_string fs k =
     (case unmarshal_raw dec_string (fs k) [] of (v, e) \<Rightarrow> if e then None else Some v)"

definition field_int :: "(bytes \<rightharpoonup> json) \<Rightarrow> bytes \<Rightarrow> int option" where
  "field_int fs k =
     (case unmarshal_raw dec_int (fs k) 0 of (v, e) \<Rightarrow> if e then None else Some v)"

text \<open>An optional field: absent, present and decoded, or rejected (\<open>None\<close>).\<close>

definition optional_field :: "'a option \<Rightarrow> ('a \<Rightarrow> bool) \<Rightarrow> bool option" where
  "optional_field raw ok = (case raw of None \<Rightarrow> Some False | Some v \<Rightarrow> if ok v then Some True else None)"

text \<open>
  The strict decoder rejects repeated keys, so the keys of the map are the keys of the
  tokens.
\<close>

definition text_delta_keys :: "bytes \<Rightarrow> bool" where
  "text_delta_keys data =
     (case object_tokens data of
        None \<Rightarrow> False | Some kvs \<Rightarrow> list_all (\<lambda>kv. fst kv \<in> set text_delta_fields) kvs)"

definition parseResponsesTextDelta :: "event \<Rightarrow> textGroup option" where
  "parseResponsesTextDelta ev =
     (if \<not> simpleResponsesSSEFrame ev then None
      else case decodeUniqueResponsesObject (ev_data ev) of
        None \<Rightarrow> None
      | Some fs \<Rightarrow>
          if responsesString (fs ''type'') \<noteq> ''response.output_text.delta'' then None
          else if \<not> text_delta_keys (ev_data ev) then None
          else case (field_string fs ''item_id'', field_int fs ''output_index'',
                     field_int fs ''content_index'', field_string fs ''delta'') of
            (Some itemID, Some outputIndex, Some contentIndex, Some delta) \<Rightarrow>
              (case (optional_field (fs ''logprobs'') (\<lambda>v. v = JArr []),
                     optional_field (fs ''sequence_number'') int_or_null,
                     optional_field (fs ''obfuscation'') string_or_null) of
                 (Some hasLogprobs, Some hasSequence, Some hasObfuscation) \<Rightarrow>
                   Some \<lparr>tg_eventName = ev_name ev, tg_fields = fs, tg_raw = ev_raw ev, tg_delta = delta,
                     tg_payloadBytes = int (length (ev_data ev)), tg_count = 1, tg_itemID = itemID,
                     tg_outputIndex = outputIndex, tg_contentIndex = contentIndex,
                     tg_hasLogprobs = hasLogprobs, tg_hasSequence = hasSequence,
                     tg_hasObfuscation = hasObfuscation\<rparr>
               | _ \<Rightarrow> None)
          | _ \<Rightarrow> None)"

definition compatible :: "textGroup \<Rightarrow> textGroup \<Rightarrow> bool" where
  "compatible g next =
     (tg_eventName g = tg_eventName next \<and> tg_itemID g = tg_itemID next \<and>
      tg_outputIndex g = tg_outputIndex next \<and> tg_contentIndex g = tg_contentIndex next \<and>
      tg_hasLogprobs g = tg_hasLogprobs next \<and> tg_hasSequence g = tg_hasSequence next \<and>
      tg_hasObfuscation g = tg_hasObfuscation next)"

definition merge_group :: "textGroup \<Rightarrow> textGroup \<Rightarrow> textGroup" where
  "merge_group g0 next =
     (let g = g0\<lparr>tg_delta := tg_delta g0 @ tg_delta next,
                 tg_payloadBytes := tg_payloadBytes g0 + tg_payloadBytes next,
                 tg_count := tg_count g0 + tg_count next\<rparr>;
          g1 = (if tg_hasSequence g
                then g\<lparr>tg_fields := (tg_fields g)(''sequence_number'' := tg_fields next ''sequence_number'')\<rparr> else g)
      in if tg_hasObfuscation g1
         then g1\<lparr>tg_fields := (tg_fields g1)(''obfuscation'' := tg_fields next ''obfuscation'')\<rparr> else g1)"

section \<open>Writing a group\<close>

text \<open>
  \<open>json.Marshal\<close> of a map of raw messages: the members in the order of their keys, each
  value compacted with \<open><\<close>, \<open>>\<close>, \<open>&\<close> and the two line separators escaped. The groups
  only hold the keys of \<open>text_delta_fields\<close>, which is in that order.
\<close>

function html_escape :: "bytes \<Rightarrow> bytes" where
  "html_escape [] = []"
| "html_escape (c # s) =
     (if c \<in> {CHR ''<'', CHR ''>'', CHR ''&''} then escape_u (byte_val c) @ html_escape s
      else if has_prefix (c # s) [CHR 0xE2, CHR 0x80, CHR 0xA8] then escape_u 0x2028 @ html_escape (drop 2 s)
      else if has_prefix (c # s) [CHR 0xE2, CHR 0x80, CHR 0xA9] then escape_u 0x2029 @ html_escape (drop 2 s)
      else c # html_escape s)"
  by pat_completeness auto
termination
  by (relation "measure length") auto

fun html_json :: "json \<Rightarrow> json" where
  "html_json (JStr b) = JStr (html_escape b)"
| "html_json (JArr vs) = JArr (map html_json vs)"
| "html_json (JObj ms) = JObj (map (\<lambda>m. (html_escape (fst m), html_json (snd m))) ms)"
| "html_json v = v"

definition encode_fields :: "(bytes \<rightharpoonup> json) \<Rightarrow> json" where
  "encode_fields fs =
     JObj (List.map_filter (\<lambda>k. map_option (\<lambda>v. (k, html_json v)) (fs k)) text_delta_fields)"

definition group_data :: "textGroup \<Rightarrow> bytes" where
  "group_data g = render (encode_fields ((tg_fields g)(''delta'' \<mapsto> JStr (quote True (tg_delta g)))))"

definition group_writes :: "textGroup \<Rightarrow> bytes list" where
  "group_writes g =
     (if tg_count g = 1 then [tg_raw g]
      else (if tg_eventName g \<noteq> [] then [''event: '' @ tg_eventName g @ [LF]] else [])
           @ [''data: '', group_data g, [LF, LF]])"

section \<open>The coalescer\<close>

text \<open>Its state: the pending group and the client's connection.\<close>

type_synonym coalescer = "textGroup option \<times> downstream"

definition coalescer_flush :: "coalescer \<Rightarrow> coalescer \<times> go_error option" where
  "coalescer_flush c =
     (case c of
        (None, w) \<Rightarrow> ((None, w), None)
      | (Some g, w) \<Rightarrow> (case w_write_all w (group_writes g) of (w', e) \<Rightarrow> ((None, w'), e)))"

text \<open>A barrier: what is pending goes out first, then the frame as it is.\<close>

definition coalescer_barrier :: "bytes \<Rightarrow> coalescer \<Rightarrow> coalescer \<times> go_error option" where
  "coalescer_barrier raw c =
     (case coalescer_flush c of
        (c', Some e) \<Rightarrow> (c', Some e)
      | ((p, w), None) \<Rightarrow> (case w_write w raw of (w', e) \<Rightarrow> ((p, w'), e)))"

definition coalescer_accept :: "int \<Rightarrow> event \<Rightarrow> coalescer \<Rightarrow> coalescer \<times> go_error option" where
  "coalescer_accept maxGroupBytes ev c =
     (if maxGroupBytes < int (length (ev_data ev)) then coalescer_barrier (ev_raw ev) c
      else case parseResponsesTextDelta ev of
             None \<Rightarrow> coalescer_barrier (ev_raw ev) c
           | Some d \<Rightarrow>
               (case c of
                  (None, w) \<Rightarrow> ((Some d, w), None)
                | (Some p, w) \<Rightarrow>
                    if \<not> compatible p d \<or> maxGroupBytes < tg_payloadBytes p + tg_payloadBytes d then
                      (case coalescer_flush (Some p, w) of
                         (c', Some e) \<Rightarrow> (c', Some e)
                       | ((_, w'), None) \<Rightarrow> ((Some d, w'), None))
                    else ((Some (merge_group p d), w), None)))"

definition coalescer_acceptFrame :: "int \<Rightarrow> bytes \<Rightarrow> coalescer \<Rightarrow> coalescer \<times> go_error option" where
  "coalescer_acceptFrame maxGroupBytes raw c =
     (case snd (feedChunk (newParser 0) raw True) of
        [ev] \<Rightarrow> if length (ev_raw ev) = length raw then coalescer_accept maxGroupBytes ev c
               else coalescer_barrier raw c
      | _ \<Rightarrow> coalescer_barrier raw c)"

section \<open>Framing\<close>

text \<open>
  The variables of \<open>replayResponsesReader\<close>; \<open>rs_seg\<close> is \<open>buf[start:i]\<close>, the bytes of the
  current read not handed to \<open>appendBytes\<close> yet.
\<close>

record replayScan =
  rs_c :: coalescer
  rs_frame :: bytes
  rs_passthrough :: bool
  rs_lineHasData :: bool
  rs_pendingCR :: bool
  rs_frameDone :: bool
  rs_seg :: bytes

definition replayScan0 :: "downstream \<Rightarrow> replayScan" where
  "replayScan0 w = \<lparr>rs_c = (None, w), rs_frame = [], rs_passthrough = False, rs_lineHasData = False,
     rs_pendingCR = False, rs_frameDone = False, rs_seg = []\<rparr>"

definition scan_write :: "bytes \<Rightarrow> replayScan \<Rightarrow> replayScan \<times> go_error option" where
  "scan_write p s =
     (case w_write (snd (rs_c s)) p of (w, e) \<Rightarrow> (s\<lparr>rs_c := (fst (rs_c s), w)\<rparr>, e))"

definition scan_flush :: "replayScan \<Rightarrow> replayScan \<times> go_error option" where
  "scan_flush s = (case coalescer_flush (rs_c s) of (c, e) \<Rightarrow> (s\<lparr>rs_c := c\<rparr>, e))"

definition appendBytes :: "int \<Rightarrow> bytes \<Rightarrow> replayScan \<Rightarrow> replayScan \<times> go_error option" where
  "appendBytes maxGroupBytes chunk s =
     (if chunk = [] then (s, None)
      else if rs_passthrough s then scan_write chunk s
      else if int (length (rs_frame s)) + int (length chunk) > maxGroupBytes then
        (case scan_flush s of
           (s1, Some e) \<Rightarrow> (s1, Some e)
         | (s1, None) \<Rightarrow>
             (case scan_write (rs_frame s1) s1 of
                (s2, Some e) \<Rightarrow> (s2, Some e)
              | (s2, None) \<Rightarrow> scan_write chunk (s2\<lparr>rs_frame := [], rs_passthrough := True\<rparr>)))
      else (s\<lparr>rs_frame := rs_frame s @ chunk\<rparr>, None))"

definition finishFrame :: "int \<Rightarrow> replayScan \<Rightarrow> replayScan \<times> go_error option" where
  "finishFrame maxGroupBytes s =
     (case (if rs_passthrough s then (rs_c s, None) else coalescer_acceptFrame maxGroupBytes (rs_frame s) (rs_c s)) of
        (c, Some e) \<Rightarrow> (s\<lparr>rs_c := c\<rparr>, Some e)
      | (c, None) \<Rightarrow> (s\<lparr>rs_c := c, rs_frame := [], rs_passthrough := False\<rparr>, None))"

text \<open>\<open>appendBytes\<close> of the bytes up to here, then \<open>finishFrame\<close>.\<close>

definition close_frame :: "int \<Rightarrow> bytes \<Rightarrow> replayScan \<Rightarrow> replayScan \<times> go_error option" where
  "close_frame maxGroupBytes seg s =
     (case appendBytes maxGroupBytes seg s of
        (s1, Some e) \<Rightarrow> (s1, Some e)
      | (s1, None) \<Rightarrow> finishFrame maxGroupBytes (s1\<lparr>rs_seg := []\<rparr>))"

text \<open>The switch on a byte.\<close>

definition scan_switch :: "int \<Rightarrow> char \<Rightarrow> replayScan \<Rightarrow> replayScan \<times> go_error option" where
  "scan_switch maxGroupBytes b s =
     (if b = CR then
        (s\<lparr>rs_pendingCR := True, rs_frameDone := \<not> rs_lineHasData s, rs_lineHasData := False,
           rs_seg := rs_seg s @ [b]\<rparr>, None)
      else if b = LF then
        (if \<not> rs_lineHasData s then close_frame maxGroupBytes (rs_seg s @ [b]) s
         else (s\<lparr>rs_lineHasData := False, rs_seg := rs_seg s @ [b]\<rparr>, None))
      else (s\<lparr>rs_lineHasData := True, rs_seg := rs_seg s @ [b]\<rparr>, None))"

definition scan_byte :: "int \<Rightarrow> char \<Rightarrow> replayScan \<Rightarrow> replayScan \<times> go_error option" where
  "scan_byte maxGroupBytes b s0 =
     (if \<not> rs_pendingCR s0 then scan_switch maxGroupBytes b s0
      else let s = s0\<lparr>rs_pendingCR := False\<rparr>; lf = (if b = LF then [b] else []) in
        if rs_frameDone s then
          (case close_frame maxGroupBytes (rs_seg s @ lf) s of
             (s1, Some e) \<Rightarrow> (s1, Some e)
           | (s1, None) \<Rightarrow>
               if b = LF then (s1\<lparr>rs_frameDone := False\<rparr>, None)
               else scan_switch maxGroupBytes b (s1\<lparr>rs_frameDone := False\<rparr>))
        else if b = LF then (s\<lparr>rs_seg := rs_seg s @ [b]\<rparr>, None)
        else scan_switch maxGroupBytes b s)"

fun scan_bytes :: "int \<Rightarrow> bytes \<Rightarrow> replayScan \<Rightarrow> replayScan \<times> go_error option" where
  "scan_bytes maxGroupBytes [] s = (s, None)"
| "scan_bytes maxGroupBytes (b # bs) s =
     (case scan_byte maxGroupBytes b s of
        (s', Some e) \<Rightarrow> (s', Some e) | (s', None) \<Rightarrow> scan_bytes maxGroupBytes bs s')"

text \<open>One read: its bytes, then the rest of the buffer.\<close>

definition scan_chunk :: "int \<Rightarrow> bytes \<Rightarrow> replayScan \<Rightarrow> replayScan \<times> go_error option" where
  "scan_chunk maxGroupBytes chunk s =
     (case scan_bytes maxGroupBytes chunk (s\<lparr>rs_seg := []\<rparr>) of
        (s1, Some e) \<Rightarrow> (s1, Some e)
      | (s1, None) \<Rightarrow> appendBytes maxGroupBytes (rs_seg s1) s1)"

text \<open>The end of the data.\<close>

definition scan_end :: "int \<Rightarrow> replayScan \<Rightarrow> replayScan \<times> go_error option" where
  "scan_end maxGroupBytes s =
     (case (if rs_pendingCR s \<and> rs_frameDone s then finishFrame maxGroupBytes s else (s, None)) of
        (s1, Some e) \<Rightarrow> (s1, Some e)
      | (s1, None) \<Rightarrow>
          (case scan_flush s1 of
             (s2, Some e) \<Rightarrow> (s2, Some e)
           | (s2, None) \<Rightarrow> scan_write (rs_frame s2) s2))"

fun scan_chunks :: "int \<Rightarrow> bytes list \<Rightarrow> replayScan \<Rightarrow> replayScan \<times> go_error option" where
  "scan_chunks maxGroupBytes [] s = (s, None)"
| "scan_chunks maxGroupBytes (c # cs) s =
     (case scan_chunk maxGroupBytes c s of
        (s', Some e) \<Rightarrow> (s', Some e) | (s', None) \<Rightarrow> scan_chunks maxGroupBytes cs s')"

definition replay_reads :: "int \<Rightarrow> bytes list \<Rightarrow> go_error option \<Rightarrow> downstream \<Rightarrow> downstream \<times> go_error option" where
  "replay_reads maxGroupBytes chunks re w =
     (case scan_chunks maxGroupBytes chunks (replayScan0 w) of
        (s, Some e) \<Rightarrow> (snd (rs_c s), Some e)
      | (s, None) \<Rightarrow>
          (case re of
             Some e \<Rightarrow> (snd (rs_c s), Some e)
           | None \<Rightarrow> (case scan_end maxGroupBytes s of (s', e) \<Rightarrow> (snd (rs_c s'), e))))"

definition replayResponsesReader ::
    "bytes \<times> go_error option \<Rightarrow> downstream \<Rightarrow> int \<Rightarrow> downstream \<times> go_error option" where
  "replayResponsesReader r w maxGroupBytes =
     (if maxGroupBytes \<le> 0 then
        (case w_write w (fst r) of (w', Some e) \<Rightarrow> (w', Some e) | (w', None) \<Rightarrow> (w', snd r))
      else replay_reads maxGroupBytes (chunks_of 32768 (fst r)) (snd r) w)"

end
