(* ===== verification/Responses_Coalesce.thy ===== *)
theory Responses_Coalesce
  imports Responses_Replay Json_Wf
begin

text \<open>
  What the buffered replay of the Responses wire promises: it depends only on the bytes
  of the spool, it writes every frame in order and unchanged except for runs of
  compatible text deltas, and the frame that replaces such a run carries the
  concatenated text.
\<close>

section \<open>Writes that succeed\<close>

definition grow :: "bytes \<Rightarrow> downstream \<Rightarrow> downstream" where
  "grow b w = w\<lparr>ds_body := ds_body w @ b\<rparr>"

lemma grow_simps [simp]:
  "grow [] w = w" "grow a (grow b w) = grow (b @ a) w" "ds_limit (grow b w) = ds_limit w"
  "ds_body (grow b w) = ds_body w @ b"
  by (simp_all add: grow_def)

lemma w_write_open: "ds_limit w = None \<Longrightarrow> w_write w b = (grow b w, None)"
  by (simp add: w_write_def grow_def)

lemma w_write_all_open: "ds_limit w = None \<Longrightarrow> w_write_all w bs = (grow (concat bs) w, None)"
  by (induction bs arbitrary: w) (simp_all add: w_write_open grow_def)

section \<open>Frames\<close>

text \<open>
  The frames of a text, one byte at a time: a frame ends with a blank line, whose CR
  waits for a possible LF. A state is the frame so far, whether the line has data, and
  whether a CR is pending and ended the frame.
\<close>

type_synonym frameState = "bytes \<times> bool \<times> bool \<times> bool"

definition frame_switch :: "char \<Rightarrow> bytes \<Rightarrow> bool \<Rightarrow> frameState \<times> bytes list" where
  "frame_switch b f line =
     (if b = CR then ((f @ [b], False, True, \<not> line), [])
      else if b = LF then
        (if line then ((f @ [b], False, False, False), []) else (([], False, False, False), [f @ [b]]))
      else ((f @ [b], True, False, False), []))"

fun frame_byte :: "char \<Rightarrow> frameState \<Rightarrow> frameState \<times> bytes list" where
  "frame_byte b (f, line, cr, dn) =
     (if \<not> cr then frame_switch b f line
      else if dn then
        (if b = LF then (([], line, False, False), [f @ [b]])
         else case frame_switch b [] line of (s, fs) \<Rightarrow> (s, f # fs))
      else if b = LF then ((f @ [b], line, False, False), [])
      else frame_switch b f line)"

fun frame_bytes :: "bytes \<Rightarrow> frameState \<Rightarrow> frameState \<times> bytes list" where
  "frame_bytes [] s = (s, [])"
| "frame_bytes (b # bs) s =
     (case frame_byte b s of (s', fs) \<Rightarrow> (case frame_bytes bs s' of (s'', gs) \<Rightarrow> (s'', fs @ gs)))"

text \<open>The frames of a text and the unterminated rest.\<close>

definition sse_frames :: "bytes \<Rightarrow> bytes list \<times> bytes" where
  "sse_frames b =
     (case frame_bytes b ([], False, False, False) of
        ((f, line, cr, dn), fs) \<Rightarrow> if cr \<and> dn then (fs @ [f], []) else (fs, f))"

lemma frame_byte_concat:
  "frame_byte b s = (s', fs) \<Longrightarrow> concat fs @ fst s' = fst s @ [b]"
  by (cases s) (auto simp: frame_switch_def split: if_splits prod.splits)

lemma frame_bytes_concat: "frame_bytes b s = (s', fs) \<Longrightarrow> concat fs @ fst s' = fst s @ b"
proof (induction b arbitrary: s s' fs)
  case (Cons c b)
  obtain t gs where t: "frame_byte c s = (t, gs)" by (metis surj_pair)
  obtain u hs where u: "frame_bytes b t = (u, hs)" by (metis surj_pair)
  from frame_byte_concat [OF t] Cons.IH [OF u] Cons.prems t u show ?case by auto
qed simp

lemma sse_frames_concat: "sse_frames b = (fs, t) \<Longrightarrow> concat fs @ t = b"
  using frame_bytes_concat [of b "([], False, False, False)"]
  by (auto simp: sse_frames_def split: prod.splits if_splits)

section \<open>The scan is a pass over the frames\<close>

text \<open>A frame goes to the coalescer, or past it when it is larger than the budget.\<close>

definition replay_frame :: "int \<Rightarrow> bytes \<Rightarrow> coalescer \<Rightarrow> coalescer" where
  "replay_frame maxGroupBytes f c =
     fst (if int (length f) \<le> maxGroupBytes then coalescer_acceptFrame maxGroupBytes f c
          else coalescer_barrier f c)"

definition open_c :: "coalescer \<Rightarrow> bool" where
  "open_c c = (ds_limit (snd c) = None)"

lemma flush_open:
  "open_c c \<Longrightarrow> coalescer_flush c =
     ((None, grow (case fst c of None \<Rightarrow> [] | Some g \<Rightarrow> concat (group_writes g)) (snd c)), None)"
  by (cases c) (auto simp: coalescer_flush_def open_c_def w_write_all_open split: option.splits)

lemma barrier_open:
  "open_c c \<Longrightarrow> coalescer_barrier b c =
     ((None, grow ((case fst c of None \<Rightarrow> [] | Some g \<Rightarrow> concat (group_writes g)) @ b) (snd c)), None)"
  by (simp add: coalescer_barrier_def flush_open open_c_def w_write_open grow_def)

lemma accept_open:
  "open_c c \<Longrightarrow> snd (coalescer_accept m ev c) = None \<and> open_c (fst (coalescer_accept m ev c))"
  by (cases c) (auto simp: coalescer_accept_def barrier_open flush_open open_c_def
      split: option.splits)

lemma acceptFrame_open:
  "open_c c \<Longrightarrow> snd (coalescer_acceptFrame m f c) = None \<and> open_c (fst (coalescer_acceptFrame m f c))"
  using accept_open [of c m] barrier_open [of c f]
  by (auto simp: coalescer_acceptFrame_def open_c_def split: list.splits)

lemma replay_frame_open: "open_c c \<Longrightarrow> open_c (replay_frame m f c)"
  using acceptFrame_open [of c m f] by (auto simp: replay_frame_def barrier_open open_c_def)

text \<open>
  The state of the scan at the end of a read, from the coalescer at the start of the
  current frame and the state of the frame; within a read, \<open>rs_seg\<close> is on top of it.
\<close>

definition scan_at :: "int \<Rightarrow> coalescer \<Rightarrow> frameState \<Rightarrow> bytes \<Rightarrow> replayScan" where
  "scan_at m c s seg =
     (case s of (f, line, cr, dn) \<Rightarrow>
        if int (length f) \<le> m
        then \<lparr>rs_c = c, rs_frame = f, rs_passthrough = False, rs_lineHasData = line,
              rs_pendingCR = cr, rs_frameDone = dn, rs_seg = seg\<rparr>
        else \<lparr>rs_c = fst (coalescer_barrier f c), rs_frame = [], rs_passthrough = True,
              rs_lineHasData = line, rs_pendingCR = cr, rs_frameDone = dn, rs_seg = seg\<rparr>)"

lemma scan_at_fields [simp]:
  "rs_lineHasData (scan_at m c (f, line, cr, dn) seg) = line"
  "rs_pendingCR (scan_at m c (f, line, cr, dn) seg) = cr"
  "rs_frameDone (scan_at m c (f, line, cr, dn) seg) = dn"
  "rs_seg (scan_at m c (f, line, cr, dn) seg) = seg"
  "(scan_at m c (f, line, cr, dn) seg)\<lparr>rs_lineHasData := line'\<rparr> = scan_at m c (f, line', cr, dn) seg"
  "(scan_at m c (f, line, cr, dn) seg)\<lparr>rs_pendingCR := cr'\<rparr> = scan_at m c (f, line, cr', dn) seg"
  "(scan_at m c (f, line, cr, dn) seg)\<lparr>rs_frameDone := dn'\<rparr> = scan_at m c (f, line, cr, dn') seg"
  "(scan_at m c (f, line, cr, dn) seg)\<lparr>rs_seg := seg'\<rparr> = scan_at m c (f, line, cr, dn) seg'"
  by (simp_all add: scan_at_def)

lemma append_at:
  assumes "open_c c"
  shows "appendBytes m b (scan_at m c (f, line, cr, dn) seg) = (scan_at m c (f @ b, line, cr, dn) seg, None)"
proof (cases "b = []")
  case True
  then show ?thesis by (simp add: appendBytes_def)
next
  case False
  have o: "open_c (fst (coalescer_flush c))" using assms by (simp add: flush_open open_c_def)
  show ?thesis
  proof (cases "int (length f) \<le> m")
    case True
    with False assms show ?thesis
      by (auto simp: appendBytes_def scan_at_def scan_flush_def scan_write_def flush_open barrier_open
          open_c_def w_write_open grow_def)
  next
    case pass: False
    with False assms show ?thesis
      by (auto simp: appendBytes_def scan_at_def scan_write_def barrier_open open_c_def w_write_open grow_def)
  qed
qed

lemma finish_at:
  assumes "open_c c" "0 \<le> m"
  shows "finishFrame m (scan_at m c (f, line, cr, dn) seg) =
    (scan_at m (replay_frame m f c) ([], line, cr, dn) seg, None)"
  using acceptFrame_open [OF assms(1), of m f] assms
  by (auto simp: finishFrame_def scan_at_def replay_frame_def barrier_open split: prod.splits)

lemma close_at:
  "open_c c \<Longrightarrow> 0 \<le> m \<Longrightarrow>
   close_frame m b (scan_at m c (f, line, cr, dn) seg) =
     (scan_at m (replay_frame m (f @ b) c) ([], line, cr, dn) [], None)"
  by (simp add: close_frame_def append_at finish_at)

text \<open>
  \<open>tracks m s c r\<close>: the scan \<open>s\<close> is where the coalescer \<open>c\<close> and the frame state \<open>r\<close> are.
\<close>

definition tracks :: "int \<Rightarrow> replayScan \<Rightarrow> coalescer \<Rightarrow> frameState \<Rightarrow> bool" where
  "tracks m s c r = (open_c c \<and> (\<exists>a seg line cr dn. r = (a @ seg, line, cr, dn) \<and> (dn \<longrightarrow> cr) \<and>
     s = scan_at m c (a, line, cr, dn) seg))"

lemma tracksI:
  "open_c c \<Longrightarrow> (dn \<longrightarrow> cr) \<Longrightarrow> f = a @ seg \<Longrightarrow> tracks m (scan_at m c (a, line, cr, dn) seg) c (f, line, cr, dn)"
  by (auto simp: tracks_def)

lemma switch_tracks:
  assumes "open_c c" "0 \<le> m" "frame_switch b (a @ seg) line = (r, fs)"
  shows "\<exists>s. scan_switch m b (scan_at m c (a, line, False, False) seg) = (s, None) \<and>
    tracks m s (fold (replay_frame m) fs c) r"
proof -
  consider "b = CR" | "b = LF" "line" | "b = LF" "\<not> line" | "b \<noteq> CR" "b \<noteq> LF" by blast
  then show ?thesis
  proof cases
    case 1
    with assms show ?thesis
      by (auto simp: scan_switch_def frame_switch_def intro!: tracksI)
  next
    case 2
    with assms show ?thesis
      by (auto simp: scan_switch_def frame_switch_def intro!: tracksI)
  next
    case 3
    with assms show ?thesis
      by (auto simp: scan_switch_def frame_switch_def close_at replay_frame_open intro!: tracksI)
  next
    case 4
    with assms show ?thesis
      by (auto simp: scan_switch_def frame_switch_def intro!: tracksI)
  qed
qed

lemma byte_tracks:
  assumes "tracks m s c r" "0 \<le> m" "frame_byte b r = (r', fs)"
  shows "\<exists>s'. scan_byte m b s = (s', None) \<and> tracks m s' (fold (replay_frame m) fs c) r'"
proof -
  obtain a seg line cr dn where r: "r = (a @ seg, line, cr, dn)" "dn \<longrightarrow> cr"
      "s = scan_at m c (a, line, cr, dn) seg" "open_c c"
    using assms(1) by (auto simp: tracks_def)
  consider "\<not> cr" | "cr" "dn" "b = LF" | "cr" "dn" "b \<noteq> LF" | "cr" "\<not> dn" "b = LF" | "cr" "\<not> dn" "b \<noteq> LF"
    by blast
  then show ?thesis
  proof cases
    case 1
    with r assms switch_tracks [OF r(4) assms(2), of b a seg line] show ?thesis
      by (auto simp: scan_byte_def)
  next
    case 2
    with r assms show ?thesis
      by (auto simp: scan_byte_def Let_def close_at replay_frame_open intro!: tracksI)
  next
    case 3
    obtain t gs where t: "frame_switch b [] line = (t, gs)" by (metis surj_pair)
    let ?c = "replay_frame m (a @ seg) c"
    from switch_tracks [OF replay_frame_open [OF r(4)] assms(2), of b "[]" "[]" line t gs m "a @ seg"] t
    obtain s' where "scan_switch m b (scan_at m ?c ([], line, False, False) []) = (s', None)"
        "tracks m s' (fold (replay_frame m) gs ?c) t" by auto
    with 3 r assms t show ?thesis
      by (auto simp: scan_byte_def Let_def close_at)
  next
    case 4
    with r assms show ?thesis
      by (auto simp: scan_byte_def Let_def intro!: tracksI)
  next
    case 5
    with r assms switch_tracks [OF r(4) assms(2), of b a seg line] show ?thesis
      by (auto simp: scan_byte_def Let_def)
  qed
qed

lemma bytes_tracks:
  "tracks m s c r \<Longrightarrow> 0 \<le> m \<Longrightarrow> frame_bytes bs r = (r', fs) \<Longrightarrow>
   \<exists>s'. scan_bytes m bs s = (s', None) \<and> tracks m s' (fold (replay_frame m) fs c) r'"
proof (induction bs arbitrary: s c r r' fs)
  case (Cons b bs)
  obtain t gs where t: "frame_byte b r = (t, gs)" by (metis surj_pair)
  obtain u hs where u: "frame_bytes bs t = (u, hs)" by (metis surj_pair)
  from byte_tracks [OF Cons.prems(1,2) t] obtain s1 where
      s1: "scan_byte m b s = (s1, None)" "tracks m s1 (fold (replay_frame m) gs c) t" by blast
  from Cons.IH [OF s1(2) Cons.prems(2) u] s1(1) t u Cons.prems(3) show ?case by auto
qed auto

text \<open>At the end of a read the scan is determined by the frames and the frame state.\<close>

lemma chunk_tracks:
  assumes "open_c c" "0 \<le> m" "snd (snd (snd r)) \<longrightarrow> fst (snd (snd r))" "frame_bytes b r = (r', fs)"
  shows "\<exists>seg'. scan_chunk m b (scan_at m c r seg) = (scan_at m (fold (replay_frame m) fs c) r' seg', None) \<and>
    open_c (fold (replay_frame m) fs c) \<and> (snd (snd (snd r')) \<longrightarrow> fst (snd (snd r')))"
proof -
  obtain f line cr dn where r: "r = (f, line, cr, dn)" by (cases r) auto
  have "tracks m (scan_at m c r []) c r"
    using assms r by (auto intro: tracksI)
  from bytes_tracks [OF this assms(2,4)] obtain s' where s': "scan_bytes m b (scan_at m c r []) = (s', None)"
      "tracks m s' (fold (replay_frame m) fs c) r'" by blast
  then show ?thesis using r by (auto simp: tracks_def scan_chunk_def append_at)
qed

lemma frame_bytes_append:
  "frame_bytes (a @ b) s =
     (case frame_bytes a s of (s', fs) \<Rightarrow> (case frame_bytes b s' of (s'', gs) \<Rightarrow> (s'', fs @ gs)))"
  by (induction a arbitrary: s) (simp_all split: prod.splits)

lemma chunks_track:
  "open_c c \<Longrightarrow> 0 \<le> m \<Longrightarrow> snd (snd (snd r)) \<longrightarrow> fst (snd (snd r)) \<Longrightarrow>
   frame_bytes (concat cs) r = (r', fs) \<Longrightarrow>
   \<exists>seg'. scan_chunks m cs (scan_at m c r seg) = (scan_at m (fold (replay_frame m) fs c) r' seg', None) \<and>
     open_c (fold (replay_frame m) fs c)"
proof (induction cs arbitrary: c r r' seg fs)
  case (Cons b cs)
  obtain t gs where t: "frame_bytes b r = (t, gs)" by (metis surj_pair)
  obtain u hs where u: "frame_bytes (concat cs) t = (u, hs)" by (metis surj_pair)
  from chunk_tracks [OF Cons.prems(1-3) t, of seg] obtain seg1 where
      1: "scan_chunk m b (scan_at m c r seg) = (scan_at m (fold (replay_frame m) gs c) t seg1, None)"
         "open_c (fold (replay_frame m) gs c)" "snd (snd (snd t)) \<longrightarrow> fst (snd (snd t))" by blast
  from Cons.IH [OF 1(2) Cons.prems(2) 1(3) u, of seg1] 1(1) t u Cons.prems(4) show ?case
    by (auto simp: frame_bytes_append)
qed auto

text \<open>
  What a replay without errors writes: the frames of the text through the coalescer, the
  pending group, and the unterminated rest.
\<close>

definition replay_spec :: "int \<Rightarrow> bytes \<Rightarrow> downstream \<Rightarrow> downstream" where
  "replay_spec m b w =
     (case sse_frames b of (fs, tail) \<Rightarrow>
        snd (fst (coalescer_barrier tail (fold (replay_frame m) fs (None, w)))))"

lemma scan_end_at:
  assumes "open_c c" "0 \<le> m"
  shows "\<exists>s. scan_end m (scan_at m c (f, line, cr, dn) seg) = (s, None) \<and>
    snd (rs_c s) = snd (fst (if cr \<and> dn then coalescer_barrier [] (replay_frame m f c) else coalescer_barrier f c))"
proof -
  have o: "open_c (replay_frame m f c)" by (rule replay_frame_open [OF assms(1)])
  have b: "\<exists>s. (case scan_flush (scan_at m d (g, l, k, e) sg) of (s2, Some e) \<Rightarrow> (s2, Some e)
      | (s2, None) \<Rightarrow> scan_write (rs_frame s2) s2) = (s, None) \<and>
      snd (rs_c s) = snd (fst (coalescer_barrier g d))" if "open_c d" for d g l k e sg
  proof (cases "int (length g) \<le> m")
    case True
    with that show ?thesis
      by (auto simp: scan_at_def scan_flush_def scan_write_def flush_open barrier_open open_c_def
          w_write_open grow_def)
  next
    case False
    with that show ?thesis
      by (auto simp: scan_at_def scan_flush_def scan_write_def flush_open barrier_open open_c_def
          w_write_open grow_def)
  qed
  show ?thesis
  proof (cases "cr \<and> dn")
    case True
    with finish_at [OF assms(1,2), of f line cr dn seg] b [OF o, of "[]" line cr dn seg] assms(2) show ?thesis
      by (auto simp: scan_end_def)
  next
    case False
    with b [OF assms(1), of f line cr dn seg] show ?thesis by (auto simp: scan_end_def)
  qed
qed

lemma replay_reads_spec:
  assumes "ds_limit w = None" "0 \<le> m"
  shows "replay_reads m cs None w = (replay_spec m (concat cs) w, None)"
proof -
  obtain r fs where r: "frame_bytes (concat cs) ([], False, False, False) = (r, fs)" by (metis surj_pair)
  obtain f line cr dn where r': "r = (f, line, cr, dn)" by (cases r) auto
  have o: "open_c (None, w)" using assms(1) by (simp add: open_c_def)
  have s0: "replayScan0 w = scan_at m (None, w) ([], False, False, False) []"
    using assms(2) by (simp add: replayScan0_def scan_at_def)
  let ?c = "fold (replay_frame m) fs (None, w)"
  from chunks_track [OF o assms(2) _ r, of "[]"] s0 obtain seg where
      c: "scan_chunks m cs (replayScan0 w) = (scan_at m ?c r seg, None)" "open_c ?c"
    by auto
  from scan_end_at [OF c(2) assms(2), of f line cr dn seg] obtain s where
      s: "scan_end m (scan_at m ?c r seg) = (s, None)"
        "snd (rs_c s) = snd (fst (if cr \<and> dn then coalescer_barrier [] (replay_frame m f ?c)
           else coalescer_barrier f ?c))"
    using r' by auto
  have "snd (rs_c s) = replay_spec m (concat cs) w"
    using s(2) r r' by (simp add: replay_spec_def sse_frames_def)
  with c(1) s(1) show ?thesis by (simp add: replay_reads_def)
qed

text \<open>
  C34. A buffered replay of the Responses stream that meets no error writes what the
  frames of the spooled bytes give, however the spool's reads cut them: each frame goes
  through the coalescer once, in order, the pending text is written before anything that
  is not text, and an unterminated rest is copied.
\<close>

theorem replay_is_framewise:
  assumes "ds_limit w = None" "0 \<le> m"
  shows "replay_reads m cs None w = (replay_spec m (concat cs) w, None)"
  using assms by (rule replay_reads_spec)

theorem replay_is_framewise_witness:
  "replay_reads 100 [''data: x'', [LF, LF, CHR ''t'']] None w_new
     = (replay_spec 100 (''data: x'' @ [LF, LF, CHR ''t'']) w_new, None)"
  using replay_is_framewise [of w_new 100 "[''data: x'', [LF, LF, CHR ''t'']]"] by (simp add: w_new_def)

section \<open>What the coalescer may change\<close>

text \<open>The text delta a frame is, within the budget.\<close>

definition frame_delta :: "int \<Rightarrow> bytes \<Rightarrow> textGroup option" where
  "frame_delta m f =
     (case snd (feedChunk (newParser 0) f True) of
        [ev] \<Rightarrow> if length (ev_raw ev) = length f \<and> int (length (ev_data ev)) \<le> m
               then parseResponsesTextDelta ev else None
      | _ \<Rightarrow> None)"

text \<open>
  Two deltas of the same text: the same event name, item and indices, and the same optional
  fields.
\<close>

definition same_text :: "textGroup \<Rightarrow> textGroup \<Rightarrow> bool" where
  "same_text d e =
     (tg_eventName d = tg_eventName e \<and> tg_itemID d = tg_itemID e \<and>
      tg_outputIndex d = tg_outputIndex e \<and> tg_contentIndex d = tg_contentIndex e \<and>
      (\<forall>k \<in> {''logprobs'', ''sequence_number'', ''obfuscation''}. tg_fields d k = None \<longleftrightarrow> tg_fields e k = None))"

text \<open>
  The frame that stands for a run of deltas: the fields of the first one, the sequence number
  and the obfuscation of the last one, and as its delta the texts of all of them in order.
\<close>

definition merged_fields :: "textGroup list \<Rightarrow> bytes \<rightharpoonup> json" where
  "merged_fields ds =
     (\<lambda>k. if k = ''delta'' then Some (JStr (quote True (concat (map tg_delta ds))))
          else if k = ''sequence_number'' \<or> k = ''obfuscation'' then tg_fields (last ds) k
          else tg_fields (hd ds) k)"

definition merged_frame :: "textGroup list \<Rightarrow> bytes" where
  "merged_frame ds =
     (if tg_eventName (hd ds) = [] then [] else ''event: '' @ tg_eventName (hd ds) @ [LF])
     @ ''data: '' @ render (encode_fields (merged_fields ds)) @ [LF, LF]"

text \<open>
  Frames and the bytes written for them: each one copied, except that a run of two or more
  deltas of the same text, of no more data than the budget, may be written as one frame.
\<close>

inductive coalesced :: "int \<Rightarrow> bytes list \<Rightarrow> bytes \<Rightarrow> bool" for m where
  none: "coalesced m [] []"
| copied: "coalesced m fs out \<Longrightarrow> coalesced m (fs @ [f]) (out @ f)"
| merged: "coalesced m fs out \<Longrightarrow> list_all2 (\<lambda>f d. frame_delta m f = Some d) run ds \<Longrightarrow> 2 \<le> length ds \<Longrightarrow>
    list_all (same_text (hd ds)) ds \<Longrightarrow> sum_list (map tg_payloadBytes ds) \<le> m \<Longrightarrow>
    coalesced m (fs @ run) (out @ merged_frame ds)"

section \<open>The groups of the coalescer\<close>

inductive text_run :: "int \<Rightarrow> bytes list \<Rightarrow> textGroup \<Rightarrow> bool" for m where
  one: "frame_delta m f = Some d \<Longrightarrow> text_run m [f] d"
| more: "text_run m fs g \<Longrightarrow> frame_delta m f = Some d \<Longrightarrow> compatible g d \<Longrightarrow>
    tg_payloadBytes g + tg_payloadBytes d \<le> m \<Longrightarrow> text_run m (fs @ [f]) (merge_group g d)"

lemma optional_field_Some: "optional_field raw ok = Some b \<Longrightarrow> b \<longleftrightarrow> raw \<noteq> None"
  by (auto simp: optional_field_def split: option.splits if_splits)

lemma parsed_delta:
  assumes "parseResponsesTextDelta ev = Some d"
  shows "tg_raw d = ev_raw ev \<and> tg_count d = 1 \<and> tg_payloadBytes d = int (length (ev_data ev)) \<and>
    tg_hasLogprobs d = (tg_fields d ''logprobs'' \<noteq> None) \<and>
    tg_hasSequence d = (tg_fields d ''sequence_number'' \<noteq> None) \<and>
    tg_hasObfuscation d = (tg_fields d ''obfuscation'' \<noteq> None)"
  using assms
  by (auto simp: parseResponsesTextDelta_def dest: optional_field_Some split: if_splits option.splits)

lemma frame_event:
  assumes "snd (feedChunk (newParser 0) f True) = [ev]" "length (ev_raw ev) = length f"
  shows "ev_raw ev = f"
proof -
  have "subseq (heldRaw (feed_end True (at_start 0 False) f)) f"
    using raw_step_end [of f "at_start 0 False" True] by (simp add: raw_step_def)
  then have "subseq (concat (map ev_raw (parse_stream 0 f))) f"
    unfolding heldRaw_def parse_stream_end using subseq_append_left by blast
  with assms show ?thesis by (simp add: parse_stream_def subseq_same_length)
qed

lemma frame_delta_parsed:
  assumes "frame_delta m f = Some d"
  shows "tg_raw d = f \<and> tg_count d = 1 \<and> tg_payloadBytes d \<le> m \<and>
    tg_hasLogprobs d = (tg_fields d ''logprobs'' \<noteq> None) \<and>
    tg_hasSequence d = (tg_fields d ''sequence_number'' \<noteq> None) \<and>
    tg_hasObfuscation d = (tg_fields d ''obfuscation'' \<noteq> None)"
  using assms parsed_delta frame_event
  by (auto simp: frame_delta_def split: list.splits if_splits)

text \<open>The group of a run of deltas \<open>ds\<close>.\<close>

definition group_of :: "textGroup list \<Rightarrow> textGroup \<Rightarrow> bool" where
  "group_of ds g =
     (let d = hd ds in
      ds \<noteq> [] \<and> list_all (same_text d) ds \<and>
      tg_eventName g = tg_eventName d \<and> tg_raw g = tg_raw d \<and> tg_itemID g = tg_itemID d \<and>
      tg_outputIndex g = tg_outputIndex d \<and> tg_contentIndex g = tg_contentIndex d \<and>
      tg_hasLogprobs g = (tg_fields d ''logprobs'' \<noteq> None) \<and>
      tg_hasSequence g = (tg_fields d ''sequence_number'' \<noteq> None) \<and>
      tg_hasObfuscation g = (tg_fields d ''obfuscation'' \<noteq> None) \<and>
      tg_delta g = concat (map tg_delta ds) \<and> tg_count g = int (length ds) \<and>
      tg_payloadBytes g = sum_list (map tg_payloadBytes ds) \<and>
      tg_fields g = (\<lambda>k. if k = ''sequence_number'' \<or> k = ''obfuscation'' then tg_fields (last ds) k else tg_fields d k))"

lemma group_of_one: "frame_delta m f = Some d \<Longrightarrow> group_of [d] d"
  using frame_delta_parsed [of m f d] by (simp add: group_of_def same_text_def fun_eq_iff)

lemma group_of_more:
  assumes "group_of ds g" "frame_delta m f = Some d" "compatible g d"
  shows "group_of (ds @ [d]) (merge_group g d)"
proof -
  note d = frame_delta_parsed [OF assms(2)]
  have ne: "ds \<noteq> []" using assms(1) by (simp add: group_of_def Let_def)
  have g: "tg_eventName g = tg_eventName (hd ds)" "tg_itemID g = tg_itemID (hd ds)"
      "tg_outputIndex g = tg_outputIndex (hd ds)" "tg_contentIndex g = tg_contentIndex (hd ds)"
      "tg_hasLogprobs g = (tg_fields (hd ds) ''logprobs'' \<noteq> None)"
      "tg_hasSequence g = (tg_fields (hd ds) ''sequence_number'' \<noteq> None)"
      "tg_hasObfuscation g = (tg_fields (hd ds) ''obfuscation'' \<noteq> None)"
    using assms(1) by (simp_all add: group_of_def Let_def)
  have same: "same_text (hd ds) d"
    using assms(3) d unfolding compatible_def same_text_def g by (simp del: not_None_eq)
  have "same_text (hd ds) (last ds)"
    using assms(1) last_in_set [OF ne] by (simp add: group_of_def Let_def list_all_iff)
  then have none: "tg_fields (hd ds) k = None \<Longrightarrow> tg_fields (last ds) k = None \<and> tg_fields d k = None"
    if "k = ''sequence_number'' \<or> k = ''obfuscation''" for k
    using same that by (auto simp: same_text_def)
  have f: "tg_fields (merge_group g d) =
      (\<lambda>k. if k = ''sequence_number'' \<or> k = ''obfuscation'' then tg_fields d k else tg_fields (hd ds) k)"
    using assms(1) none [of "''sequence_number''"] none [of "''obfuscation''"]
    by (auto simp: merge_group_def group_of_def Let_def fun_eq_iff)
  have "tg_count d = 1" using d by simp
  then show ?thesis
    unfolding group_of_def Let_def f using assms(1) ne same
    by (auto simp: group_of_def Let_def merge_group_def)
qed

lemma text_run_group:
  "text_run m run g \<Longrightarrow> \<exists>ds. list_all2 (\<lambda>f d. frame_delta m f = Some d) run ds \<and> group_of ds g \<and>
     sum_list (map tg_payloadBytes ds) \<le> m"
proof (induction rule: text_run.induct)
  case (one f d)
  with group_of_one frame_delta_parsed show ?case by (intro exI [of _ "[d]"]) auto
next
  case (more fs g f d)
  then obtain ds where ds: "list_all2 (\<lambda>f d. frame_delta m f = Some d) fs ds" "group_of ds g" by blast
  from group_of_more [OF ds(2) more(2,3)] have "group_of (ds @ [d]) (merge_group g d)" .
  moreover have "sum_list (map tg_payloadBytes (ds @ [d])) \<le> m"
    using ds(2) more(4) by (simp add: group_of_def Let_def)
  ultimately show ?case using ds(1) more(2) by (intro exI [of _ "ds @ [d]"]) (simp add: list_all2_appendI)
qed

text \<open>What is written for a group: the frame as it was, or the merged one.\<close>

lemma group_writes_of:
  assumes "group_of ds g"
  shows "concat (group_writes g) = (if length ds = 1 then tg_raw (hd ds) else merged_frame ds)"
proof -
  have "(tg_fields g)(''delta'' \<mapsto> JStr (quote True (tg_delta g))) = merged_fields ds"
    using assms by (auto simp: group_of_def Let_def merged_fields_def fun_eq_iff)
  with assms show ?thesis
    by (simp add: group_writes_def group_data_def merged_frame_def group_of_def Let_def del: quote.simps)
qed

lemma coalesced_run:
  assumes "coalesced m fs out" "text_run m run g"
  shows "coalesced m (fs @ run) (out @ concat (group_writes g))"
proof -
  from text_run_group [OF assms(2)] obtain ds where ds: "list_all2 (\<lambda>f d. frame_delta m f = Some d) run ds"
      "group_of ds g" "sum_list (map tg_payloadBytes ds) \<le> m" by blast
  have l: "list_all (same_text (hd ds)) ds" "ds \<noteq> []" using ds(2) by (simp_all add: group_of_def Let_def)
  show ?thesis
  proof (cases "length ds = 1")
    case True
    then obtain d where d: "ds = [d]" by (auto simp: length_Suc_conv)
    with ds(1) obtain f where f: "run = [f]" "frame_delta m f = Some d" by (auto simp: list_all2_Cons2)
    with frame_delta_parsed [OF f(2)] group_writes_of [OF ds(2)] d coalesced.copied [OF assms(1)] show ?thesis by simp
  next
    case False
    with l(2) have "2 \<le> length ds" by (cases ds; cases "tl ds") auto
    from coalesced.merged [OF assms(1) ds(1) this l(1) ds(3)] group_writes_of [OF ds(2)] False show ?thesis by simp
  qed
qed

text \<open>The state of the coalescer after some frames.\<close>

definition coalesces :: "int \<Rightarrow> downstream \<Rightarrow> bytes list \<Rightarrow> coalescer \<Rightarrow> bool" where
  "coalesces m w0 fs c =
     (\<exists>old run out. coalesced m old out \<and> fs = old @ run \<and> snd c = grow out w0 \<and>
        (case fst c of None \<Rightarrow> run = [] | Some g \<Rightarrow> text_run m run g))"

definition pending_writes :: "coalescer \<Rightarrow> bytes" where
  "pending_writes c = (case fst c of None \<Rightarrow> [] | Some g \<Rightarrow> concat (group_writes g))"

lemma coalesces_written:
  assumes "coalesces m w0 fs c"
  shows "\<exists>out. coalesced m fs (out @ pending_writes c) \<and> snd c = grow out w0"
  using assms by (auto simp: coalesces_def pending_writes_def split: option.splits intro: coalesced_run)

lemma coalesces_barrier:
  assumes "open_c c" "coalesces m w0 fs c"
  shows "coalesces m w0 (fs @ [f]) (fst (coalescer_barrier f c))"
proof -
  from coalesces_written [OF assms(2)] obtain out where
    "coalesced m fs (out @ pending_writes c)" "snd c = grow out w0" by blast
  with coalesced.copied [of m fs "out @ pending_writes c" f] show ?thesis
    unfolding coalesces_def barrier_open [OF assms(1)]
    by (intro exI [of _ "fs @ [f]"] exI [of _ "[]"] exI [of _ "(out @ pending_writes c) @ f"])
      (simp add: pending_writes_def)
qed

lemma coalesces_accept:
  assumes "open_c c" "coalesces m w0 fs c" "frame_delta m f = Some d"
    and "int (length (ev_data ev)) \<le> m" "parseResponsesTextDelta ev = Some d"
  shows "coalesces m w0 (fs @ [f]) (fst (coalescer_accept m ev c))"
proof (cases "fst c")
  case None
  from coalesces_written [OF assms(2)] None obtain out where
    "coalesced m fs out" "snd c = grow out w0" by (auto simp: pending_writes_def)
  with None assms show ?thesis
    by (cases c) (auto simp: coalescer_accept_def coalesces_def intro: text_run.one)
next
  case (Some g)
  show ?thesis
  proof (cases "compatible g d \<and> tg_payloadBytes g + tg_payloadBytes d \<le> m")
    case True
    from assms(2) Some obtain dn run out where
      "coalesced m dn out" "fs = dn @ run" "snd c = grow out w0" "text_run m run g"
      by (auto simp: coalesces_def)
    with True Some assms text_run.more [of m run g f d] show ?thesis
      by (cases c) (auto simp: coalescer_accept_def coalesces_def)
  next
    case False
    from coalesces_written [OF assms(2)] Some obtain out where
      "coalesced m fs (out @ concat (group_writes g))" "snd c = grow out w0" by (auto simp: pending_writes_def)
    with False Some assms flush_open [OF assms(1)] show ?thesis
      by (cases c) (auto simp: coalescer_accept_def coalesces_def intro: text_run.one)
  qed
qed

lemma coalesces_frame:
  assumes "open_c c" "coalesces m w0 fs c"
  shows "coalesces m w0 (fs @ [f]) (replay_frame m f c)"
proof -
  note bar = coalesces_barrier [OF assms, of f]
  show ?thesis
  proof (cases "int (length f) \<le> m \<and> (\<exists>ev. snd (feedChunk (newParser 0) f True) = [ev] \<and>
      length (ev_raw ev) = length f)")
    case False
    with bar show ?thesis
      by (auto simp: replay_frame_def coalescer_acceptFrame_def split: list.splits)
  next
    case True
    then obtain ev where ev: "snd (feedChunk (newParser 0) f True) = [ev]" "length (ev_raw ev) = length f" by blast
    note raw = frame_event [OF ev]
    show ?thesis
    proof (cases "int (length (ev_data ev)) \<le> m \<and> parseResponsesTextDelta ev \<noteq> None")
      case False
      with ev bar raw True show ?thesis
        by (auto simp: replay_frame_def coalescer_acceptFrame_def coalescer_accept_def)
    next
      case delta: True
      then obtain d where d: "parseResponsesTextDelta ev = Some d" by blast
      with delta ev have "frame_delta m f = Some d" by (simp add: frame_delta_def)
      with coalesces_accept [OF assms this _ d] delta ev True show ?thesis
        by (simp add: replay_frame_def coalescer_acceptFrame_def)
    qed
  qed
qed

lemma coalesces_fold:
  "open_c c \<Longrightarrow> coalesces m w0 fs c \<Longrightarrow> coalesces m w0 (fs @ gs) (fold (replay_frame m) gs c)"
proof (induction gs arbitrary: c fs)
  case (Cons f gs)
  from Cons.IH [OF replay_frame_open [OF Cons.prems(1)] coalesces_frame [OF Cons.prems]] show ?case
    by simp
qed simp

lemma fold_open: "open_c c \<Longrightarrow> open_c (fold (replay_frame m) gs c)"
  by (induction gs arbitrary: c) (simp_all add: replay_frame_open)

lemma reader_spec:
  "ds_limit w = None \<Longrightarrow> 0 < m \<Longrightarrow> replayResponsesReader (b, None) w m = (replay_spec m b w, None)"
  using replay_reads_spec [of w m "chunks_of 32768 b"] by (simp add: replayResponsesReader_def concat_chunks_of)

lemma replay_reads_coalesces:
  assumes "ds_limit w = None" "0 < m" "sse_frames b = (fs, tail)"
  shows "\<exists>out. replayResponsesReader (b, None) w m = (grow (out @ tail) w, None) \<and> coalesced m fs out"
proof -
  have o: "open_c (None, w)" using assms(1) by (simp add: open_c_def)
  let ?c = "fold (replay_frame m) fs (None, w)"
  have "coalesces m w [] (None, w)"
    unfolding coalesces_def by (intro exI [of _ "[]"]) (simp add: coalesced.none)
  from coalesces_written [OF coalesces_fold [OF o this, of fs]] obtain out where
      out: "coalesced m fs (out @ pending_writes ?c)" "snd ?c = grow out w" by auto
  have "replayResponsesReader (b, None) w m = (replay_spec m b w, None)" using assms by (intro reader_spec) simp_all
  also have "replay_spec m b w = grow ((out @ pending_writes ?c) @ tail) w"
    using out(2) by (simp add: replay_spec_def assms(3) barrier_open [OF fold_open [OF o]] pending_writes_def)
  finally show ?thesis using out(1) by blast
qed

text \<open>
  C21. The buffered replay never loses, reorders or edits a frame, except that a run of two or
  more adjacent text deltas of the same text (one event name, item, output and content index,
  the same optional fields) within the size budget is written as one frame, whose delta is
  their texts one after the other and whose other fields are those of the run; an
  unterminated rest is copied as it is.
\<close>

theorem replay_coalesces:
  assumes "ds_limit w = None" "0 < m" "sse_frames b = (fs, tail)"
  shows "\<exists>out. replayResponsesReader (b, None) w m = (grow (out @ tail) w, None) \<and> coalesced m fs out"
  using assms by (rule replay_reads_coalesces)

text \<open>Two deltas of one text, and the one frame the client gets for them.\<close>

definition text_frame :: "bytes \<Rightarrow> bytes" where
  "text_frame text =
     ''data: {\"type\":\"response.output_text.delta\",\"item_id\":\"m\",\"output_index\":0,\"content_index\":0,\"delta\":\"''
     @ text @ ''\"}'' @ [LF, LF]"

lemma example_frames: "sse_frames (text_frame ''He'' @ text_frame ''y'') = ([text_frame ''He'', text_frame ''y''], [])"
  by code_simp

lemma example_merge:
  "case frame_delta 500 (ds_body (replay_spec 500 (text_frame ''He'' @ text_frame ''y'') w_new)) of
     None \<Rightarrow> False | Some d \<Rightarrow> tg_delta d = ''Hey''"
  by code_simp

theorem replay_coalesces_witness:
  "\<exists>out d. replayResponsesReader (text_frame ''He'' @ text_frame ''y'', None) w_new 500 = (grow out w_new, None) \<and>
     coalesced 500 [text_frame ''He'', text_frame ''y''] out \<and> frame_delta 500 out = Some d \<and> tg_delta d = ''Hey''"
proof -
  have w: "ds_limit w_new = None" "ds_body w_new = []" by (simp_all add: w_new_def)
  from replay_coalesces [OF w(1) _ example_frames, of 500] obtain out where
      out: "replayResponsesReader (text_frame ''He'' @ text_frame ''y'', None) w_new 500 = (grow out w_new, None)"
        "coalesced 500 [text_frame ''He'', text_frame ''y''] out" by auto
  then have "replay_spec 500 (text_frame ''He'' @ text_frame ''y'') w_new = grow out w_new"
    using reader_spec [OF w(1), of 500 "text_frame ''He'' @ text_frame ''y''"] by simp
  then have "ds_body (replay_spec 500 (text_frame ''He'' @ text_frame ''y'') w_new) = out" by (simp add: w(2))
  with out example_merge show ?thesis by (auto split: option.splits)
qed

end
