(* ===== verification/Responses_Wire.thy ===== *)
theory Responses_Wire
  imports Responses_Errors Responses_Coalesce Engine
begin

text \<open>
  The OpenAI Responses wire (responses.go: \<open>openaiWire\<close>), an instance of the engine's
  interface: how the kind of a frame is read, which frames end a response, what the
  buffered and the live path do with each, and the replay through the coalescer.
\<close>

section \<open>Frames\<close>

definition typed_optional :: "(bytes \<rightharpoonup> json) \<Rightarrow> bool" where
  "typed_optional fs =
     (list_all (\<lambda>k. case fs k of None \<Rightarrow> True | Some v \<Rightarrow> string_or_null v)
        [''item_id'', ''call_id'', ''delta'', ''text''] \<and>
      list_all (\<lambda>k. case fs k of None \<Rightarrow> True | Some v \<Rightarrow> int_or_null v)
        [''summary_index'', ''content_index''])"

definition responsesEventType :: "event \<Rightarrow> bytes" where
  "responsesEventType ev =
     (case decodeResponsesObject (ev_data ev) False of
        None \<Rightarrow> []
      | Some fs \<Rightarrow>
          let typ = responsesString (fs ''type'')
          in if typ = [] then [] else if \<not> typed_optional fs then [] else typ)"

definition isResponsesErrorFrame :: "bytes \<Rightarrow> bool" where
  "isResponsesErrorFrame t = (t = ''error'' \<or> t = ''response.failed'')"

definition isResponsesOutputEvent :: "bytes \<Rightarrow> bool" where
  "isResponsesOutputEvent t =
     (has_prefix t ''response.output_item'' \<or> has_prefix t ''response.content_part'' \<or>
      has_prefix t ''response.output_text'' \<or> has_prefix t ''response.output_audio'' \<or>
      has_prefix t ''response.function_call'' \<or> has_prefix t ''response.custom_tool_call'' \<or>
      has_prefix t ''response.reasoning'' \<or> has_prefix t ''response.refusal'' \<or>
      (has_prefix t ''response.'' \<and> has_suffix t ''.delta''))"

definition parseResponsesError :: "event \<Rightarrow> bytes \<Rightarrow> bytes \<times> bytes \<times> bytes" where
  "parseResponsesError ev t =
     (let fs0 = responsesObject (json_parse (ev_data ev));
          fs = (if t = ''response.failed'' then responsesObject (fs0 ''response'') else fs0);
          errFields = responsesObject (fs ''error'');
          typ = responsesString (errFields ''type'');
          code = responsesString (errFields ''code'');
          msg = responsesString (errFields ''message'')
      in if t \<noteq> ''response.failed''
         then (typ, firstNonEmpty code (responsesString (fs ''code'')),
               firstNonEmpty msg (responsesString (fs ''message'')))
         else (typ, code, msg))"

definition classifyResponsesFrame :: "event \<Rightarrow> bytes \<Rightarrow> failure \<times> bool" where
  "classifyResponsesFrame ev t =
     (case parseResponsesError ev t of (typ, code, msg) \<Rightarrow>
        (classifyResponsesError typ code msg, t = ''response.failed'' \<and> isCodexRecoverableError code))"

definition null_or_absent :: "json option \<Rightarrow> bool" where
  "null_or_absent raw = (raw = None \<or> raw = Some JNull)"

definition responsesCompletedValid :: "event \<Rightarrow> bool" where
  "responsesCompletedValid ev =
     (case decodeResponsesObject (ev_data ev) False of
        None \<Rightarrow> False
      | Some fs \<Rightarrow>
          if \<not> uniqueResponsesJSONValue (fs ''response'') then False
          else
            let response = responsesObject (fs ''response'') in
            if responsesString (response ''id'') = [] then False
            else if null_or_absent (response ''usage'') then True
            else
              let usage = responsesObject (response ''usage'') in
              list_all (\<lambda>k. responsesRequiredInteger (usage k))
                [''input_tokens'', ''output_tokens'', ''total_tokens''] \<and>
              list_all (\<lambda>(object, field).
                  null_or_absent (usage object) \<or>
                  responsesRequiredInteger (responsesObject (usage object) field))
                [(''input_tokens_details'', ''cached_tokens''),
                 (''output_tokens_details'', ''reasoning_tokens'')])"

definition responsesTerminalValid :: "event \<Rightarrow> bytes \<Rightarrow> bool" where
  "responsesTerminalValid ev t =
     (if t = ''response.incomplete'' \<and>
         (let fs = responsesObject (json_parse (ev_data ev));
              response = responsesObject (fs ''response'');
              details = responsesObject (response ''incomplete_details'')
          in responsesString (details ''reason'') \<noteq> ''interrupted'')
      then True else responsesCompletedValid ev)"

definition responsesInvalidCompleted :: failure where
  "responsesInvalidCompleted = failure0\<lparr>f_transient := True, f_status := 502, f_atype := ''api_error'',
     f_code := ''responses_invalid_completed'',
     f_message := ''upstream terminal response snapshot is malformed (needs a response id and complete integer usage)''\<rparr>"

section \<open>Scraping\<close>

text \<open>The anonymous structs \<open>scrape\<close> decodes into, their nested fields side by side.\<close>

record responsesFields =
  rf_model :: bytes
  rf_status :: bytes
  rf_input :: int
  rf_output :: int
  rf_cached :: int
  rf_reason :: bytes

definition responsesFields0 :: responsesFields where
  "responsesFields0 = \<lparr>rf_model = [], rf_status = [], rf_input = 0, rf_output = 0, rf_cached = 0, rf_reason = []\<rparr>"

definition dec_created :: "responsesFields decoder" where
  "dec_created = dec_struct
     [(''response'', dec_struct [(''model'', dec_field rf_model rf_model_update dec_string)])]"

definition dec_terminal :: "responsesFields decoder" where
  "dec_terminal = dec_struct
     [(''response'', dec_struct
        [(''model'', dec_field rf_model rf_model_update dec_string),
         (''status'', dec_field rf_status rf_status_update dec_string),
         (''usage'', dec_struct
            [(''input_tokens'', dec_field rf_input rf_input_update dec_int),
             (''output_tokens'', dec_field rf_output rf_output_update dec_int),
             (''input_tokens_details'', dec_struct
                [(''cached_tokens'', dec_field rf_cached rf_cached_update dec_int)])]),
         (''incomplete_details'', dec_struct
            [(''reason'', dec_field rf_reason rf_reason_update dec_string)])])]"

definition split_input :: "int \<Rightarrow> int \<Rightarrow> int \<times> int" where
  "split_input inp cached =
     (let nonCached = wrap64 (inp - cached) in if nonCached < 0 then (0, inp) else (nonCached, cached))"

definition openai_scrape :: "event \<Rightarrow> captureStats \<Rightarrow> captureStats" where
  "openai_scrape ev st =
     (let typ = responsesEventType ev in
      if typ \<in> {''response.created'', ''response.in_progress''} then
        (case unmarshal dec_created (ev_data ev) responsesFields0 of
           (m, e) \<Rightarrow> if \<not> e \<and> rf_model m \<noteq> [] then st\<lparr>st_model := rf_model m\<rparr> else st)
      else if typ \<in> {''response.completed'', ''response.incomplete'', ''response.failed''} then
        (case unmarshal dec_terminal (ev_data ev) responsesFields0 of
           (m, True) \<Rightarrow> st
         | (m, False) \<Rightarrow>
             let st1 = (if rf_model m \<noteq> [] then st\<lparr>st_model := rf_model m\<rparr> else st);
                 st2 = (if rf_status m \<noteq> [] then st1\<lparr>st_stop := rf_status m\<rparr> else st1);
                 st3 = (if typ = ''response.incomplete''
                        then st2\<lparr>st_stop := ''incomplete'' @
                               (if rf_reason m \<noteq> [] then '':'' @ rf_reason m else [])\<rparr>
                        else st2);
                 st4 = (if 0 < rf_input m
                        then (case split_input (rf_input m) (rf_cached m) of
                                (nonCached, cached) \<Rightarrow> setInputUsage nonCached 0 cached st3)
                        else st3)
             in if 0 < rf_output m then st4\<lparr>st_outTok := rf_output m\<rparr> else st4)
      else st)"

section \<open>The wire\<close>

record openaiWire =
  ow_sawContent :: bool
  ow_replayDeltaBytes :: int

definition newOpenAIWire :: "config \<Rightarrow> openaiWire" where
  "newOpenAIWire cfg = \<lparr>ow_sawContent = False, ow_replayDeltaBytes = responsesReplayBytes cfg\<rparr>"

definition openai_buffered ::
    "openaiWire \<Rightarrow> event \<Rightarrow> captureStats \<Rightarrow> openaiWire \<times> captureStats \<times> bool \<times> failure option" where
  "openai_buffered m ev st =
     (let t = responsesEventType ev in
      if isResponsesErrorFrame t then
        (case classifyResponsesFrame ev t of
           (fail, native) \<Rightarrow> if \<not> native then (m, st, False, Some fail) else (m, st, True, None))
      else if t = ''response.completed'' \<or> t = ''response.incomplete'' then
        (if \<not> responsesTerminalValid ev t then (m, st, False, Some responsesInvalidCompleted)
         else (m, st, True, None))
      else (if isResponsesOutputEvent t then m\<lparr>ow_sawContent := True\<rparr> else m, st, False, None))"

definition openai_live ::
    "openaiWire \<Rightarrow> event \<Rightarrow> bytes \<Rightarrow> captureStats \<Rightarrow>
     openaiWire \<times> captureStats \<times> bytes list \<times> bool \<times> failure option" where
  "openai_live m ev raw st =
     (let t = responsesEventType ev in
      if isResponsesErrorFrame t then
        (case classifyResponsesFrame ev t of
           (fail, native) \<Rightarrow>
             if f_transient fail \<and> \<not> native then (m, st, [], False, Some fail)
             else (m, st, [raw], True, Some (fail\<lparr>f_delivered := True\<rparr>)))
      else if t = ''response.completed'' \<or> t = ''response.incomplete'' then
        (if \<not> responsesTerminalValid ev t then (m, st, [raw], False, Some responsesInvalidCompleted)
         else (m, st, [raw], True, None))
      else (m, st, [raw], False, None))"

definition openai_replay :: "spool_rd \<Rightarrow> openaiWire \<Rightarrow> spool \<Rightarrow> downstream \<Rightarrow> downstream \<times> go_error option" where
  "openai_replay rd m sp w =
     (if ow_replayDeltaBytes m \<le> 0 then replayRaw rd sp w
      else case spool_reader rd sp of
             Inl e \<Rightarrow> (w, Some e)
           | Inr r \<Rightarrow> replayResponsesReader r w (ow_replayDeltaBytes m))"

definition openai_keepalive :: bytes where
  "openai_keepalive = ''event: response.proxy_keepalive'' @ [LF] @
     ''data: {\"type\":\"response.proxy_keepalive\"}'' @ [LF, LF]"

definition openai_wire :: "spool_rd \<Rightarrow> openaiWire wire" where
  "openai_wire rd =
     \<lparr>wm_scrape = openai_scrape,
      wm_buffered = openai_buffered,
      wm_completeOnEOF = (\<lambda>m. False),
      wm_live = openai_live,
      wm_keepalive = openai_keepalive,
      wm_replayBuffered = (\<lambda>m sp w st. openai_replay rd m sp w),
      wm_replayPrefix = (\<lambda>m sp w. case openai_replay rd m sp w of (w', e) \<Rightarrow> (m, w', e)),
      wm_forwardable = ow_sawContent\<rparr>"

section \<open>The replay only adds to the body\<close>

lemma flush_appends: "coalescer_flush c = (c', e) \<Longrightarrow> appends (snd c) (snd c')"
proof (cases c)
  case (Pair p w)
  then show "coalescer_flush c = (c', e) \<Longrightarrow> ?thesis"
    using appends_write_all [of w "group_writes (the p)"]
    by (cases p) (auto simp: coalescer_flush_def split: prod.splits)
qed

lemma barrier_appends: "coalescer_barrier raw c = (c', e) \<Longrightarrow> appends (snd c) (snd c')"
proof -
  assume b: "coalescer_barrier raw c = (c', e)"
  obtain d f where f: "coalescer_flush c = (d, f)" by (metis surj_pair)
  show ?thesis
    using b appends_trans [OF flush_appends [OF f] appends_write [of "snd d" raw]] flush_appends [OF f]
    by (cases d; cases f) (auto simp: coalescer_barrier_def f split: prod.splits)
qed

lemma accept_appends: "coalescer_accept m ev c = (c', e) \<Longrightarrow> appends (snd c) (snd c')"
  by (cases "fst c")
    (auto simp: coalescer_accept_def split: prod.splits option.splits if_splits
      dest!: flush_appends barrier_appends)

lemma acceptFrame_appends: "coalescer_acceptFrame m raw c = (c', e) \<Longrightarrow> appends (snd c) (snd c')"
  by (auto simp: coalescer_acceptFrame_def split: list.splits if_splits dest: barrier_appends accept_appends)

text \<open>The steps of the framing loop, by the connection they hold.\<close>

abbreviation conn :: "replayScan \<Rightarrow> downstream" where
  "conn s \<equiv> snd (rs_c s)"

lemma scan_write_appends: "scan_write p s = (s', e) \<Longrightarrow> appends (conn s) (conn s')"
  using appends_write [of "conn s" p] by (auto simp: scan_write_def split: prod.splits)

lemma scan_flush_appends: "scan_flush s = (s', e) \<Longrightarrow> appends (conn s) (conn s')"
  by (auto simp: scan_flush_def split: prod.splits dest: flush_appends)

lemma appendBytes_appends: "appendBytes m chunk s = (s', e) \<Longrightarrow> appends (conn s) (conn s')"
  unfolding appendBytes_def
  by (auto split: if_splits prod.splits option.splits
      dest!: scan_flush_appends scan_write_appends intro: appends_trans)

lemma finishFrame_appends: "finishFrame m s = (s', e) \<Longrightarrow> appends (conn s) (conn s')"
  by (auto simp: finishFrame_def split: if_splits prod.splits option.splits dest: acceptFrame_appends)

lemma close_frame_appends: "close_frame m seg s = (s', e) \<Longrightarrow> appends (conn s) (conn s')"
  by (auto simp: close_frame_def split: prod.splits option.splits
      dest!: appendBytes_appends finishFrame_appends intro: appends_trans)

lemma scan_switch_appends: "scan_switch m b s = (s', e) \<Longrightarrow> appends (conn s) (conn s')"
  by (auto simp: scan_switch_def split: if_splits dest: close_frame_appends)

lemma scan_byte_appends: "scan_byte m b s = (s', e) \<Longrightarrow> appends (conn s) (conn s')"
  unfolding scan_byte_def Let_def
  by (auto split: if_splits prod.splits option.splits
      dest!: scan_switch_appends close_frame_appends intro: appends_trans)

lemma scan_bytes_appends: "scan_bytes m bs s = (s', e) \<Longrightarrow> appends (conn s) (conn s')"
  by (induction bs arbitrary: s)
    (auto split: prod.splits option.splits dest!: scan_byte_appends intro: appends_trans)

lemma scan_chunk_appends: "scan_chunk m c s = (s', e) \<Longrightarrow> appends (conn s) (conn s')"
  by (fastforce simp: scan_chunk_def split: prod.splits option.splits
      dest!: scan_bytes_appends appendBytes_appends intro: appends_trans)

lemma scan_end_appends: "scan_end m s = (s', e) \<Longrightarrow> appends (conn s) (conn s')"
  unfolding scan_end_def
  by (auto split: if_splits prod.splits option.splits
      dest!: finishFrame_appends scan_flush_appends scan_write_appends intro: appends_trans)

lemma scan_chunks_appends: "scan_chunks m cs s = (s', e) \<Longrightarrow> appends (conn s) (conn s')"
  by (induction cs arbitrary: s)
    (auto split: prod.splits option.splits dest!: scan_chunk_appends intro: appends_trans)

lemma replayResponsesReader_appends: "replayResponsesReader r w m = (w', e) \<Longrightarrow> appends w w'"
  using appends_write [of w "fst r"]
  by (auto simp: replayResponsesReader_def replay_reads_def replayScan0_def split: if_splits prod.splits option.splits
      dest!: scan_chunks_appends scan_end_appends intro: appends_trans)

lemma openai_replay_appends: "openai_replay rd m sp w = (w', e) \<Longrightarrow> appends w w'"
  using appends_replayRaw [of w rd sp]
  by (auto simp: openai_replay_def split: if_splits sum.splits dest: replayResponsesReader_appends)

interpretation oa: wire_laws "openai_wire rd" for rd :: spool_rd
proof
  show "appends w w'" if "wm_replayBuffered (openai_wire rd) m sp w st = (w', e)" for m sp w st w' e
    using that by (auto simp: openai_wire_def dest: openai_replay_appends)
  show "appends w w'" if "wm_replayPrefix (openai_wire rd) m sp w = (m', w', e)" for m sp w m' w' e
    using that by (auto simp: openai_wire_def split: prod.splits dest: openai_replay_appends)
qed

text \<open>
  The contract of the engine on the Responses wire, the coalescing replay included: if
  the capture reports that nothing was written, the client's connection is untouched and
  there is a failure to report; otherwise the client has exactly one status line, 200, the
  stream's headers, and a body that only grew.
\<close>

theorem responses_contract:
  assumes "captureSSECore G (newOpenAIWire cfg) w0 st inputs = Inl (wrote, fail, s)"
    and "g_wire G = openai_wire rd"
  shows "if wrote then sent_ok G w0 (e_w s) else e_w s = w0 \<and> fail \<noteq> None"
  using oa.captureSSECore_ok [OF assms(2), of w0 "newOpenAIWire cfg" st inputs] assms(1)
  by (simp add: step_good_def result_ok_def)

section \<open>A delivered response has ended\<close>

text \<open>The frames that end a response, and those that could but do not.\<close>

definition is_terminal :: "event \<Rightarrow> bool" where
  "is_terminal ev =
     (responsesEventType ev \<in> {''response.completed'', ''response.incomplete'', ''response.failed'', ''error''})"

definition ends_response :: "event \<Rightarrow> bool" where
  "ends_response ev =
     (let t = responsesEventType ev in
      if t = ''response.failed'' then isCodexRecoverableError (fst (snd (parseResponsesError ev t)))
      else t \<in> {''response.completed'', ''response.incomplete''} \<and> responsesTerminalValid ev t)"

lemma buffered_cases:
  assumes "openai_buffered m ev st = (m', st', dn, None)"
  shows "(dn \<longrightarrow> ends_response ev) \<and> (\<not> dn \<longrightarrow> \<not> is_terminal ev) \<and>
    ow_replayDeltaBytes m' = ow_replayDeltaBytes m"
  using assms
  by (auto simp: openai_buffered_def Let_def isResponsesErrorFrame_def classifyResponsesFrame_def
      ends_response_def is_terminal_def split: if_splits prod.splits)

text \<open>What the wire has taken: nothing terminal, then at most one frame that ends the response.\<close>

definition took_response :: "event list \<Rightarrow> bool \<Rightarrow> bool" where
  "took_response evs dn =
     (if dn then \<exists>es ev. evs = es @ [ev] \<and> ends_response ev \<and> (\<forall>e \<in> set es. \<not> is_terminal e)
      else \<forall>e \<in> set evs. \<not> is_terminal e)"

lemma took_is_response:
  "took (openai_wire rd) m evs m' dn \<Longrightarrow>
   took_response evs dn \<and> ow_replayDeltaBytes m' = ow_replayDeltaBytes m"
proof (induction rule: took.induct)
  case (took_event evs m1 ev st m2 st' dn)
  from took_event.hyps(2) have "openai_buffered m1 ev st = (m2, st', dn, None)"
    by (simp add: openai_wire_def)
  from buffered_cases [OF this] took_event.IH show ?case by (auto simp: took_response_def)
qed (simp add: took_response_def)

text \<open>The body of a replay: the bytes as they are, or coalesced.\<close>

definition replayed_as :: "int \<Rightarrow> bytes \<Rightarrow> bytes \<Rightarrow> bool" where
  "replayed_as limit b out =
     (if limit \<le> 0 then out = b
      else \<exists>fs tail out'. sse_frames b = (fs, tail) \<and> coalesced limit fs out' \<and> out = out' @ tail)"

lemma openai_replay_sent:
  assumes "openai_replay rd m sp w = (w', None)" "ds_limit w = None"
  shows "\<exists>out. ds_body w' = ds_body w @ out \<and> replayed_as (ow_replayDeltaBytes m) (spool_contents sp) out"
proof (cases "ow_replayDeltaBytes m \<le> 0")
  case True
  with assms(1) replayRaw_contents [of rd sp w w'] show ?thesis
    by (simp add: openai_replay_def replayed_as_def)
next
  case False
  with assms(1) obtain b e where b: "spool_reader rd sp = Inr (b, e)"
    "replayResponsesReader (b, e) w (ow_replayDeltaBytes m) = (w', None)"
    by (auto simp: openai_replay_def split: sum.splits)
  from b(2) False have e: "e = None"
    by (cases e) (auto simp: replayResponsesReader_def replay_reads_def split: prod.splits option.splits)
  with b(1) have c: "b = spool_contents sp"
    by (auto simp: spool_reader_def spool_contents_def split: if_splits option.splits)
  obtain fs tail where f: "sse_frames b = (fs, tail)" by force
  have pos: "0 < ow_replayDeltaBytes m" using False by simp
  obtain out where out: "replayResponsesReader (b, None) w (ow_replayDeltaBytes m) = (grow (out @ tail) w, None)"
    "coalesced (ow_replayDeltaBytes m) fs out"
    using replay_reads_coalesces [OF assms(2) pos f] by blast
  with b(2) e have "w' = grow (out @ tail) w" by simp
  with out(2) f c False show ?thesis
    unfolding replayed_as_def by (intro exI [of _ "out @ tail"]) auto
qed

text \<open>
  C14. Everything the proxy delivers as a buffered success on the Responses route ended
  properly: up to its last frame no frame is a completion or an error, and the last one is
  a terminal snapshot the client will parse, or the one error the client recovers from by
  itself. What the client receives is the bytes of exactly these frames, in order, with
  only runs of compatible text deltas merged (and as they are when merging is off).
\<close>

theorem responses_success_ends:
  assumes "captureSSECore G (newOpenAIWire cfg) w0 st inputs = Inl (True, None, s)"
    and "\<not> e_committed s" "g_wire G = openai_wire rd" "valid_config (g_cfg G)" "ds_limit w0 = None"
  shows "\<exists>es ev n. take n (input_events (newParser (max (maxResponseBytes (g_cfg G)) 1)) inputs) = es @ [ev] \<and>
    (\<forall>e \<in> set es. \<not> is_terminal e) \<and> ends_response ev \<and>
    (\<exists>out. ds_body (e_w s) = ds_body w0 @ out \<and>
       replayed_as (responsesReplayBytes cfg) (raw_bytes (es @ [ev])) out)"
proof -
  let ?evs = "input_events (newParser (max (maxResponseBytes (g_cfg G)) 1)) inputs"
  obtain n m' sp st' w1 where t: "took (openai_wire rd) (newOpenAIWire cfg) (take n ?evs) m' True"
    and r: "spool_contents sp = raw_bytes (take n ?evs)" "ds_body w1 = ds_body w0" "ds_limit w1 = ds_limit w0"
      "openai_replay rd m' sp w1 = (e_w s, None)"
    using buffered_success_checked [OF assms(1,2)] assms(3,4) by (auto simp: sent_run_def openai_wire_def)
  from took_is_response [OF t] obtain es ev where es: "take n ?evs = es @ [ev]" "ends_response ev"
    "\<forall>e \<in> set es. \<not> is_terminal e" and m: "ow_replayDeltaBytes m' = responsesReplayBytes cfg"
    by (auto simp: took_response_def newOpenAIWire_def)
  from openai_replay_sent [OF r(4)] r(1-3) assms(5) m es(1) obtain out where
    "ds_body (e_w s) = ds_body w0 @ out" "replayed_as (responsesReplayBytes cfg) (raw_bytes (es @ [ev])) out"
    by auto
  with es show ?thesis by blast
qed

text \<open>
  C33. The live path judges every frame as the buffered path does. A frame the buffering
  path takes is forwarded and ends the live stream exactly when it ends the response; a
  fault that may clear on a retry is never shown to a live client; a final one is
  forwarded as it came, marked as delivered, and ends the stream; a malformed terminal
  fails on both paths.
\<close>

theorem responses_live_agrees:
  assumes "openai_buffered m ev st = (m1, st1, dn1, f1)" "openai_live m ev (ev_raw ev) st = (m2, st2, out, dn2, f2)"
  shows "case f1 of
      None \<Rightarrow> out = [ev_raw ev] \<and> dn2 = dn1 \<and> (f2 = None \<or> responsesEventType ev = ''response.failed'' \<and> dn1)
    | Some f \<Rightarrow> \<not> dn1 \<and>
        (if f = responsesInvalidCompleted \<and> \<not> isResponsesErrorFrame (responsesEventType ev)
         then out = [ev_raw ev] \<and> \<not> dn2 \<and> f2 = Some f
         else if f_transient f then out = [] \<and> \<not> dn2 \<and> f2 = Some f
         else out = [ev_raw ev] \<and> dn2 \<and> f2 = Some (f\<lparr>f_delivered := True\<rparr>))"
  using assms
  by (auto simp: openai_buffered_def openai_live_def Let_def isResponsesErrorFrame_def classifyResponsesFrame_def
      split: if_splits prod.splits)

section \<open>Examples\<close>

definition example_completed :: event where
  "example_completed = (let d = ''{\"type\":\"response.completed\",\"response\":{\"id\":\"r\"}}''
     in \<lparr>ev_name = [], ev_data = d, ev_raw = ''data: '' @ d @ [LF, LF]\<rparr>)"

definition example_responses :: "input list" where
  "example_responses = [Read (ev_raw example_completed) None CtxOk]"

theorem responses_live_agrees_witness:
  "openai_live (newOpenAIWire example_config) example_completed (ev_raw example_completed) stats0 =
     (newOpenAIWire example_config, stats0, [ev_raw example_completed], True, None)"
proof -
  let ?m = "newOpenAIWire example_config"
  have t: "responsesEventType example_completed = ''response.completed''" by code_simp
  have v: "responsesTerminalValid example_completed ''response.completed''" by code_simp
  have b: "openai_buffered ?m example_completed stats0 = (?m, stats0, True, None)"
    by (simp add: openai_buffered_def t v isResponsesErrorFrame_def)
  obtain m2 st2 out dn2 f2 where
    l: "openai_live ?m example_completed (ev_raw example_completed) stats0 = (m2, st2, out, dn2, f2)"
    by (metis prod_cases5)
  from responses_live_agrees [OF b l] l t show ?thesis
    by (simp add: openai_live_def v isResponsesErrorFrame_def)
qed

definition raw_config :: config where
  "raw_config = example_config\<lparr>responsesReplayBytes := 0\<rparr>"

lemma example_responses_run:
  "case captureSSECore (example_capture (openai_wire rd_fine)) (newOpenAIWire raw_config) w_new stats0
     example_responses of
     Inl (True, None, s) \<Rightarrow> \<not> e_committed s \<and> length (ds_body (e_w s)) = 59
   | _ \<Rightarrow> False"
  by code_simp

lemma example_responses_result:
  obtains s where "captureSSECore (example_capture (openai_wire rd_fine)) (newOpenAIWire raw_config)
      w_new stats0 example_responses = Inl (True, None, s)" "\<not> e_committed s"
  using example_responses_run by (auto split: sum.splits prod.splits option.splits bool.splits)

theorem responses_success_ends_witness:
  "\<exists>es ev n. take n (input_events (newParser 4000) example_responses) = es @ [ev] \<and> ends_response ev"
proof -
  obtain s where s: "captureSSECore (example_capture (openai_wire rd_fine)) (newOpenAIWire raw_config)
      w_new stats0 example_responses = Inl (True, None, s)" "\<not> e_committed s"
    by (rule example_responses_result)
  have "g_wire (example_capture (openai_wire rd_fine)) = openai_wire rd_fine"
    "valid_config (g_cfg (example_capture (openai_wire rd_fine)))" "ds_limit w_new = None"
    using example_config_valid by (simp_all add: example_capture_def w_new_def)
  from responses_success_ends [OF s this] show ?thesis
    by (auto simp: example_capture_def example_config_def)
qed

theorem responses_contract_witness:
  "case captureSSECore (example_capture (openai_wire rd_fine)) (newOpenAIWire raw_config)
      w_new stats0 example_responses of
     Inl (wrote, fail, s) \<Rightarrow> wrote \<and> sent_ok (example_capture (openai_wire rd_fine)) w_new (e_w s)
   | Inr s \<Rightarrow> False"
proof -
  obtain s where s: "captureSSECore (example_capture (openai_wire rd_fine)) (newOpenAIWire raw_config)
      w_new stats0 example_responses = Inl (True, None, s)"
    by (rule example_responses_result)
  have "g_wire (example_capture (openai_wire rd_fine)) = openai_wire rd_fine"
    by (simp add: example_capture_def)
  from responses_contract [OF s this] s show ?thesis by simp
qed

end
