(* ===== verification/Gemini_Json.thy ===== *)
theory Gemini_Json
  imports Responses_Json Replay Complex_Main
begin

text \<open>
  The JSON reading of the Gemini route (gemini.go): \<open>geminiObject\<close>, which walks an object
  in wire order with exact, alternate names; \<open>geminiInt32\<close>, the ProtoJSON integer; the
  decoders of the request settings and of the response chunks. A decoder returns \<open>None\<close>
  for an error: every caller gives up the whole message then.
\<close>

section \<open>Walking an object\<close>

fun walk :: "(bytes \<Rightarrow> json \<Rightarrow> 'a \<Rightarrow> 'a option) \<Rightarrow> (bytes \<times> json) list \<Rightarrow> 'a \<Rightarrow> 'a option" where
  "walk field [] a = Some a"
| "walk field ((k, v) # ms) a = (case field k v a of None \<Rightarrow> None | Some a' \<Rightarrow> walk field ms a')"

text \<open>\<open>geminiObject\<close> on a value (a raw message is valid JSON) and on unchecked bytes.\<close>

definition geminiObject :: "(bytes \<Rightarrow> json \<Rightarrow> 'a \<Rightarrow> 'a option) \<Rightarrow> json \<Rightarrow> 'a \<Rightarrow> 'a option" where
  "geminiObject field v a =
     (case v of
        JNull \<Rightarrow> Some a
      | JObj ms \<Rightarrow> walk field (map (apfst unquote) ms) a
      | _ \<Rightarrow> None)"

definition geminiObject_bytes :: "(bytes \<Rightarrow> json \<Rightarrow> 'a \<Rightarrow> 'a option) \<Rightarrow> bytes \<Rightarrow> 'a \<Rightarrow> 'a option" where
  "geminiObject_bytes field data a =
     (if trim_space data = ''null'' then Some a
      else case object_tokens data of None \<Rightarrow> None | Some ms \<Rightarrow> walk field ms a)"

section \<open>Integers\<close>

text \<open>
  The pass over the digits of the mantissa: the positions of the first and the last
  nonzero digit (\<open>-1\<close> when there is none), the number of digits and of fraction digits.
\<close>

fun int32_scan :: "bytes \<Rightarrow> bool \<Rightarrow> int \<Rightarrow> int \<Rightarrow> int \<Rightarrow> int \<Rightarrow> int \<times> int \<times> int \<times> int" where
  "int32_scan [] afterDot first final digits fraction = (first, final, digits, fraction)"
| "int32_scan (c # s) afterDot first final digits fraction =
     (if c = CHR ''.'' then int32_scan s True first final digits fraction
      else int32_scan s afterDot
             (if c \<noteq> CHR ''0'' \<and> first < 0 then digits else first)
             (if c \<noteq> CHR ''0'' then digits else final)
             (digits + 1) (if afterDot then fraction + 1 else fraction))"

text \<open>The pass that computes the value of the digits from \<open>first\<close> to the last nonzero one.\<close>

fun int32_value :: "bytes \<Rightarrow> int \<Rightarrow> int \<Rightarrow> int \<Rightarrow> int \<Rightarrow> int" where
  "int32_value [] first final position v = v"
| "int32_value (c # s) first final position v =
     (if c = CHR ''.'' then int32_value s first final position v
      else int32_value s first final (position + 1)
             (if first \<le> position \<and> position \<le> final then v * 10 + digit_val c else v))"

text \<open>\<open>strconv.ParseInt (s, 10, 32)\<close>.\<close>

definition parse_int32 :: "bytes \<Rightarrow> int option" where
  "parse_int32 s =
     (case parse_int64 s of
        Inl n \<Rightarrow> None
      | Inr n \<Rightarrow> if -2147483648 \<le> n \<and> n \<le> 2147483647 then Some n else None)"

definition exp_char :: "char \<Rightarrow> bool" where
  "exp_char c = (c = CHR ''e'' \<or> c = CHR ''E'')"

text \<open>The text of a \<open>json.Number\<close>.\<close>

definition int32_of_number :: "bytes \<Rightarrow> int option" where
  "int32_of_number text0 =
     (let negative = has_prefix text0 ''-'';
          text = (if negative then tl text0 else text0);
          mantissa = takeWhile (\<lambda>c. \<not> exp_char c) text;
          exponentText = (if mantissa = text then ''0'' else drop (length mantissa + 1) text)
      in case int32_scan mantissa False (-1) (-1) 0 0 of
           (first, final, digits, fraction) \<Rightarrow>
             if first < 0 then Some 0
             else (case parse_int32 exponentText of
                     None \<Rightarrow> None
                   | Some exponent \<Rightarrow>
                       let scale = exponent - fraction + (digits - final - 1) in
                       if scale < 0 \<or> 10 < final - first + 1 + scale then None
                       else let v = int32_value mantissa first final 0 0 * 10 ^ nat scale;
                                n = (if negative then - v else v)
                            in if n < -2147483648 \<or> 2147483647 < n then None else Some n))"

definition geminiInt32 :: "json \<Rightarrow> int option" where
  "geminiInt32 v =
     (case v of
        JNull \<Rightarrow> Some 0
      | JNum t \<Rightarrow> int32_of_number t
      | JStr b \<Rightarrow> if num_ok (unquote b) then int32_of_number (unquote b) else None
      | _ \<Rightarrow> None)"

section \<open>Decoders\<close>

text \<open>\<open>json.Unmarshal\<close> into a fresh string, pointer or slice.\<close>

definition gdec_string :: "json \<Rightarrow> bytes option" where
  "gdec_string v = (case v of JStr b \<Rightarrow> Some (unquote b) | JNull \<Rightarrow> Some [] | _ \<Rightarrow> None)"

definition gdec_ptr :: "(json \<Rightarrow> 'a option) \<Rightarrow> json \<Rightarrow> 'a option option" where
  "gdec_ptr d v = (if v = JNull then Some None else map_option Some (d v))"

definition gdec_list :: "(json \<Rightarrow> 'a option) \<Rightarrow> json \<Rightarrow> 'a list option" where
  "gdec_list d v = (case v of JArr vs \<Rightarrow> all_some (map d vs) | JNull \<Rightarrow> Some [] | _ \<Rightarrow> None)"

section \<open>Request settings\<close>

record geminiRequestSettings =
  gs_candidateCount :: int
  gs_thinkingLevel :: bytes

definition geminiSettings0 :: geminiRequestSettings where
  "geminiSettings0 = \<lparr>gs_candidateCount = 1, gs_thinkingLevel = []\<rparr>"

definition geminiThinkingLevel :: "json \<Rightarrow> bytes" where
  "geminiThinkingLevel v =
     (let level = to_lower (trim_space (case v of JStr b \<Rightarrow> unquote b | _ \<Rightarrow> []))
      in if level \<in> {''minimal'', ''low'', ''medium'', ''high''} then level else [])"

definition geminiThinkingConfig :: "json \<Rightarrow> bytes option" where
  "geminiThinkingConfig v =
     geminiObject (\<lambda>name value level.
       if name = ''thinkingLevel'' \<or> name = ''thinking_level''
       then Some (geminiThinkingLevel value) else Some level) v []"

definition geminiRequestConfig :: "json \<Rightarrow> geminiRequestSettings option" where
  "geminiRequestConfig v =
     geminiObject (\<lambda>name value s.
       if name = ''candidateCount'' \<or> name = ''candidate_count'' then
         map_option (\<lambda>n. s\<lparr>gs_candidateCount := n\<rparr>) (geminiInt32 value)
       else if name = ''thinkingConfig'' \<or> name = ''thinking_config'' then
         map_option (\<lambda>l. s\<lparr>gs_thinkingLevel := l\<rparr>) (geminiThinkingConfig value)
       else Some s) v geminiSettings0"

definition geminiSettingsOf :: "bytes \<Rightarrow> geminiRequestSettings" where
  "geminiSettingsOf body =
     (case geminiObject_bytes (\<lambda>name value s.
         if name = ''generationConfig'' \<or> name = ''generation_config''
         then geminiRequestConfig value else Some s) body geminiSettings0 of
        None \<Rightarrow> geminiSettings0
      | Some s \<Rightarrow> if gs_candidateCount s < 1 then s\<lparr>gs_candidateCount := 1\<rparr> else s)"

section \<open>Response chunks\<close>

definition geminiFinishReasons :: "bytes list" where
  "geminiFinishReasons =
     [''FINISH_REASON_UNSPECIFIED'', ''STOP'', ''MAX_TOKENS'', ''SAFETY'', ''RECITATION'', ''OTHER'']"

definition geminiBlockReasons :: "bytes list" where
  "geminiBlockReasons =
     [''BLOCK_REASON_UNSPECIFIED'', ''SAFETY'', ''OTHER'', ''BLOCKLIST'', ''PROHIBITED_CONTENT'']"

definition geminiEnum :: "bytes list \<Rightarrow> json \<Rightarrow> bytes option" where
  "geminiEnum names v =
     (case v of
        JStr b \<Rightarrow> Some (unquote b)
      | _ \<Rightarrow> map_option (\<lambda>n. if 0 \<le> n \<and> n < int (length names) then names ! nat n else itoa n)
               (geminiInt32 v))"

text \<open>A part: only its shape is checked. Content: the number of its parts.\<close>

definition geminiPart :: "json \<Rightarrow> unit option" where
  "geminiPart v = (case v of JObj ms \<Rightarrow> Some () | _ \<Rightarrow> None)"

definition geminiContent :: "json \<Rightarrow> unit list option" where
  "geminiContent v =
     geminiObject (\<lambda>name value parts. if name = ''parts'' then gdec_list geminiPart value else Some parts) v []"

record geminiCandidate =
  gc_index :: int
  gc_finishReason :: bytes
  gc_content :: "unit list option"

definition geminiCandidate_of :: "json \<Rightarrow> geminiCandidate option" where
  "geminiCandidate_of v =
     geminiObject (\<lambda>name value c.
       if name = ''index'' then map_option (\<lambda>n. c\<lparr>gc_index := n\<rparr>) (geminiInt32 value)
       else if name = ''finishReason'' \<or> name = ''finish_reason'' then
         map_option (\<lambda>r. c\<lparr>gc_finishReason := r\<rparr>) (geminiEnum geminiFinishReasons value)
       else if name = ''content'' then
         map_option (\<lambda>x. c\<lparr>gc_content := x\<rparr>) (gdec_ptr geminiContent value)
       else Some c) v \<lparr>gc_index = 0, gc_finishReason = [], gc_content = None\<rparr>"

definition geminiPromptFeedback :: "json \<Rightarrow> bytes option" where
  "geminiPromptFeedback v =
     geminiObject (\<lambda>name value r.
       if name = ''blockReason'' \<or> name = ''block_reason'' then geminiEnum geminiBlockReasons value
       else Some r) v []"

record geminiUsage =
  gu_prompt :: int
  gu_cached :: int
  gu_candidates :: "int option"
  gu_thoughts :: "int option"

definition geminiUsage_of :: "json \<Rightarrow> geminiUsage option" where
  "geminiUsage_of v =
     geminiObject (\<lambda>name value u.
       if name \<in> {''promptTokenCount'', ''prompt_token_count'', ''cachedContentTokenCount'',
           ''cached_content_token_count'', ''candidatesTokenCount'', ''candidates_token_count'',
           ''thoughtsTokenCount'', ''thoughts_token_count''} then
         (case geminiInt32 value of
            None \<Rightarrow> None
          | Some n \<Rightarrow>
              let count = (if value \<noteq> JNull then Some n else None) in
              Some (if name \<in> {''promptTokenCount'', ''prompt_token_count''} then u\<lparr>gu_prompt := n\<rparr>
                    else if name \<in> {''cachedContentTokenCount'', ''cached_content_token_count''}
                    then u\<lparr>gu_cached := n\<rparr>
                    else if name \<in> {''candidatesTokenCount'', ''candidates_token_count''}
                    then u\<lparr>gu_candidates := count\<rparr>
                    else u\<lparr>gu_thoughts := count\<rparr>))
       else Some u) v \<lparr>gu_prompt = 0, gu_cached = 0, gu_candidates = None, gu_thoughts = None\<rparr>"

record geminiChunk =
  gk_candidates :: "geminiCandidate option list"
  gk_promptFeedback :: "bytes option"
  gk_usage :: "geminiUsage option"
  gk_modelVersion :: bytes
  gk_error :: "json option"

definition geminiChunk0 :: geminiChunk where
  "geminiChunk0 = \<lparr>gk_candidates = [], gk_promptFeedback = None, gk_usage = None,
     gk_modelVersion = [], gk_error = None\<rparr>"

definition geminiChunk_of :: "json \<Rightarrow> geminiChunk option" where
  "geminiChunk_of v =
     geminiObject (\<lambda>name value c.
       if name = ''candidates'' then
         map_option (\<lambda>x. c\<lparr>gk_candidates := x\<rparr>) (gdec_list (gdec_ptr geminiCandidate_of) value)
       else if name = ''promptFeedback'' \<or> name = ''prompt_feedback'' then
         map_option (\<lambda>x. c\<lparr>gk_promptFeedback := x\<rparr>) (gdec_ptr geminiPromptFeedback value)
       else if name = ''usageMetadata'' \<or> name = ''usage_metadata'' then
         map_option (\<lambda>x. c\<lparr>gk_usage := x\<rparr>) (gdec_ptr geminiUsage_of value)
       else if name = ''modelVersion'' \<or> name = ''model_version'' then
         map_option (\<lambda>x. c\<lparr>gk_modelVersion := x\<rparr>) (gdec_string value)
       else if name = ''error'' then Some (c\<lparr>gk_error := Some value\<rparr>)
       else Some c) v geminiChunk0"

end
