(* ===== verification/Gemini_Errors.thy ===== *)
theory Gemini_Errors
  imports Gemini_Json Responses_Errors
begin

text \<open>
  The Google error envelope (gemini_errors.go): reading it, its verdicts over HTTP and in
  the stream, the retry delays it advertises, and the two status tables.
\<close>

section \<open>The envelope\<close>

record geminiErrorDetail =
  gd_type :: bytes
  gd_retryDelay :: "json option"
  gd_violations :: "json option"

record geminiAPIError =
  ge_code :: int
  ge_status :: bytes
  ge_message :: bytes
  ge_details :: "geminiErrorDetail list"
  ge_fallbackType :: bytes

definition geminiAPIError0 :: geminiAPIError where
  "geminiAPIError0 = \<lparr>ge_code = 0, ge_status = [], ge_message = [], ge_details = [], ge_fallbackType = []\<rparr>"

definition geminiErrorDetail_of :: "json \<Rightarrow> geminiErrorDetail option" where
  "geminiErrorDetail_of v =
     geminiObject (\<lambda>name value d.
       if name = ''@type'' then map_option (\<lambda>t. d\<lparr>gd_type := t\<rparr>) (gdec_string value)
       else if name = ''retryDelay'' \<or> name = ''retry_delay'' then Some (d\<lparr>gd_retryDelay := Some value\<rparr>)
       else if name = ''violations'' then Some (d\<lparr>gd_violations := Some value\<rparr>)
       else Some d) v \<lparr>gd_type = [], gd_retryDelay = None, gd_violations = None\<rparr>"

definition geminiAPIError_of :: "json \<Rightarrow> geminiAPIError option" where
  "geminiAPIError_of v =
     geminiObject (\<lambda>name value e.
       if name = ''code'' then map_option (\<lambda>n. e\<lparr>ge_code := n\<rparr>) (geminiInt32 value)
       else if name = ''status'' then map_option (\<lambda>x. e\<lparr>ge_status := x\<rparr>) (gdec_string value)
       else if name = ''message'' then map_option (\<lambda>x. e\<lparr>ge_message := x\<rparr>) (gdec_string value)
       else if name = ''type'' then Some (e\<lparr>ge_fallbackType := responsesString (Some value)\<rparr>)
       else if name = ''details'' then
         map_option (\<lambda>x. e\<lparr>ge_details := x\<rparr>) (gdec_list geminiErrorDetail_of value)
       else Some e) v geminiAPIError0"

text \<open>\<open>struct { Error geminiAPIError }\<close>: a null member is passed to the decoder too.\<close>

definition dec_envelope :: "geminiAPIError decoder" where
  "dec_envelope = dec_struct
     [(''error'', \<lambda>v (e, err). case geminiAPIError_of v of None \<Rightarrow> (e, True) | Some e' \<Rightarrow> (e', err))]"

section \<open>Verdicts\<close>

definition geminiHTTPStatus :: "bytes \<Rightarrow> int" where
  "geminiHTTPStatus s =
     (if s \<in> {''INVALID_ARGUMENT'', ''FAILED_PRECONDITION'', ''OUT_OF_RANGE''} then 400
      else if s = ''UNAUTHENTICATED'' then 401
      else if s = ''PERMISSION_DENIED'' then 403
      else if s = ''NOT_FOUND'' then 404
      else if s \<in> {''ALREADY_EXISTS'', ''ABORTED''} then 409
      else if s = ''RESOURCE_EXHAUSTED'' then 429
      else if s = ''CANCELLED'' then 499
      else if s \<in> {''UNKNOWN'', ''INTERNAL'', ''DATA_LOSS''} then 500
      else if s = ''UNIMPLEMENTED'' then 501
      else if s = ''UNAVAILABLE'' then 503
      else if s = ''DEADLINE_EXCEEDED'' then 504
      else 0)"

definition geminiStatusForHTTP :: "int \<Rightarrow> bytes" where
  "geminiStatusForHTTP st =
     (if st \<in> {400, 413, 422} then ''INVALID_ARGUMENT''
      else if st = 401 then ''UNAUTHENTICATED''
      else if st = 403 then ''PERMISSION_DENIED''
      else if st = 404 then ''NOT_FOUND''
      else if st \<in> {408, 504} then ''DEADLINE_EXCEEDED''
      else if st = 409 then ''ABORTED''
      else if st = 412 then ''FAILED_PRECONDITION''
      else if st = 416 then ''OUT_OF_RANGE''
      else if st = 429 then ''RESOURCE_EXHAUSTED''
      else if st = 499 then ''CANCELLED''
      else if st = 500 then ''INTERNAL''
      else if st = 501 then ''UNIMPLEMENTED''
      else if st = 503 then ''UNAVAILABLE''
      else ''UNKNOWN'')"

definition quotaID :: "json \<Rightarrow> bytes option" where
  "quotaID v =
     geminiObject (\<lambda>name value q.
       if name = ''quotaId'' \<or> name = ''quota_id'' then gdec_string value else Some q) v []"

definition geminiDailyQuotaExhausted :: "geminiAPIError \<Rightarrow> bool" where
  "geminiDailyQuotaExhausted e =
     list_ex (\<lambda>d. gd_type d = ''type.googleapis.com/google.rpc.QuotaFailure'' \<and>
         (case gd_violations d of
            Some (JArr vs) \<Rightarrow>
              list_ex (\<lambda>v. case quotaID v of None \<Rightarrow> False | Some q \<Rightarrow> contains q ''PerDay'') vs
          | _ \<Rightarrow> False)) (ge_details e)"

definition geminiErrorVerdict :: "bytes \<Rightarrow> geminiAPIError \<Rightarrow> errorVerdict" where
  "geminiErrorVerdict s e =
     (if s \<in> {''UNAVAILABLE'', ''DEADLINE_EXCEEDED'', ''INTERNAL'', ''UNKNOWN'', ''ABORTED''}
      then verdictTransient
      else if s = ''RESOURCE_EXHAUSTED''
      then (if geminiDailyQuotaExhausted e then verdictPermanent else verdictTransient)
      else if s \<in> {''INVALID_ARGUMENT'', ''FAILED_PRECONDITION'', ''OUT_OF_RANGE'', ''UNAUTHENTICATED'',
          ''PERMISSION_DENIED'', ''NOT_FOUND'', ''ALREADY_EXISTS'', ''UNIMPLEMENTED''}
      then verdictPermanent
      else if anyContains (to_lower (ge_message e)) requestShapeSigs then verdictPermanent
      else verdictUnknown)"

definition geminiRetryDelaySeconds :: "bytes \<Rightarrow> int" where
  "geminiRetryDelaySeconds value =
     (if \<not> has_suffix value ''s'' \<or> length value = 1 then 0
      else
        let text = butlast value;
            (whole, fraction, fractional) =
              (case str_cut text ''.'' of None \<Rightarrow> (text, [], False) | Some (a, b) \<Rightarrow> (a, b, True))
        in if whole = [] \<or> (fractional \<and> (fraction = [] \<or> 9 < length fraction)) then 0
           else if \<not> list_all is_digit whole \<or> \<not> list_all is_digit fraction then 0
           else (case parse_int64 whole of
                   Inl n \<Rightarrow> 0
                 | Inr seconds \<Rightarrow>
                     if 315576000000 < seconds then 0
                     else if list_ex (\<lambda>c. c \<noteq> CHR ''0'') fraction then seconds + 1 else seconds))"

text \<open>The longest delay of the \<open>RetryInfo\<close> details, at least \<open>d\<close>.\<close>

fun detail_delays :: "geminiErrorDetail list \<Rightarrow> int \<Rightarrow> int" where
  "detail_delays [] d = d"
| "detail_delays (x # xs) d =
     detail_delays xs
       (if gd_type x \<noteq> ''type.googleapis.com/google.rpc.RetryInfo'' then d
        else case gd_retryDelay x of
               None \<Rightarrow> d
             | Some v \<Rightarrow> (case gdec_string v of None \<Rightarrow> d | Some t \<Rightarrow> max d (geminiRetryDelaySeconds t)))"

definition classifyGeminiErrorBytes :: "env \<Rightarrow> int \<Rightarrow> header \<Rightarrow> bytes \<Rightarrow> geminiAPIError \<Rightarrow> failure" where
  "classifyGeminiErrorBytes E st h b e =
     (let nativeStatus = to_upper (trim_space (ge_status e));
          f0 = classifyHTTPErrorBytesShaped E st h b (\<lambda>_ _ _ _.
                 if nativeStatus = [] then anthropicErrorVerdict (ge_fallbackType e) [] (ge_message e) []
                 else geminiErrorVerdict nativeStatus e);
          f1 = f0\<lparr>f_message := ge_message e\<rparr>;
          f2 = (if nativeStatus \<noteq> [] then f1\<lparr>f_atype := nativeStatus\<rparr>
                else if \<not> f_transient f1 then f1\<lparr>f_atype := geminiStatusForHTTP (f_status f1)\<rparr>
                else f1)
      in if f_transient f2 \<and> f_retryAfter f2 = 0 then
           (let ra = retryAfterSeconds E (header_get h ''Retry-After'')
            in f2\<lparr>f_retryAfter := (if ra = 0 then detail_delays (ge_details e) 0 else ra)\<rparr>)
         else f2)"

text \<open>The body is one envelope, or an array whose first element is.\<close>

definition gemini_envelope :: "bytes \<Rightarrow> geminiAPIError \<times> bool" where
  "gemini_envelope b =
     (let data = trim_space b in
      if data \<noteq> [] \<and> hd data = CHR ''['' then
        (case json_parse data of
           Some (JArr (v # vs)) \<Rightarrow> dec_envelope v (geminiAPIError0, False)
         | Some (JArr []) \<Rightarrow> (geminiAPIError0, False)
         | _ \<Rightarrow> (geminiAPIError0, True))
      else unmarshal dec_envelope data geminiAPIError0)"

definition classifyGeminiHTTPErrorBytes :: "env \<Rightarrow> int \<Rightarrow> header \<Rightarrow> bytes \<Rightarrow> failure" where
  "classifyGeminiHTTPErrorBytes E st h b =
     (case gemini_envelope b of
        (e, True) \<Rightarrow> classifyHTTPErrorBytes E st h b
      | (e, False) \<Rightarrow> classifyGeminiErrorBytes E st h b e)"

definition classifyGeminiSSEError :: "env \<Rightarrow> bytes \<Rightarrow> failure" where
  "classifyGeminiSSEError E data =
     (case unmarshal dec_envelope data geminiAPIError0 of
        (e, True) \<Rightarrow> failure0\<lparr>f_transient := True, f_status := 502, f_atype := ''api_error'',
             f_code := ''gemini_sse_error'', f_message := ''invalid Gemini error envelope''\<rparr>
      | (e, False) \<Rightarrow>
          let upstreamStatus = (if ge_code e < 400 \<or> 599 < ge_code e
                then geminiHTTPStatus (to_upper (trim_space (ge_status e))) else ge_code e);
              st = (if upstreamStatus = 0 then 502 else upstreamStatus);
              f = classifyGeminiErrorBytes E st Map.empty data e
          in f\<lparr>f_origStatus := upstreamStatus, f_code := ''gemini_sse_'' @ f_code f\<rparr>)"

section \<open>What the verdicts decide\<close>

text \<open>The statuses whose verdict Google's canonical codes give, whatever the HTTP status.\<close>

definition gemini_final :: "bytes set" where
  "gemini_final = {''INVALID_ARGUMENT'', ''FAILED_PRECONDITION'', ''OUT_OF_RANGE'', ''UNAUTHENTICATED'',
     ''PERMISSION_DENIED'', ''NOT_FOUND'', ''ALREADY_EXISTS'', ''UNIMPLEMENTED''}"

definition gemini_temporary :: "bytes set" where
  "gemini_temporary = {''UNAVAILABLE'', ''DEADLINE_EXCEEDED'', ''INTERNAL'', ''UNKNOWN'', ''ABORTED''}"

lemma gemini_transient:
  "f_transient (classifyGeminiErrorBytes E st h b e) =
     retry_policy st (map_option snd (httpRetryHint h))
       (let s = to_upper (trim_space (ge_status e)) in
        if s = [] then anthropicErrorVerdict (ge_fallbackType e) [] (ge_message e) []
        else geminiErrorVerdict s e)"
  by (simp add: classifyGeminiErrorBytes_def Let_def classify_transient body_verdict_def)

text \<open>
  The policy as docs/TROUBLESHOOTING.md states it: 408, 409 and 5xx are always retried;
  otherwise Google's canonical status decides, and without one the message may.
\<close>

definition gemini_policy :: "int \<Rightarrow> geminiAPIError \<Rightarrow> bool" where
  "gemini_policy st e =
     (let s = to_upper (trim_space (ge_status e)) in
      if st \<in> {408, 409} \<or> 500 \<le> st then True
      else if s \<in> gemini_temporary then True
      else if s = ''RESOURCE_EXHAUSTED'' then \<not> geminiDailyQuotaExhausted e
      else if s \<in> gemini_final then False
      else
        let verdict = (if s = [] then anthropicErrorVerdict (ge_fallbackType e) [] (ge_message e) []
                       else if anyContains (to_lower (ge_message e)) requestShapeSigs then verdictPermanent
                       else verdictUnknown)
        in if st = 429 then verdict \<noteq> verdictPermanent else verdict = verdictTransient)"

lemma policy_decides:
  assumes "\<not> (300 \<le> st \<and> st < 400)"
  shows "retry_policy st None
      (let s = to_upper (trim_space (ge_status e)) in
       if s = [] then anthropicErrorVerdict (ge_fallbackType e) [] (ge_message e) []
       else geminiErrorVerdict s e) = gemini_policy st e"
  using assms
  by (auto simp: retry_policy_def gemini_policy_def geminiErrorVerdict_def gemini_final_def
      gemini_temporary_def Let_def)

text \<open>The status an in-band error stands for.\<close>

definition in_band_status :: "geminiAPIError \<Rightarrow> int" where
  "in_band_status e =
     (let st = (if 400 \<le> ge_code e \<and> ge_code e \<le> 599 then ge_code e
                else geminiHTTPStatus (to_upper (trim_space (ge_status e))))
      in if st = 0 then 502 else st)"

lemma in_band_range: "400 \<le> in_band_status e"
  by (auto simp: in_band_status_def geminiHTTPStatus_def Let_def)

lemma sse_transient:
  assumes "unmarshal dec_envelope data geminiAPIError0 = (e, False)"
  shows "f_transient (classifyGeminiSSEError E data) =
    f_transient (classifyGeminiErrorBytes E (in_band_status e) Map.empty data e)"
  using assms by (simp add: classifyGeminiSSEError_def in_band_status_def Let_def not_le)

text \<open>
  A Google error is judged by one documented policy, whether it is an HTTP response or
  an event of a stream: 408, 409 and 5xx are retried, otherwise the canonical status
  decides (an exhausted daily quota is final), whatever the other fields of the body say.
  An in-band error is judged by the status it names, as the HTTP response it stands for.
\<close>

theorem gemini_decision:
  assumes "\<not> (300 \<le> st \<and> st < 400)" "httpRetryHint h = None"
    and "unmarshal dec_envelope data geminiAPIError0 = (e, False)"
  shows "f_transient (classifyGeminiErrorBytes E st h b e) = gemini_policy st e \<and>
    f_transient (classifyGeminiSSEError E data) = gemini_policy (in_band_status e) e"
proof
  show "f_transient (classifyGeminiErrorBytes E st h b e) = gemini_policy st e"
    using assms(2) by (simp only: gemini_transient option.map policy_decides [OF assms(1)])
  have h: "httpRetryHint Map.empty = None"
    by (simp add: httpRetryHint_def header_get_def header_values_def hint_value_def)
  have "\<not> (300 \<le> in_band_status e \<and> in_band_status e < 400)" using in_band_range [of e] by simp
  from policy_decides [OF this, of e]
  show "f_transient (classifyGeminiSSEError E data) = gemini_policy (in_band_status e) e"
    by (simp only: sse_transient [OF assms(3)] gemini_transient h option.map)
qed

theorem gemini_decision_witness:
  "\<not> f_transient (classifyGeminiErrorBytes example_env 400 Map.empty []
      (geminiAPIError0\<lparr>ge_status := ''NOT_FOUND''\<rparr>)) \<and>
   \<not> f_transient (classifyGeminiSSEError example_env ''{\"error\":{\"status\":\"NOT_FOUND\"}}'')"
proof -
  let ?e = "geminiAPIError0\<lparr>ge_status := ''NOT_FOUND''\<rparr>"
  have d: "unmarshal dec_envelope ''{\"error\":{\"status\":\"NOT_FOUND\"}}'' geminiAPIError0 = (?e, False)"
    by code_simp
  have h: "httpRetryHint Map.empty = None"
    by (simp add: httpRetryHint_def header_get_def header_values_def hint_value_def)
  have t: "to_upper (trim_space ''NOT_FOUND'') = ''NOT_FOUND''" by code_simp
  have p: "\<not> gemini_policy 400 ?e" "\<not> gemini_policy (in_band_status ?e) ?e"
    by (simp_all add: gemini_policy_def in_band_status_def t gemini_temporary_def gemini_final_def Let_def
        geminiHTTPStatus_def geminiAPIError0_def)
  from gemini_decision [OF _ h d, of 400 example_env "[]"] p
  show ?thesis by simp
qed

section \<open>Advertised delays\<close>

lemma has_suffix_snoc: "has_suffix (s @ [c]) [c]"
  by (simp add: has_suffix_def)

text \<open>The value of digits is below the power of ten, and zero only for zeros.\<close>

lemma fraction_value:
  "list_all is_digit b \<Longrightarrow>
   0 \<le> digits_val 0 b \<and> digits_val 0 b < 10 ^ length b \<and> (digits_val 0 b = 0 \<longleftrightarrow> list_all (\<lambda>c. c = CHR ''0'') b)"
proof (induction b rule: rev_induct)
  case (snoc c b)
  have "0 \<le> digit_val c \<and> digit_val c \<le> 9" using snoc.prems digit_val_bounds by simp
  with snoc digit_val_0 [of c] show ?case by auto
qed simp

lemma ceiling_fraction:
  assumes "0 \<le> f" "f < 10 ^ k"
  shows "\<lceil>(of_int (w * 10 ^ k + f) :: rat) / 10 ^ k\<rceil> = (if f = 0 then w else w + 1)"
proof -
  have p: "(0 :: rat) < 10 ^ k" by simp
  have e: "(of_int (w * 10 ^ k + f) :: rat) / 10 ^ k = of_int w + of_int f / 10 ^ k"
    using p by (simp add: field_simps)
  show ?thesis
  proof (cases "f = 0")
    case False
    have "(of_int f :: rat) < of_int (10 ^ k)" using assms(2) by (simp only: of_int_less_iff)
    then have "(of_int f :: rat) / 10 ^ k \<le> 1" "0 < (of_int f :: rat) / 10 ^ k"
      using p assms(1) False by (simp_all add: divide_le_eq)
    then have "\<lceil>(of_int f :: rat) / 10 ^ k\<rceil> = 1" by (intro ceiling_unique) auto
    then have "\<lceil>of_int w + (of_int f :: rat) / 10 ^ k\<rceil> = 1 + w"
      unfolding add.commute [of "of_int w"] ceiling_add_of_int by simp
    with e False show ?thesis by simp
  qed (simp add: e)
qed

text \<open>
  A protobuf duration is honoured in whole seconds, rounded up, so that a client never
  comes back before the advertised moment: any text of at least one digit, with up to nine
  fraction digits, and at most the ten thousand years the format allows.
\<close>

theorem gemini_delay_rounds_up:
  assumes "a \<noteq> []" "list_all is_digit a" "list_all is_digit b" "length b \<le> 9" "digits_val 0 a \<le> 315576000000"
  shows "geminiRetryDelaySeconds (a @ (if b = [] then [] else CHR ''.'' # b) @ ''s'') =
    \<lceil>decimal_val (a @ (if b = [] then [] else CHR ''.'' # b))\<rceil>"
proof -
  have nonneg: "0 \<le> digits_val 0 a" using assms(2) by (intro digits_val_nonneg) auto
  have head: "\<not> has_prefix a ''-''" "\<not> has_prefix a ''+''"
    using assms(1,2) by (cases a; auto simp: is_digit_def has_prefix_iff)+
  have pa: "parse_int64 a = Inr (digits_val 0 a)"
    using parse_uint64_digits [of 0 a] head assms(1,2,5) nonneg
    by (simp add: parse_int64_def Let_def max_int64_def)
  let ?t = "a @ (if b = [] then [] else CHR ''.'' # b)"
  have s: "has_suffix (?t @ ''s'') ''s''" "butlast (?t @ ''s'') = ?t" "length (?t @ ''s'') \<noteq> 1"
    using assms(1) has_suffix_snoc [of ?t] by (simp_all add: butlast_append)
  have "geminiRetryDelaySeconds (?t @ ''s'') =
      (if list_ex (\<lambda>c. c \<noteq> CHR ''0'') b then digits_val 0 a + 1 else digits_val 0 a)"
    using assms(1-5) pa str_cut_dot [OF digits_no_dot [OF assms(2)], of b] no_dot [OF digits_no_dot [OF assms(2)]]
    unfolding geminiRetryDelaySeconds_def s(2) using s(1,3)
    by (cases "b = []") (simp_all add: Let_def)
  moreover have "\<lceil>decimal_val ?t\<rceil> = (if list_ex (\<lambda>c. c \<noteq> CHR ''0'') b then digits_val 0 a + 1 else digits_val 0 a)"
  proof (cases "b = []")
    case True
    with no_dot [OF digits_no_dot [OF assms(2)]] show ?thesis by (simp add: decimal_val_def)
  next
    case False
    from False str_cut_dot [OF digits_no_dot [OF assms(2)], of b]
    have "decimal_val ?t = of_int (digits_val 0 a * 10 ^ length b + digits_val 0 b) / 10 ^ length b"
      using digits_val_shift [of "digits_val 0 a" b] by (simp add: decimal_val_def)
    with ceiling_fraction [of "digits_val 0 b" "length b" "digits_val 0 a"] fraction_value [OF assms(3)]
    show ?thesis by (auto simp: list_ex_iff list_all_iff)
  qed
  ultimately show ?thesis by simp
qed

theorem gemini_delay_rounds_up_witness:
  "geminiRetryDelaySeconds ''3.000000001s'' = 4 \<and> \<lceil>decimal_val ''3.000000001''\<rceil> = 4"
proof -
  have "geminiRetryDelaySeconds ''3.000000001s'' = 4" by code_simp
  with gemini_delay_rounds_up [of "''3''" "''000000001''"] show ?thesis
    by (simp add: is_digit_def digit_val_def)
qed

end
