(* ===== verification/Gemini_Wire.thy ===== *)
theory Gemini_Wire
  imports Gemini_Errors Engine
begin

text \<open>
  The Gemini wire (gemini.go: \<open>geminiWire\<close>), an instance of the engine's interface. The
  stream has no terminal event: the wire keeps one state per candidate and takes the
  clean end of the stream as completion once every requested candidate has finished, or
  the prompt was blocked.
\<close>

record geminiCandidateState =
  gcs_chunk :: int
  gcs_finished :: bool

record geminiWire =
  gw_candidateCount :: int
  gw_candidates :: "geminiCandidateState blocks"
  gw_chunk :: int
  gw_finished :: int
  gw_blocked :: bool
  gw_failed :: bool
  gw_sawContent :: bool
  gw_candidateTokens :: int
  gw_thoughtTokens :: int

definition newGeminiWire :: "bytes \<Rightarrow> geminiWire" where
  "newGeminiWire body =
     \<lparr>gw_candidateCount = gs_candidateCount (geminiSettingsOf body), gw_candidates = [], gw_chunk = 0,
      gw_finished = 0, gw_blocked = False, gw_failed = False, gw_sawContent = False,
      gw_candidateTokens = 0, gw_thoughtTokens = 0\<rparr>"

section \<open>Taking an event\<close>

definition finish_reason :: "bytes \<Rightarrow> bool" where
  "finish_reason r = (r \<noteq> [] \<and> r \<noteq> ''FINISH_REASON_UNSPECIFIED'')"

definition block_reason :: "bytes \<Rightarrow> bool" where
  "block_reason r = (r \<noteq> [] \<and> r \<noteq> ''BLOCK_REASON_UNSPECIFIED'')"

definition candidate_state :: "geminiWire \<Rightarrow> int \<Rightarrow> geminiCandidateState" where
  "candidate_state g index =
     (case blk_get (gw_candidates g) index of
        None \<Rightarrow> \<lparr>gcs_chunk = 0, gcs_finished = False\<rparr> | Some s \<Rightarrow> s)"

text \<open>The finish reason of a candidate whose state is \<open>state\<close>.\<close>

definition note_finish ::
    "bytes \<Rightarrow> geminiCandidateState \<Rightarrow> geminiWire \<Rightarrow> captureStats \<Rightarrow> geminiCandidateState \<times> geminiWire \<times> captureStats" where
  "note_finish reason state g st =
     (if \<not> finish_reason reason then (state, g, st)
      else (state\<lparr>gcs_finished := True\<rparr>,
            if gcs_finished state then g else g\<lparr>gw_finished := gw_finished g + 1\<rparr>,
            st\<lparr>st_stop := reason\<rparr>))"

fun accept_candidates ::
    "geminiCandidate option list \<Rightarrow> geminiWire \<Rightarrow> captureStats \<Rightarrow> geminiWire \<times> captureStats \<times> failure option" where
  "accept_candidates [] g st = (g, st, None)"
| "accept_candidates (None # cs) g st =
     (g, st, Some (malformedSSE ''Gemini stream candidate is not an object''))"
| "accept_candidates (Some c # cs) g st =
     (if gc_index c < 0 \<or> gw_candidateCount g \<le> gc_index c then
        (g, st, Some (malformedSSE ''Gemini stream candidate index is outside the requested range''))
      else if gcs_chunk (candidate_state g (gc_index c)) = gw_chunk g then
        (g, st, Some (malformedSSE ''duplicate Gemini candidate index in stream event''))
      else
        let state = (candidate_state g (gc_index c))\<lparr>gcs_chunk := gw_chunk g\<rparr>;
            content = (case gc_content c of None \<Rightarrow> False | Some parts \<Rightarrow> parts \<noteq> [])
        in if content \<and> gcs_finished state then
             (g, st, Some (malformedSSE ''Gemini stream candidate content follows its finish reason''))
           else
             (case note_finish (gc_finishReason c) state
                     (if content then g\<lparr>gw_sawContent := True\<rparr> else g) st of
                (state', g', st') \<Rightarrow>
                  accept_candidates cs
                    (g'\<lparr>gw_candidates := blk_put (gc_index c) state' (gw_candidates g')\<rparr>) st'))"

definition accept_feedback ::
    "bytes option \<Rightarrow> geminiWire \<Rightarrow> captureStats \<Rightarrow> geminiWire \<times> captureStats" where
  "accept_feedback feedback g st =
     (case feedback of
        None \<Rightarrow> (g, st)
      | Some reason \<Rightarrow>
          if block_reason reason then (g\<lparr>gw_blocked := True\<rparr>, st\<lparr>st_stop := reason\<rparr>) else (g, st))"

definition accept_usage ::
    "geminiUsage option \<Rightarrow> geminiWire \<Rightarrow> captureStats \<Rightarrow> geminiWire \<times> captureStats" where
  "accept_usage usage g st =
     (case usage of
        None \<Rightarrow> (g, st)
      | Some u \<Rightarrow>
          let st1 = (if 0 < gu_prompt u
                     then (let cached = min (max (gu_cached u) 0) (gu_prompt u)
                           in setInputUsage (gu_prompt u - cached) 0 cached st)
                     else st);
              g1 = (case gu_candidates u of
                      Some n \<Rightarrow> if 0 \<le> n then g\<lparr>gw_candidateTokens := n\<rparr> else g | None \<Rightarrow> g);
              g2 = (case gu_thoughts u of
                      Some n \<Rightarrow> if 0 \<le> n then g1\<lparr>gw_thoughtTokens := n\<rparr> else g1 | None \<Rightarrow> g1)
          in (g2, st1\<lparr>st_outTok := gw_candidateTokens g2 + gw_thoughtTokens g2\<rparr>))"

definition accept_chunk ::
    "geminiChunk \<Rightarrow> geminiWire \<Rightarrow> captureStats \<Rightarrow> geminiWire \<times> captureStats \<times> failure option" where
  "accept_chunk chunk g0 st0 =
     (case accept_candidates (gk_candidates chunk)
             (g0\<lparr>gw_chunk := (gw_chunk g0 + 1) mod 18446744073709551616\<rparr>) st0 of
        (g, st, Some f) \<Rightarrow> (g, st, Some f)
      | (g, st, None) \<Rightarrow>
          (case accept_feedback (gk_promptFeedback chunk) g st of
             (g1, st1) \<Rightarrow>
               let st2 = (if gk_modelVersion chunk \<noteq> [] then st1\<lparr>st_model := gk_modelVersion chunk\<rparr> else st1)
               in (case accept_usage (gk_usage chunk) g1 st2 of (g2, st3) \<Rightarrow> (g2, st3, None))))"

definition gemini_chunk :: "bytes \<Rightarrow> geminiChunk option" where
  "gemini_chunk data = (case json_parse data of None \<Rightarrow> None | Some v \<Rightarrow> geminiChunk_of v)"

definition gemini_accept ::
    "env \<Rightarrow> geminiWire \<Rightarrow> event \<Rightarrow> captureStats \<Rightarrow> geminiWire \<times> captureStats \<times> failure option" where
  "gemini_accept E g ev st =
     (let data = trim_space (ev_data ev) in
      if ev_data ev = [] \<and> ev_name ev \<noteq> ''error'' then (g, st, None)
      else if data = [] \<or> hd data \<noteq> CHR ''{'' then
        (g, st, Some (malformedSSE ''Gemini stream event is not a JSON object''))
      else case gemini_chunk data of
             None \<Rightarrow> (g, st, Some (malformedSSE ''invalid JSON or field shape in Gemini stream event''))
           | Some chunk \<Rightarrow>
               if ev_name ev = ''error'' \<or> (gk_error chunk \<noteq> None \<and> gk_error chunk \<noteq> Some JNull)
               then (g, st, Some (classifyGeminiSSEError E data))
               else accept_chunk chunk g st)"

section \<open>The wire\<close>

definition gemini_buffered ::
    "env \<Rightarrow> geminiWire \<Rightarrow> event \<Rightarrow> captureStats \<Rightarrow> geminiWire \<times> captureStats \<times> bool \<times> failure option" where
  "gemini_buffered E g ev st =
     (case gemini_accept E g ev st of
        (g', st', f) \<Rightarrow> (g'\<lparr>gw_failed := gw_failed g' \<or> f \<noteq> None\<rparr>, st', False, f))"

definition gemini_live ::
    "env \<Rightarrow> geminiWire \<Rightarrow> event \<Rightarrow> bytes \<Rightarrow> captureStats \<Rightarrow>
     geminiWire \<times> captureStats \<times> bytes list \<times> bool \<times> failure option" where
  "gemini_live E g ev raw st =
     (case gemini_accept E g ev st of
        (g', st', None) \<Rightarrow> (g', st', [raw], False, None)
      | (g', st', Some f) \<Rightarrow>
          let g2 = g'\<lparr>gw_failed := True\<rparr> in
          if \<not> f_transient f then (g2, st', [raw], False, Some (f\<lparr>f_delivered := True\<rparr>))
          else (g2, st', [], False, Some f))"

definition gemini_completeOnEOF :: "geminiWire \<Rightarrow> bool" where
  "gemini_completeOnEOF g =
     (if gw_blocked g then \<not> gw_failed g \<and> gw_candidates g = []
      else \<not> gw_failed g \<and> gw_finished g = gw_candidateCount g)"

definition gemini_keepalive :: bytes where
  "gemini_keepalive = '': keepalive'' @ [LF, LF]"

definition gemini_wire :: "env \<Rightarrow> spool_rd \<Rightarrow> geminiWire wire" where
  "gemini_wire E rd =
     \<lparr>wm_scrape = (\<lambda>ev st. st),
      wm_buffered = gemini_buffered E,
      wm_completeOnEOF = gemini_completeOnEOF,
      wm_live = gemini_live E,
      wm_keepalive = gemini_keepalive,
      wm_replayBuffered = (\<lambda>g sp w st. replayRaw rd sp w),
      wm_replayPrefix = (\<lambda>g sp w. case replayRaw rd sp w of (w', e) \<Rightarrow> (g, w', e)),
      wm_forwardable = gw_sawContent\<rparr>"

interpretation gm: raw_wire "gemini_wire E rd" rd for E :: env and rd :: spool_rd
proof
  show "appends w w'" if "wm_replayBuffered (gemini_wire E rd) m sp w st = (w', e)" for m sp w st w' e
    using that appends_replayRaw [of w rd sp] by (simp add: gemini_wire_def)
  show "appends w w'" if "wm_replayPrefix (gemini_wire E rd) m sp w = (m', w', e)" for m sp w m' w' e
    using that appends_replayRaw [of w rd sp] by (auto simp: gemini_wire_def split: prod.splits)
  show "wm_replayBuffered (gemini_wire E rd) m sp w st = replayRaw rd sp w" for m sp w st
    by (simp add: gemini_wire_def)
qed

section \<open>The account of finished candidates\<close>

definition fin_weight :: "geminiCandidateState \<Rightarrow> int" where
  "fin_weight s = (if gcs_finished s then 1 else 0)"

definition gemini_inv :: "int \<Rightarrow> geminiWire \<Rightarrow> bool" where
  "gemini_inv count g =
     (gw_candidateCount g = count \<and> blk_inv (gw_candidates g) \<and>
      (\<forall>i s. blk_get (gw_candidates g) i = Some s \<longrightarrow> 0 \<le> i \<and> i < count) \<and>
      gw_finished g = blk_total fin_weight (gw_candidates g))"

text \<open>A candidate has finished after some candidates were taken: it had before, or one of them says so.\<close>

definition finished_in :: "geminiWire \<Rightarrow> int \<Rightarrow> bool" where
  "finished_in g i = (\<exists>s. blk_get (gw_candidates g) i = Some s \<and> gcs_finished s)"

definition reports_finish :: "geminiCandidate option list \<Rightarrow> int \<Rightarrow> bool" where
  "reports_finish cs i = (\<exists>c. Some c \<in> set cs \<and> gc_index c = i \<and> finish_reason (gc_finishReason c))"

lemma put_not_empty: "blk_put k v m \<noteq> []"
  using bm.get_put [of k v m k] by auto

lemma note_finish_step:
  assumes "note_finish reason state g st = (state', g', st')"
  shows "gw_candidates g' = gw_candidates g" "gw_candidateCount g' = gw_candidateCount g"
    "gw_blocked g' = gw_blocked g" "gw_failed g' = gw_failed g"
    "gw_finished g' = gw_finished g - fin_weight state + fin_weight state'"
    "gcs_finished state' \<longleftrightarrow> gcs_finished state \<or> finish_reason reason"
  using assms by (auto simp: note_finish_def fin_weight_def split: if_splits)

lemma put_candidate:
  assumes "gemini_inv count g" "0 \<le> i" "i < count"
    and "note_finish reason ((candidate_state g i)\<lparr>gcs_chunk := k\<rparr>)
           (if ct then g\<lparr>gw_sawContent := True\<rparr> else g) st = (state', g', st')"
  shows "gemini_inv count (g'\<lparr>gw_candidates := blk_put i state' (gw_candidates g')\<rparr>)"
    and "finished_in (g'\<lparr>gw_candidates := blk_put i state' (gw_candidates g')\<rparr>) j \<longleftrightarrow>
      finished_in g j \<or> j = i \<and> finish_reason reason"
    and "gw_blocked g' = gw_blocked g" "gw_failed g' = gw_failed g"
proof -
  note n = note_finish_step [OF assms(4)]
  have w: "opt_weight fin_weight (blk_get (gw_candidates g) i) = fin_weight ((candidate_state g i)\<lparr>gcs_chunk := k\<rparr>)"
    by (auto simp: candidate_state_def fin_weight_def split: option.splits)
  have f: "gcs_finished ((candidate_state g i)\<lparr>gcs_chunk := k\<rparr>) \<longleftrightarrow> finished_in g i"
    by (auto simp: candidate_state_def finished_in_def split: option.splits)
  show "gemini_inv count (g'\<lparr>gw_candidates := blk_put i state' (gw_candidates g')\<rparr>)"
    using assms(1-3) n(1,2,5) w
    by (auto simp: gemini_inv_def blk_simps split: if_splits)
  show "finished_in (g'\<lparr>gw_candidates := blk_put i state' (gw_candidates g')\<rparr>) j \<longleftrightarrow>
      finished_in g j \<or> j = i \<and> finish_reason reason"
    using n(1,6) f by (auto simp: finished_in_def bm.get_put)
  show "gw_blocked g' = gw_blocked g" "gw_failed g' = gw_failed g" using n(3,4) by (auto split: if_splits)
qed

lemma accept_candidates_step:
  assumes "gemini_inv count g" "accept_candidates cs g st = (g', st', f)"
  shows "gemini_inv count g' \<and> gw_blocked g' = gw_blocked g \<and> gw_failed g' = gw_failed g \<and>
    (f = None \<longrightarrow> (\<forall>i. finished_in g' i \<longleftrightarrow> finished_in g i \<or> reports_finish cs i) \<and>
       (gw_candidates g' = [] \<longrightarrow> cs = [] \<and> gw_candidates g = []))"
  using assms
proof (induction cs arbitrary: g st)
  case (Cons x cs)
  show ?case
  proof (cases "\<exists>c. x = Some c \<and> 0 \<le> gc_index c \<and> gc_index c < gw_candidateCount g \<and>
      gcs_chunk (candidate_state g (gc_index c)) \<noteq> gw_chunk g \<and>
      \<not> ((case gc_content c of None \<Rightarrow> False | Some parts \<Rightarrow> parts \<noteq> []) \<and>
         gcs_finished ((candidate_state g (gc_index c))\<lparr>gcs_chunk := gw_chunk g\<rparr>))")
    case False
    with Cons.prems show ?thesis by (cases x) (auto simp: Let_def split: if_splits)
  next
    case ex: True
    then obtain c where c: "x = Some c" by blast
    with ex have True: "0 \<le> gc_index c \<and> gc_index c < gw_candidateCount g \<and>
      gcs_chunk (candidate_state g (gc_index c)) \<noteq> gw_chunk g \<and>
      \<not> ((case gc_content c of None \<Rightarrow> False | Some parts \<Rightarrow> parts \<noteq> []) \<and>
         gcs_finished ((candidate_state g (gc_index c))\<lparr>gcs_chunk := gw_chunk g\<rparr>))" by simp
    define ct where "ct = (case gc_content c of None \<Rightarrow> False | Some parts \<Rightarrow> parts \<noteq> [])"
    obtain state1 g1 st1 where n: "note_finish (gc_finishReason c)
        ((candidate_state g (gc_index c))\<lparr>gcs_chunk := gw_chunk g\<rparr>)
        (if ct then g\<lparr>gw_sawContent := True\<rparr> else g) st = (state1, g1, st1)"
      by (metis prod_cases3)
    define g2 where "g2 = g1\<lparr>gw_candidates := blk_put (gc_index c) state1 (gw_candidates g1)\<rparr>"
    have i: "0 \<le> gc_index c" "gc_index c < count" using True Cons.prems(1) by (auto simp: gemini_inv_def)
    note p = put_candidate [OF Cons.prems(1) i n, folded g2_def]
    have a: "accept_candidates cs g2 st1 = (g', st', f)"
      using Cons.prems(2) True n unfolding g2_def ct_def c by (simp add: Let_def split: if_splits)
    have "gw_blocked g2 = gw_blocked g" "gw_failed g2 = gw_failed g" "gw_candidates g2 \<noteq> []"
      using p(3,4) put_not_empty by (simp_all add: g2_def)
    then show ?thesis
      using Cons.IH [OF p(1) a] p(2) c by (auto simp: reports_finish_def)
  qed
qed (auto simp: reports_finish_def)

section \<open>What the events say\<close>

definition event_chunk :: "event \<Rightarrow> geminiChunk option" where
  "event_chunk ev = (if ev_data ev = [] then None else gemini_chunk (trim_space (ev_data ev)))"

definition finishes :: "event \<Rightarrow> int \<Rightarrow> bool" where
  "finishes ev i = (\<exists>chunk. event_chunk ev = Some chunk \<and> reports_finish (gk_candidates chunk) i)"

definition blocks_prompt :: "event \<Rightarrow> bool" where
  "blocks_prompt ev =
     (\<exists>chunk r. event_chunk ev = Some chunk \<and> gk_promptFeedback chunk = Some r \<and> block_reason r)"

definition offers_candidate :: "event \<Rightarrow> bool" where
  "offers_candidate ev = (\<exists>chunk. event_chunk ev = Some chunk \<and> gk_candidates chunk \<noteq> [])"

definition reports_error :: "event \<Rightarrow> bool" where
  "reports_error ev =
     (ev_name ev = ''error'' \<or>
      (\<exists>chunk v. event_chunk ev = Some chunk \<and> gk_error chunk = Some v \<and> v \<noteq> JNull))"

lemma accept_usage_keeps:
  assumes "accept_usage u g st = (g', st')"
  shows "gw_candidates g' = gw_candidates g" "gw_candidateCount g' = gw_candidateCount g"
    "gw_blocked g' = gw_blocked g" "gw_failed g' = gw_failed g" "gw_finished g' = gw_finished g"
  using assms by (auto simp: accept_usage_def Let_def split: option.splits if_splits)

lemma accept_feedback_keeps:
  assumes "accept_feedback x g st = (g', st')"
  shows "gw_candidates g' = gw_candidates g" "gw_candidateCount g' = gw_candidateCount g"
    "gw_failed g' = gw_failed g" "gw_finished g' = gw_finished g"
    "gw_blocked g' \<longleftrightarrow> gw_blocked g \<or> (\<exists>r. x = Some r \<and> block_reason r)"
  using assms by (auto simp: accept_feedback_def split: option.splits if_splits)

lemma accept_chunk_step:
  assumes "gemini_inv count g" "accept_chunk chunk g st = (g', st', f)"
  shows "gemini_inv count g' \<and> gw_failed g' = gw_failed g \<and>
    (f = None \<longrightarrow> (\<forall>i. finished_in g' i \<longleftrightarrow> finished_in g i \<or> reports_finish (gk_candidates chunk) i) \<and>
       (gw_candidates g' = [] \<longrightarrow> gk_candidates chunk = [] \<and> gw_candidates g = []) \<and>
       (gw_blocked g' \<longleftrightarrow> gw_blocked g \<or> (\<exists>r. gk_promptFeedback chunk = Some r \<and> block_reason r)))"
proof -
  define g0 where "g0 = g\<lparr>gw_chunk := (gw_chunk g + 1) mod 18446744073709551616\<rparr>"
  have i0: "gemini_inv count g0" "finished_in g0 = finished_in g" "gw_blocked g0 = gw_blocked g"
    "gw_failed g0 = gw_failed g" "gw_candidates g0 = gw_candidates g"
    using assms(1) by (auto simp: g0_def gemini_inv_def finished_in_def fun_eq_iff)
  obtain g1 st1 f1 where a: "accept_candidates (gk_candidates chunk) g0 st = (g1, st1, f1)" by (metis prod_cases3)
  note s1 = accept_candidates_step [OF i0(1) a]
  show ?thesis
  proof (cases f1)
    case (Some x)
    with assms(2) a have "g' = g1" "f = Some x" by (simp_all add: accept_chunk_def g0_def [symmetric])
    with s1 i0 show ?thesis by simp
  next
    case None
    obtain g2 st2 where b: "accept_feedback (gk_promptFeedback chunk) g1 st1 = (g2, st2)" by force
    obtain g3 st3 where c: "accept_usage (gk_usage chunk) g2
        (if gk_modelVersion chunk \<noteq> [] then st2\<lparr>st_model := gk_modelVersion chunk\<rparr> else st2) = (g3, st3)" by force
    have g': "g' = g3" "f = None"
      using assms(2) None a b c by (auto simp: accept_chunk_def g0_def [symmetric] Let_def)
    note k = accept_feedback_keeps [OF b] accept_usage_keeps [OF c]
    have "gemini_inv count g3" "finished_in g3 = finished_in g1"
      using s1 k by (auto simp: gemini_inv_def finished_in_def fun_eq_iff)
    with s1 i0 k None show ?thesis unfolding g' by auto
  qed
qed

lemma gemini_accept_step:
  assumes "gemini_inv count g" "gemini_accept E g ev st = (g', st', f)"
  shows "gemini_inv count g' \<and> gw_failed g' = gw_failed g \<and>
    (f = None \<longrightarrow> (\<forall>i. finished_in g' i \<longleftrightarrow> finished_in g i \<or> finishes ev i) \<and>
       (gw_candidates g' = [] \<longrightarrow> \<not> offers_candidate ev \<and> gw_candidates g = []) \<and>
       (gw_blocked g' \<longleftrightarrow> gw_blocked g \<or> blocks_prompt ev) \<and> \<not> reports_error ev)"
proof -
  let ?d = "trim_space (ev_data ev)"
  have same: "gemini_inv count g \<and> gw_failed g = gw_failed g" using assms(1) by simp
  consider "ev_data ev = []" "ev_name ev \<noteq> ''error''" | "f \<noteq> None" "g' = g"
    | chunk where "ev_data ev \<noteq> []" "gemini_chunk ?d = Some chunk"
        "ev_name ev \<noteq> ''error''" "gk_error chunk = None \<or> gk_error chunk = Some JNull"
        "accept_chunk chunk g st = (g', st', f)"
    using assms(2) by (auto simp: gemini_accept_def Let_def split: if_splits option.splits)
  then show ?thesis
  proof cases
    case 1
    with assms show ?thesis
      by (auto simp: gemini_accept_def Let_def event_chunk_def finishes_def offers_candidate_def
          blocks_prompt_def reports_error_def)
  next
    case 2
    with same show ?thesis by auto
  next
    case 3
    then have "event_chunk ev = Some chunk" by (simp add: event_chunk_def)
    with accept_chunk_step [OF assms(1) 3(5)] 3(3,4) show ?thesis
      by (auto simp: finishes_def offers_candidate_def blocks_prompt_def reports_error_def)
  qed
qed

text \<open>
  However the events arrive, and also when one of them is refused half-way, the wire
  keeps its account: the states it holds are those of requested candidates, each at most
  once, and the number of finished candidates it compares with the request is the number
  of states that are finished.
\<close>

theorem gemini_account:
  assumes "gemini_inv count g" "gemini_buffered E g ev st = (g', st', dn, f)"
  shows "gemini_inv count g' \<and> \<not> dn \<and> gw_failed g' = (gw_failed g \<or> f \<noteq> None) \<and>
    gw_finished g' \<le> int (length (gw_candidates g'))"
proof -
  obtain h st1 f1 where a: "gemini_accept E g ev st = (h, st1, f1)" by (metis prod_cases3)
  note s = gemini_accept_step [OF assms(1) a]
  have "blk_total fin_weight m \<le> int (length m)" for m
    by (induction m) (auto simp: blk_total_def fin_weight_def)
  with s a assms(2) show ?thesis
    by (auto simp: gemini_buffered_def gemini_inv_def)
qed

theorem gemini_account_witness:
  "gemini_inv 1 (fst (gemini_buffered example_env (newGeminiWire []) \<lparr>ev_name = [], ev_data = ''x'', ev_raw = []\<rparr> stats0))"
proof -
  have "geminiSettingsOf [] = geminiSettings0" by code_simp
  then have i: "gemini_inv 1 (newGeminiWire [])"
    by (simp add: gemini_inv_def newGeminiWire_def geminiSettings0_def)
  obtain g st dn f where b: "gemini_buffered example_env (newGeminiWire [])
      \<lparr>ev_name = [], ev_data = ''x'', ev_raw = []\<rparr> stats0 = (g, st, dn, f)" by (metis prod_cases4)
  from gemini_account [OF i b] b show ?thesis by simp
qed

section \<open>A delivered response is complete\<close>

definition took_gemini :: "int \<Rightarrow> event list \<Rightarrow> geminiWire \<Rightarrow> bool" where
  "took_gemini count evs g =
     (gemini_inv count g \<and> \<not> gw_failed g \<and> (\<forall>ev \<in> set evs. \<not> reports_error ev) \<and>
      (\<forall>i. finished_in g i \<longrightarrow> (\<exists>ev \<in> set evs. finishes ev i)) \<and>
      (gw_blocked g \<longleftrightarrow> (\<exists>ev \<in> set evs. blocks_prompt ev)) \<and>
      (gw_candidates g = [] \<longrightarrow> (\<forall>ev \<in> set evs. \<not> offers_candidate ev)))"

lemma took_is_gemini:
  "took (gemini_wire E rd) (newGeminiWire body) evs g dn \<Longrightarrow>
   took_gemini (gs_candidateCount (geminiSettingsOf body)) evs g \<and> \<not> dn"
proof (induction rule: took.induct)
  case took_none
  then show ?case by (simp add: took_gemini_def gemini_inv_def newGeminiWire_def finished_in_def)
next
  case (took_event evs g ev st g2 st' dn)
  obtain h st1 f1 where a: "gemini_accept E g ev st = (h, st1, f1)" by (metis prod_cases3)
  with took_event.hyps(2) have h: "f1 = None" "\<not> dn" "g2 = h"
    by (auto simp: gemini_wire_def gemini_buffered_def)
  have "gemini_inv (gs_candidateCount (geminiSettingsOf body)) g"
    using took_event.IH by (simp add: took_gemini_def)
  from gemini_accept_step [OF this a] took_event.IH h show ?case
    by (auto simp: took_gemini_def)
qed

text \<open>As many finished states as requested candidates: every candidate has finished.\<close>

lemma total_finished:
  assumes "blk_inv m"
  shows "blk_total fin_weight m = int (card {k. \<exists>s. blk_get m k = Some s \<and> gcs_finished s})"
  using assms
proof (induction m)
  case (Cons x m)
  obtain k s where x: "x = (k, s)" by force
  let ?A = "{j. \<exists>s. blk_get m j = Some s \<and> gcs_finished s}"
  have new: "blk_get m k = None" using Cons.prems x by (auto simp: blk_inv_def blk_get_def map_of_eq_None_iff)
  have "?A \<subseteq> fst ` set m" by (force simp: blk_get_def dest: map_of_SomeD)
  then have fin: "finite ?A" by (rule finite_subset) simp
  have "{j. \<exists>t. blk_get (x # m) j = Some t \<and> gcs_finished t} = (if gcs_finished s then insert k ?A else ?A)"
    using new x by (auto simp: blk_get_def split: if_splits)
  moreover have "k \<notin> ?A" using new by simp
  ultimately show ?case
    using Cons fin x by (auto simp: blk_inv_def blk_total_def fin_weight_def)
qed simp

lemma all_finished:
  assumes "gemini_inv count g" "gw_finished g = count" "0 \<le> i" "i < count"
  shows "finished_in g i"
proof -
  let ?A = "{k. finished_in g k}"
  have "card ?A = nat count"
    using total_finished [of "gw_candidates g"] assms(1,2) by (simp add: gemini_inv_def finished_in_def)
  moreover have sub: "?A \<subseteq> {0..<count}" using assms(1) by (auto simp: gemini_inv_def finished_in_def)
  ultimately have "?A = {0..<count}" by (intro card_subset_eq) simp_all
  with assms(3,4) show ?thesis by auto
qed

text \<open>
  C15. Everything the proxy delivers as a buffered success on the Gemini route is a whole
  response: none of its events reports an error, every candidate the request asked for
  has a finish reason in it (or the prompt was blocked and no candidate was offered), and
  the client receives the bytes of exactly these events.
\<close>

theorem gemini_success_complete:
  assumes "captureSSECore G (newGeminiWire body) w0 st inputs = Inl (True, None, s)"
    and "\<not> e_committed s" "g_wire G = gemini_wire E rd" "valid_config (g_cfg G)"
  shows "\<exists>n. let evs = take n (input_events (newParser (max (maxResponseBytes (g_cfg G)) 1)) inputs);
               count = gs_candidateCount (geminiSettingsOf body) in
    (\<forall>ev \<in> set evs. \<not> reports_error ev) \<and>
    (if \<exists>ev \<in> set evs. blocks_prompt ev then \<forall>ev \<in> set evs. \<not> offers_candidate ev
     else \<forall>i. 0 \<le> i \<and> i < count \<longrightarrow> (\<exists>ev \<in> set evs. finishes ev i)) \<and>
    ds_body (e_w s) = ds_body w0 @ raw_bytes evs"
proof -
  let ?evs = "input_events (newParser (max (maxResponseBytes (g_cfg G)) 1)) inputs"
  let ?count = "gs_candidateCount (geminiSettingsOf body)"
  obtain n where n: "sent_run G w0 (newGeminiWire body) (take n ?evs) (e_w s)"
    using buffered_success_checked [OF assms(1,2)] by blast
  then obtain g dn where t: "took (gemini_wire E rd) (newGeminiWire body) (take n ?evs) g dn"
    and c: "dn \<or> gemini_completeOnEOF g"
    unfolding sent_run_def assms(3) by (auto simp: gemini_wire_def)
  note tg = took_is_gemini [OF t]
  from tg c have dn: "gemini_completeOnEOF g" by simp
  have "if \<exists>ev \<in> set (take n ?evs). blocks_prompt ev then \<forall>ev \<in> set (take n ?evs). \<not> offers_candidate ev
     else \<forall>i. 0 \<le> i \<and> i < ?count \<longrightarrow> (\<exists>ev \<in> set (take n ?evs). finishes ev i)"
    using tg dn all_finished [of ?count g]
    by (auto simp: gemini_completeOnEOF_def took_gemini_def gemini_inv_def split: if_splits)
  with tg gm.sent_run_raw [OF assms(3,4) n] show ?thesis
    unfolding Let_def by (intro exI [of _ n]) (simp add: took_gemini_def)
qed

section \<open>Examples\<close>

definition example_gemini :: "input list" where
  "example_gemini =
     [Read (''data: {\"candidates\":[{\"finishReason\":\"STOP\"}]}'' @ [LF, LF]) None CtxOk,
      Read [] (Some EOF) CtxOk]"

lemma example_gemini_run:
  "case captureSSECore (example_capture (gemini_wire example_env rd_fine)) (newGeminiWire []) w_new stats0
     example_gemini of
     Inl (True, None, s) \<Rightarrow> \<not> e_committed s \<and> length (ds_body (e_w s)) = 48
   | _ \<Rightarrow> False"
  by code_simp

theorem gemini_success_complete_witness:
  "\<exists>n. \<exists>ev \<in> set (take n (input_events (newParser 4000) example_gemini)). finishes ev 0"
proof -
  let ?W = "gemini_wire example_env rd_fine"
  obtain s where s: "captureSSECore (example_capture ?W) (newGeminiWire []) w_new stats0 example_gemini
      = Inl (True, None, s)" "\<not> e_committed s"
    using example_gemini_run by (auto split: sum.splits prod.splits option.splits bool.splits)
  have g: "g_wire (example_capture ?W) = ?W" "valid_config (g_cfg (example_capture ?W))"
    using example_config_valid by (simp_all add: example_capture_def)
  have c: "gs_candidateCount (geminiSettingsOf []) = 1" by code_simp
  have b: "\<forall>ev \<in> set (input_events (newParser 4000) example_gemini). \<not> blocks_prompt ev"
  proof -
    have "list_all (\<lambda>ev. (case event_chunk ev of None \<Rightarrow> True | Some k \<Rightarrow> gk_promptFeedback k = None))
        (input_events (newParser 4000) example_gemini)" by code_simp
    then show ?thesis by (auto simp: list_all_iff blocks_prompt_def)
  qed
  have m: "max (maxResponseBytes (g_cfg (example_capture ?W))) 1 = 4000"
    by (simp add: example_capture_def example_config_def)
  have nb: "(\<exists>ev \<in> set (take n (input_events (newParser 4000) example_gemini)). blocks_prompt ev) = False" for n
    using b by (auto dest: in_set_takeD)
  obtain n where
    "\<forall>i. 0 \<le> i \<and> i < 1 \<longrightarrow>
      (\<exists>ev \<in> set (take n (input_events (newParser 4000) example_gemini)). finishes ev i)"
    using gemini_success_complete [OF s g] unfolding m Let_def c nb if_False by blast
  from this [rule_format, of 0] show ?thesis by auto
qed

end
