(* ===== verification/Gemini_Number.thy ===== *)
theory Gemini_Number
  imports Gemini_Json Responses_Errors
begin

text \<open>
  \<open>geminiInt32\<close> against the numbers it reads: the value of a JSON number as a rational, and
  the proof that the decimal arithmetic of the code accepts exactly the integers of 32
  bits, in every spelling, and returns their value.
\<close>

section \<open>The value of a number\<close>

definition exponent_value :: "bytes \<Rightarrow> int" where
  "exponent_value s =
     (if has_prefix s ''-'' then - digits_val 0 (tl s)
      else if has_prefix s ''+'' then digits_val 0 (tl s) else digits_val 0 s)"

definition number_value :: "bytes \<Rightarrow> rat" where
  "number_value t =
     (let neg = has_prefix t ''-''; text = (if neg then tl t else t);
          m = takeWhile (\<lambda>c. \<not> exp_char c) text;
          e = (if m = text then 0 else exponent_value (drop (length m + 1) text));
          v = decimal_val m * 10 powi e
      in if neg then - v else v)"

section \<open>The grammar of numbers\<close>

definition exponent_ok :: "bytes \<Rightarrow> bool" where
  "exponent_ok s = (\<exists>sg d. s = sg @ d \<and> sg \<in> {[], ''+'', ''-''} \<and> d \<noteq> [] \<and> list_all is_digit d)"

definition mantissa_ok :: "bytes \<Rightarrow> bytes \<Rightarrow> bytes \<Rightarrow> bool" where
  "mantissa_ok m a b = (list_all is_digit a \<and> list_all is_digit b \<and> (m = a \<and> b = [] \<or> m = a @ CHR ''.'' # b))"

lemma steps_ExpDigits: "num_steps s ExpDigits = Some n \<Longrightarrow> list_all is_digit s"
  by (induction s) (auto split: if_splits)

lemma steps_Exp: "num_steps s Exp = Some n \<Longrightarrow> num_accept n \<Longrightarrow> exponent_ok s"
proof (cases s)
  case (Cons c u)
  assume s: "num_steps s Exp = Some n" "num_accept n"
  show ?thesis
  proof (cases "c = CHR ''+'' \<or> c = CHR ''-''")
    case True
    with s Cons obtain d v where "u = d # v" "is_digit d" "list_all is_digit v"
      by (cases u) (auto simp: num_accept_def split: if_splits dest: steps_ExpDigits)
    with True Cons show ?thesis
      unfolding exponent_ok_def by (intro exI [of _ "[c]"] exI [of _ u]) auto
  next
    case False
    with s Cons have "is_digit c" "list_all is_digit u"
      by (auto split: if_splits dest: steps_ExpDigits)
    with Cons show ?thesis
      unfolding exponent_ok_def by (intro exI [of _ "[]"] exI [of _ s]) auto
  qed
qed (simp add: num_accept_def)

text \<open>What may follow the mantissa.\<close>

definition tail_form :: "bytes \<Rightarrow> bool" where
  "tail_form s = (s = [] \<or> (\<exists>c ex. s = c # ex \<and> exp_char c \<and> exponent_ok ex))"

lemma steps_Frac:
  "num_steps s Frac = Some n \<Longrightarrow> num_accept n \<Longrightarrow> \<exists>b t. s = b @ t \<and> list_all is_digit b \<and> tail_form t"
proof (induction s)
  case (Cons c s)
  show ?case
  proof (cases "is_digit c")
    case True
    with Cons obtain b t where "s = b @ t" "list_all is_digit b" "tail_form t" by auto
    with True show ?thesis by (intro exI [of _ "c # b"] exI [of _ t]) auto
  next
    case False
    with Cons.prems have "exp_char c" "num_steps s Exp = Some n" by (auto simp: exp_char_def split: if_splits)
    with steps_Exp Cons.prems(2) show ?thesis
      by (intro exI [of _ "[]"] exI [of _ "c # s"]) (auto simp: tail_form_def)
  qed
qed (auto simp: tail_form_def)

lemma steps_Digits:
  "num_steps s st = Some n \<Longrightarrow> num_accept n \<Longrightarrow> st = Digits \<or> st = Zero \<Longrightarrow>
   \<exists>m a b t. s = m @ t \<and> mantissa_ok m a b \<and> tail_form t"
proof (induction s arbitrary: st)
  case Nil
  have "mantissa_ok [] [] []" by (simp add: mantissa_ok_def)
  then show ?case by (auto simp: tail_form_def)
next
  case (Cons c s)
  consider "is_digit c" "st = Digits" | "c = CHR ''.''" | "exp_char c" "num_steps s Exp = Some n"
    using Cons.prems by (auto simp: exp_char_def split: if_splits)
  then show ?case
  proof cases
    case 1
    with Cons.prems Cons.IH [of Digits] obtain m a b t where "s = m @ t" "mantissa_ok m a b" "tail_form t"
      by auto
    with 1 show ?thesis
      by (intro exI [of _ "c # m"] exI [of _ "c # a"] exI [of _ b] exI [of _ t]) (auto simp: mantissa_ok_def)
  next
    case 2
    then have "\<not> is_digit c" by (simp add: is_digit_def)
    with 2 Cons.prems obtain d v where s: "s = d # v" "is_digit d" "num_steps v Frac = Some n"
      by (cases s) (auto simp: num_accept_def split: if_splits)
    from steps_Frac [OF s(3) Cons.prems(2)] obtain b t where "v = b @ t" "list_all is_digit b" "tail_form t"
      by auto
    with s 2 show ?thesis
      by (intro exI [of _ "c # d # b"] exI [of _ "[]"] exI [of _ "d # b"] exI [of _ t]) (auto simp: mantissa_ok_def)
  next
    case 3
    have "mantissa_ok [] [] []" by (simp add: mantissa_ok_def)
    with 3 steps_Exp [OF 3(2) Cons.prems(2)] show ?thesis
      by (intro exI [of _ "[]"] exI [of _ "[]"] exI [of _ "[]"] exI [of _ "c # s"]) (auto simp: tail_form_def)
  qed
qed

lemma number_form:
  assumes "num_ok t"
  obtains neg m a b u where "t = (if neg then CHR ''-'' # m @ u else m @ u)" "mantissa_ok m a b" "tail_form u"
    "m \<noteq> []" "is_digit (hd m)"
proof -
  have digits: "\<exists>m a b u. s = m @ u \<and> mantissa_ok m a b \<and> tail_form u \<and> m \<noteq> [] \<and> is_digit (hd m)"
    if "num_ok s" "s \<noteq> []" "hd s \<noteq> CHR ''-''" for s
  proof -
    from that obtain c v where s: "s = c # v" by (cases s) auto
    with that obtain st n where st: "num_steps v st = Some n" "num_accept n" "st = Digits \<or> st = Zero" "is_digit c"
      by (auto simp: num_start_def is_digit_def split: if_splits option.splits)
    from steps_Digits [OF st(1-3)] obtain m a b u where "v = m @ u" "mantissa_ok m a b" "tail_form u" by auto
    with s st(4) show ?thesis
      by (intro exI [of _ "c # m"] exI [of _ "c # a"] exI [of _ b] exI [of _ u]) (auto simp: mantissa_ok_def)
  qed
  show thesis
  proof (cases "hd t = CHR ''-''")
    case False
    with digits [of t] assms that [of False] show thesis by (cases t) auto
  next
    case True
    with assms obtain v n where t: "t = CHR ''-'' # v" "num_steps v Neg = Some n" "num_accept n"
      by (cases t) (auto simp: num_start_def split: option.splits)
    from t(2,3) have "num_ok v" "v \<noteq> []" "hd v \<noteq> CHR ''-''"
      by (cases v; auto simp: num_start_def num_accept_def is_digit_def split: if_splits)+
    with digits [of v] that [of True] t(1) show thesis by auto
  qed
qed

section \<open>The two passes over the digits\<close>

text \<open>Digits that are zeros, a core that starts and ends with a nonzero digit, zeros.\<close>

definition zeros :: "bytes \<Rightarrow> bool" where
  "zeros s = list_all (\<lambda>c. c = CHR ''0'') s"

lemma zeros_digits: "zeros z \<Longrightarrow> list_all is_digit z"
  by (induction z) (auto simp: zeros_def is_digit_def)

lemma digit_not_exp: "is_digit c \<Longrightarrow> \<not> exp_char c"
  by (auto simp: is_digit_def exp_char_def)

lemma digit_not_dot: "is_digit c \<Longrightarrow> c \<noteq> CHR ''.''"
  by (auto simp: is_digit_def)

lemma core_split:
  assumes "list_all is_digit ds" "\<not> zeros ds"
  obtains z core y where "ds = z @ core @ y" "zeros z" "zeros y" "core \<noteq> []"
    "hd core \<noteq> CHR ''0''" "last core \<noteq> CHR ''0''" "list_all is_digit core"
proof -
  let ?P = "\<lambda>c. c = CHR ''0''"
  let ?z = "takeWhile ?P ds" and ?r = "dropWhile ?P ds"
  let ?y = "rev (takeWhile ?P (rev ?r))" and ?core = "rev (dropWhile ?P (rev ?r))"
  have "?r \<noteq> []" using assms(2) by (simp add: zeros_def list_all_iff)
  then have h: "hd ?r \<noteq> CHR ''0''" using hd_dropWhile [of ?P ds] by auto
  have r: "?r = ?core @ ?y" by (metis rev_append rev_rev_ident takeWhile_dropWhile_id)
  have "hd ?r \<in> set ?r" using \<open>?r \<noteq> []\<close> by (rule hd_in_set)
  with h have ne: "dropWhile ?P (rev ?r) \<noteq> []" unfolding dropWhile_eq_Nil_conv by (metis set_rev)
  then have l: "last ?core \<noteq> CHR ''0''" using hd_dropWhile [of ?P "rev ?r"] by (auto simp: last_rev)
  have "hd ?core \<noteq> CHR ''0''" using h r ne by (metis hd_append2 rev_is_Nil_conv)
  moreover have "ds = ?z @ ?core @ ?y" using r by (metis takeWhile_dropWhile_id)
  moreover have "zeros ?z" "zeros ?y"
    by (auto simp: zeros_def list_all_iff dest: set_takeWhileD)
  moreover have "list_all is_digit ?core"
    using assms(1) by (auto simp: list_all_iff dest!: set_dropWhileD)
  ultimately show thesis using that l ne by blast
qed

text \<open>The first pass. The decimal point only matters for the count of the fraction.\<close>

lemma scan_append:
  "list_all is_digit a \<Longrightarrow>
   int32_scan (a @ s) ad f l d fr = (case int32_scan a ad f l d fr of (f', l', d', fr') \<Rightarrow> int32_scan s ad f' l' d' fr')"
  by (induction a arbitrary: f l d fr) (auto dest: digit_not_dot)

lemma scan_fraction:
  "list_all is_digit s \<Longrightarrow>
   int32_scan s True f l d fr = (case int32_scan s False f l d 0 of (f', l', d', fr') \<Rightarrow> (f', l', d', fr + int (length s)))"
proof (induction s arbitrary: f l d fr)
  case (Cons c s)
  from Cons.prems have "c \<noteq> CHR ''.''" by (auto dest: digit_not_dot)
  with Cons show ?case by (auto split: prod.splits)
qed simp

lemma scan_whole: "list_all is_digit s \<Longrightarrow> snd (snd (snd (int32_scan s False f l d fr))) = fr"
  by (induction s arbitrary: f l d) (auto dest: digit_not_dot)

lemma scan_mantissa:
  assumes "mantissa_ok m a b"
  shows "int32_scan m False f l d 0 =
    (case int32_scan (a @ b) False f l d 0 of (f', l', d', fr) \<Rightarrow> (f', l', d', int (length b)))"
proof -
  obtain f1 l1 d1 fr1 where a: "int32_scan a False f l d 0 = (f1, l1, d1, fr1)" by (metis prod_cases4)
  with assms scan_whole [of a f l d 0] have fr: "fr1 = 0" by (auto simp: mantissa_ok_def)
  from assms consider "m = a" "b = []" | "m = a @ CHR ''.'' # b" by (auto simp: mantissa_ok_def)
  then show ?thesis
  proof cases
    case 1
    with a fr show ?thesis by simp
  next
    case 2
    with assms a fr show ?thesis
      by (simp add: scan_append scan_fraction mantissa_ok_def del: int32_scan.simps)
        (simp add: scan_fraction mantissa_ok_def)
  qed
qed

lemma scan_zeros: "zeros z \<Longrightarrow> int32_scan z False f l d fr = (f, l, d + int (length z), fr)"
  by (induction z arbitrary: d) (auto simp: zeros_def)

lemma scan_seen: "list_all is_digit s \<Longrightarrow> 0 \<le> f \<Longrightarrow>
   \<exists>l'. int32_scan s False f l d fr = (f, l', d + int (length s), fr)"
proof (induction s arbitrary: l d)
  case (Cons c s)
  from Cons.prems have "c \<noteq> CHR ''.''" by (auto dest: digit_not_dot)
  with Cons.IH [of "if c \<noteq> CHR ''0'' then d else l" "d + 1"] Cons.prems show ?case
    by (auto simp: algebra_simps)
qed simp

lemma scan_last: "list_all is_digit (s @ [c]) \<Longrightarrow> c \<noteq> CHR ''0'' \<Longrightarrow>
   fst (snd (int32_scan (s @ [c]) False f l d fr)) = d + int (length s)"
  by (induction s arbitrary: f l d) (auto dest: digit_not_dot)

lemma scan_core:
  assumes "list_all is_digit core" "core \<noteq> []" "hd core \<noteq> CHR ''0''" "last core \<noteq> CHR ''0''" "0 \<le> d"
  shows "int32_scan core False (-1) l d fr = (d, d + int (length core) - 1, d + int (length core), fr)"
proof -
  obtain c s where c: "core = c # s" using assms(2) by (cases core) auto
  obtain s' c' where e: "core = s' @ [c']" "c' \<noteq> CHR ''0''" using assms(2,4) by (metis append_butlast_last_id)
  have "fst (snd (int32_scan core False (-1) l d fr)) = d + int (length core) - 1"
    using scan_last [of s' c' "-1" l d fr] e assms(1) by (simp del: int32_scan.simps)
  moreover obtain l' where "int32_scan s False d d (d + 1) fr = (d, l', d + 1 + int (length s), fr)"
    using scan_seen [of s d d "d + 1" fr] c assms(1,5) by auto
  moreover have "int32_scan core False (-1) l d fr = int32_scan s False d d (d + 1) fr"
    using c assms(1,3) by (auto dest: digit_not_dot)
  ultimately show ?thesis
    using c by simp
qed

lemma scan_digits:
  assumes "zeros z" "zeros y" "list_all is_digit core" "core \<noteq> []" "hd core \<noteq> CHR ''0''" "last core \<noteq> CHR ''0''"
  shows "int32_scan (z @ core @ y) False (-1) l 0 fr =
    (int (length z), int (length z) + int (length core) - 1, int (length z) + int (length core) + int (length y), fr)"
proof -
  have "list_all is_digit z" using assms(1) by (rule zeros_digits)
  then show ?thesis
    using assms by (simp add: scan_append scan_zeros scan_core)
qed

text \<open>The second pass.\<close>

lemma value_dots: "int32_value m f l p v = int32_value (filter (\<lambda>c. c \<noteq> CHR ''.'') m) f l p v"
  by (induction m arbitrary: p v) auto

lemma value_outside:
  "list_all is_digit s \<Longrightarrow> p + int (length s) \<le> f \<or> l < p \<Longrightarrow>
   int32_value (s @ t) f l p v = int32_value t f l (p + int (length s)) v"
  by (induction s arbitrary: p) (auto dest: digit_not_dot simp: algebra_simps)

lemma value_inside:
  "list_all is_digit s \<Longrightarrow> f \<le> p \<Longrightarrow> p + int (length s) \<le> l + 1 \<Longrightarrow>
   int32_value (s @ t) f l p v = int32_value t f l (p + int (length s)) (digits_val v s)"
  by (induction s arbitrary: p v) (auto dest: digit_not_dot simp: algebra_simps)

lemma value_digits:
  assumes "zeros z" "zeros y" "list_all is_digit core"
  shows "int32_value (z @ core @ y) (int (length z)) (int (length z) + int (length core) - 1) 0 0 = digits_val 0 core"
proof -
  have "list_all is_digit z" "list_all is_digit y" using assms(1,2) by (simp_all add: zeros_digits)
  then show ?thesis
    using assms(3) value_outside [of z 0 "int (length z)" "int (length z) + int (length core) - 1" "core @ y" 0]
      value_inside [of core "int (length z)" "int (length z)" "int (length z) + int (length core) - 1" y 0]
      value_outside [of y "int (length z) + int (length core)" "int (length z)" "int (length z) + int (length core) - 1" "[]"]
    by simp
qed

section \<open>Values\<close>

lemma digits_val_zeros: "zeros y \<Longrightarrow> digits_val a y = a * 10 ^ length y"
  by (induction y arbitrary: a) (auto simp: zeros_def digit_val_def)

lemma digit_val_pos: "is_digit c \<Longrightarrow> c \<noteq> CHR ''0'' \<Longrightarrow> 1 \<le> digit_val c"
  using digit_val_0 [of c] digit_val_bounds [of c] by auto

lemma core_value:
  assumes "list_all is_digit core" "core \<noteq> []" "hd core \<noteq> CHR ''0''" "last core \<noteq> CHR ''0''"
  shows "10 ^ (length core - 1) \<le> digits_val 0 core" "\<not> 10 dvd digits_val 0 core"
proof -
  obtain c s where c: "core = c # s" using assms(2) by (cases core) auto
  have s: "0 \<le> digits_val 0 s" using c assms(1) by (intro digits_val_nonneg) auto
  from c assms have "1 \<le> digit_val c" by (intro digit_val_pos) auto
  then have "1 * 10 ^ length s \<le> digit_val c * 10 ^ length s" by (rule mult_right_mono) simp
  then have "10 ^ length s \<le> digit_val c * 10 ^ length s + digits_val 0 s" using s by linarith
  with c show "10 ^ (length core - 1) \<le> digits_val 0 core"
    using digits_val_shift [of "digit_val c" s] by simp
  obtain s' c' where e: "core = s' @ [c']" "c' \<noteq> CHR ''0''" using assms(2,4) by (metis append_butlast_last_id)
  then have "is_digit c'" using assms(1) by simp
  then have d: "1 \<le> digit_val c'" "digit_val c' \<le> 9" using e(2) digit_val_pos digit_val_bounds by auto
  have "digits_val 0 core = 10 * digits_val 0 s' + digit_val c'" using e(1) by simp
  with d show "\<not> 10 dvd digits_val 0 core" by presburger
qed

lemma decimal_mantissa:
  assumes "mantissa_ok m a b"
  shows "decimal_val m = of_int (digits_val 0 (a @ b)) / 10 ^ length b"
  using assms str_cut_dot [of a b] no_dot [of a] digits_no_dot [of a]
  by (auto simp: mantissa_ok_def decimal_val_def)

lemma value_mantissa: "mantissa_ok m a b \<Longrightarrow> int32_value m f l p v = int32_value (a @ b) f l p v"
proof -
  assume m: "mantissa_ok m a b"
  then have "filter (\<lambda>c. c \<noteq> CHR ''.'') a = a" "filter (\<lambda>c. c \<noteq> CHR ''.'') b = b"
    by (auto simp: mantissa_ok_def filter_id_conv list_all_iff dest: digit_not_dot)
  with m show ?thesis
    by (subst (1 2) value_dots) (auto simp: mantissa_ok_def)
qed

lemma parse_uint64_big:
  "0 \<le> acc \<Longrightarrow> acc \<le> 18446744073709551615 \<Longrightarrow> list_all is_digit s \<Longrightarrow>
   parse_uint64 acc s = (if digits_val acc s \<le> 18446744073709551615 then Inr (digits_val acc s) else Inl True)"
proof (induction s arbitrary: acc)
  case (Cons c s)
  have d: "0 \<le> digit_val c" using Cons.prems by (simp add: is_digit_def digit_val_def)
  have m: "10 * acc + digit_val c \<le> digits_val (10 * acc + digit_val c) s"
    using Cons.prems d by (intro digits_val_mono) auto
  show ?case
  proof (cases "10 * acc + digit_val c \<le> 18446744073709551615")
    case True
    with Cons.IH [of "10 * acc + digit_val c"] Cons.prems d show ?thesis by simp
  next
    case False
    with Cons.prems m show ?thesis by simp
  qed
qed simp

lemma parse_int32_exponent:
  assumes "exponent_ok s"
  shows "parse_int32 s = (if -2147483648 \<le> exponent_value s \<and> exponent_value s \<le> 2147483647
    then Some (exponent_value s) else None)"
proof -
  from assms obtain sg d where s: "s = sg @ d" "sg = [] \<or> sg = ''+'' \<or> sg = ''-''" "d \<noteq> []" "list_all is_digit d"
    by (auto simp: exponent_ok_def)
  have h: "hd d \<noteq> CHR ''-''" "hd d \<noteq> CHR ''+''" using s(3,4) by (cases d; auto simp: is_digit_def)+
  have n: "0 \<le> digits_val 0 d" using s(4) by (intro digits_val_nonneg) auto
  have p: "parse_uint64 0 d = (if digits_val 0 d \<le> 18446744073709551615 then Inr (digits_val 0 d) else Inl True)"
    using parse_uint64_big [of 0 d] s(4) by simp
  from s(2) consider "sg = []" | "sg = ''+''" | "sg = ''-''" by blast
  then show ?thesis
    by cases (use s(1,3) h n p in \<open>auto simp: parse_int32_def parse_int64_def exponent_value_def Let_def
        has_prefix_iff min_int64_def max_int64_def neq_Nil_conv split: if_splits\<close>)
qed

section \<open>The integers of 32 bits\<close>

text \<open>A mantissa whose digits are a core between zeros, scaled by a power of ten.\<close>

lemma scaled_integer:
  assumes "\<not> 10 dvd v" "(of_int v :: rat) * 10 powi k = of_int n"
  shows "0 \<le> k \<and> n = v * 10 ^ nat k"
proof (cases "0 \<le> k")
  case True
  then have "(of_int n :: rat) = of_int (v * 10 ^ nat k)"
    using assms(2) by (simp add: power_int_def)
  then have "n = v * 10 ^ nat k" by (simp only: of_int_eq_iff)
  with True show ?thesis by simp
next
  case False
  then have "0 < nat (- k)" by simp
  then obtain j where j: "nat (- k) = Suc j" using gr0_conv_Suc by blast
  have "(of_int v :: rat) = of_int n * 10 ^ Suc j"
    using assms(2) False j by (auto simp: power_int_def inverse_eq_divide field_simps)
  also have "\<dots> = of_int (n * 10 ^ Suc j)" by simp
  finally have "v = n * 10 ^ Suc j" by (simp only: of_int_eq_iff)
  then have "10 dvd v" by (metis dvd_mult2 dvd_triv_left mult.commute power_Suc)
  with assms(1) show ?thesis by contradiction
qed

lemma big_scaled:
  assumes "10 ^ (c - 1) \<le> v" "0 < c" "0 \<le> k" "10 < int c + k"
  shows "(10 ^ 10 :: int) \<le> v * 10 ^ nat k"
proof -
  have "(10 :: int) ^ 10 \<le> 10 ^ (c - 1 + nat k)" using assms by (intro power_increasing) auto
  also have "\<dots> = 10 ^ (c - 1) * 10 ^ nat k" by (rule power_add)
  also have "\<dots> \<le> v * 10 ^ nat k" using assms(1) by (intro mult_right_mono) auto
  finally show ?thesis .
qed

text \<open>The arithmetic after the first pass, on the sign, the core value and the scale.\<close>

definition int32_result :: "bool \<Rightarrow> int \<Rightarrow> nat \<Rightarrow> int \<Rightarrow> int option" where
  "int32_result neg v c k =
     (if k < 0 \<or> 10 < int c + k then None
      else let w = v * 10 ^ nat k; n = (if neg then - w else w)
           in if n < -2147483648 \<or> 2147483647 < n then None else Some n)"

lemma int32_result_exact:
  assumes "10 ^ (c - 1) \<le> v" "\<not> 10 dvd v" "0 < c"
  shows "int32_result neg v c k = Some n \<longleftrightarrow>
    (if neg then - ((of_int v :: rat) * 10 powi k) else of_int v * 10 powi k) = of_int n \<and>
    -2147483648 \<le> n \<and> n \<le> 2147483647"
proof -
  let ?q = "(of_int v :: rat) * 10 powi k"
  have q: "?q = of_int m \<longleftrightarrow> 0 \<le> k \<and> m = v * 10 ^ nat k" for m
    using scaled_integer [OF assms(2), of k m] by (auto simp: power_int_def)
  have "(if neg then - ?q else ?q) = of_int n \<longleftrightarrow> ?q = of_int (if neg then - n else n)"
    by (auto simp: minus_equation_iff eq_commute)
  also have "\<dots> \<longleftrightarrow> 0 \<le> k \<and> (if neg then - n else n) = v * 10 ^ nat k" by (rule q)
  finally have e: "(if neg then - ?q else ?q) = of_int n \<longleftrightarrow> 0 \<le> k \<and> n = (if neg then - (v * 10 ^ nat k) else v * 10 ^ nat k)"
    by auto
  show ?thesis
  proof (cases "0 \<le> k \<and> 10 < int c + k")
    case True
    with big_scaled [OF assms(1,3)] have "10000000000 \<le> v * 10 ^ nat k" by simp
    with True show ?thesis unfolding e by (auto simp: int32_result_def)
  next
    case False
    then show ?thesis unfolding e by (auto simp: int32_result_def Let_def)
  qed
qed

text \<open>The text without its sign, as the code splits it.\<close>

lemma split_exponent:
  assumes "mantissa_ok m a b" "tail_form u"
  shows "takeWhile (\<lambda>c. \<not> exp_char c) (m @ u) = m" and "u = [] \<or> drop (length m + 1) (m @ u) = tl u"
    and "u \<noteq> [] \<longrightarrow> exponent_ok (tl u)"
proof -
  have "\<forall>c \<in> set m. \<not> exp_char c"
  proof
    fix c assume "c \<in> set m"
    then have "is_digit c \<or> c = CHR ''.''" using assms(1) by (auto simp: mantissa_ok_def list_all_iff)
    then show "\<not> exp_char c" by (auto dest: digit_not_exp simp: exp_char_def)
  qed
  then show "takeWhile (\<lambda>c. \<not> exp_char c) (m @ u) = m"
    using assms(2) by (subst takeWhile_append2) (auto simp: tail_form_def)
qed (use assms(2) in \<open>auto simp: tail_form_def\<close>)

lemma mantissa_length: "mantissa_ok m a b \<Longrightarrow> length b \<le> length m \<and> length (a @ b) \<le> length m"
  by (auto simp: mantissa_ok_def)

lemma scaled_mantissa:
  assumes "mantissa_ok m a b" "a @ b = z @ core @ y" "zeros z" "zeros y"
  shows "decimal_val m * 10 powi e = of_int (digits_val 0 core) * 10 powi (e - int (length b) + int (length y))"
proof -
  have "digits_val 0 (a @ b) = digits_val 0 core * 10 ^ length y"
    unfolding assms(2) using assms(3,4) by (simp add: digits_val_zeros)
  then show ?thesis
    unfolding decimal_mantissa [OF assms(1)]
    by (simp add: power_int_add power_int_diff power_int_of_nat field_simps)
qed

lemma int32_of_number_exact:
  assumes "num_ok t" "length t \<le> 1000000000"
  shows "int32_of_number t = Some n \<longleftrightarrow>
    number_value t = of_int n \<and> -2147483648 \<le> n \<and> n \<le> 2147483647"
proof -
  obtain neg m a b u where t: "t = (if neg then CHR ''-'' # m @ u else m @ u)" and m: "mantissa_ok m a b"
    and u: "tail_form u" and ne: "m \<noteq> []" "is_digit (hd m)"
    by (rule number_form [OF assms(1)])
  note sp = split_exponent [OF m u]
  define ex where "ex = (if u = [] then ''0'' else tl u)"
  have neg: "has_prefix t ''-'' = neg" "(if neg then tl t else t) = m @ u"
    using t ne by (cases m; auto simp: has_prefix_iff is_digit_def)+
  have z: "exponent_ok ''0''" "exponent_value ''0'' = 0"
    unfolding exponent_ok_def
    by (intro exI [of _ "[]"] exI [of _ "''0''"]) (simp_all add: is_digit_def exponent_value_def has_prefix_iff digit_val_def)
  have ex: "exponent_ok ex" "(if m = m @ u then ''0'' else drop (length m + 1) (m @ u)) = ex"
    "(if m = m @ u then 0 else exponent_value (drop (length m + 1) (m @ u))) = exponent_value ex"
    using sp(2,3) z by (cases "u = []"; simp add: ex_def del: drop_append)+
  define e where "e = exponent_value ex"
  have nv: "number_value t = (if neg then - (decimal_val m * 10 powi e) else decimal_val m * 10 powi e)"
    unfolding number_value_def Let_def neg sp(1) ex(3) e_def ..
  have len: "int (length b) \<le> 1000000000" "int (length (a @ b)) \<le> 1000000000"
    using mantissa_length [OF m] assms(2) t by (auto split: if_splits)
  have io: "int32_of_number t = (case int32_scan m False (-1) (-1) 0 0 of
      (first, l, digits, fraction) \<Rightarrow>
        if first < 0 then Some 0
        else (case parse_int32 ex of None \<Rightarrow> None
              | Some exponent \<Rightarrow>
                  let scale = exponent - fraction + (digits - l - 1) in
                  if scale < 0 \<or> 10 < l - first + 1 + scale then None
                  else let v = int32_value m first l 0 0 * 10 ^ nat scale; n = (if neg then - v else v)
                       in if n < -2147483648 \<or> 2147483647 < n then None else Some n))"
    unfolding int32_of_number_def Let_def neg sp(1) ex(2) by simp
  show ?thesis
  proof (cases "zeros (a @ b)")
    case True
    then have "int32_of_number t = Some 0"
      unfolding io scan_mantissa [OF m] by (simp add: scan_zeros)
    moreover have "number_value t = 0"
      unfolding nv decimal_mantissa [OF m] digits_val_zeros [OF True] by simp
    ultimately show ?thesis by auto
  next
    case False
    have "list_all is_digit (a @ b)" using m by (simp add: mantissa_ok_def)
    from core_split [OF this False] obtain z core y where c: "a @ b = z @ core @ y" "zeros z" "zeros y"
      "core \<noteq> []" "hd core \<noteq> CHR ''0''" "last core \<noteq> CHR ''0''" "list_all is_digit core" .
    note cv = core_value [OF c(7,4,5,6)]
    define k where "k = e - int (length b) + int (length y)"
    have io2: "int32_of_number t =
        (case parse_int32 ex of None \<Rightarrow> None | Some x \<Rightarrow> int32_result neg (digits_val 0 core) (length core) k)"
    proof (cases "parse_int32 ex")
      case (Some x)
      then have x: "x = e" using parse_int32_exponent [OF ex(1)] by (simp add: e_def split: if_splits)
      have scale: "e - int (length b) + (int (length z) + int (length core) + int (length y) -
          (int (length z) + int (length core) - 1) - 1) = k"
        "int (length z) + int (length core) - 1 - int (length z) + 1 = int (length core)"
        "(int (length z) < 0) = False"
        by (simp_all add: k_def)
      show ?thesis
        unfolding io scan_mantissa [OF m] value_mantissa [OF m] c(1) scan_digits [OF c(2,3,7,4,5,6)]
          prod.case Some option.case x Let_def scale value_digits [OF c(2,3,7)] int32_result_def
        by (simp only: if_False)
    qed (simp add: io scan_mantissa [OF m] c(1) scan_digits [OF c(2,3,7,4,5,6)])
    have "int32_of_number t = int32_result neg (digits_val 0 core) (length core) k"
    proof (cases "parse_int32 ex")
      case None
      then have "e < -2147483648 \<or> 2147483647 < e" using parse_int32_exponent [OF ex(1)] by (auto simp: e_def split: if_splits)
      moreover have "int (length y) \<le> 1000000000" using len(2) c(1) by simp
      ultimately have "k < 0 \<or> 10 < int (length core) + k" using len(1) by (auto simp: k_def)
      with io2 None show ?thesis by (simp add: int32_result_def)
    qed (simp add: io2)
    also have "\<dots> = Some n \<longleftrightarrow> number_value t = of_int n \<and> -2147483648 \<le> n \<and> n \<le> 2147483647"
      unfolding nv scaled_mantissa [OF m c(1,2,3)] k_def [symmetric]
      by (rule int32_result_exact [OF cv]) (use c(4) in simp)
    finally show ?thesis .
  qed
qed

text \<open>
  The decimal arithmetic of the Gemini integers is exact: a JSON number (of up to a
  billion characters), written with a fraction or an exponent or not, bare or quoted, is
  accepted exactly when its value is an integer of 32 bits, and that integer is returned.
\<close>

theorem gemini_int32_exact:
  assumes "num_ok t" "length t \<le> 1000000000" "unquote b = t"
  shows "(geminiInt32 (JNum t) = Some n \<longleftrightarrow>
      number_value t = of_int n \<and> -2147483648 \<le> n \<and> n \<le> 2147483647) \<and>
    geminiInt32 (JStr b) = geminiInt32 (JNum t)"
  using int32_of_number_exact [OF assms(1,2)] assms(1,3) by (simp add: geminiInt32_def)

theorem gemini_int32_exact_witness:
  "geminiInt32 (JStr ''-2.50e3'') = Some (-2500) \<and> geminiInt32 (JNum ''25e-1'') = None"
proof -
  have v: "number_value ''-2.50e3'' = of_int (-2500)" by code_simp
  have w: "number_value ''25e-1'' = 5 / 2" by code_simp
  have u: "unquote ''-2.50e3'' = ''-2.50e3''" "unquote ''25e-1'' = ''25e-1''" by code_simp+
  have o: "num_ok ''-2.50e3''" "num_ok ''25e-1''" by code_simp+
  have "of_int n \<noteq> (5 / 2 :: rat)" for n
  proof
    assume "of_int n = (5 / 2 :: rat)"
    then have "(of_int (2 * n) :: rat) = of_int 5" by simp
    then have "2 * n = 5" by (simp only: of_int_eq_iff)
    then show False by presburger
  qed
  then have "geminiInt32 (JNum ''25e-1'') \<noteq> Some n" for n
    using gemini_int32_exact [OF o(2) _ u(2), of n] w by auto
  then show ?thesis using gemini_int32_exact [OF o(1) _ u(1), of "-2500"] v by auto
qed

end
