(* ===== verification/Systemone.thy ===== *)
theory Systemone
  imports Responses_Errors Json_Wf
begin

text \<open>
  The System One route (systemone.go): the classification of its HTTP errors by status,
  the identity of an error body, the delay headers and the metadata of an answer.
\<close>

section \<open>strconv.ParseFloat\<close>

text \<open>
  The mantissa: digits, hexadecimal ones in base 16, underscores, at most one point. The
  result: whether a digit was seen, the value of the digits and how many of them follow
  the point; and the rest of the text.
\<close>

fun float_mantissa :: "int \<Rightarrow> bytes \<Rightarrow> bool \<Rightarrow> bool \<Rightarrow> int \<Rightarrow> nat \<Rightarrow> (bool \<times> int \<times> nat) \<times> bytes" where
  "float_mantissa base [] dot seen m fr = ((seen, m, fr), [])"
| "float_mantissa base (c # s) dot seen m fr =
     (if c = CHR ''_'' then float_mantissa base s dot seen m fr
      else if c = CHR ''.'' then
        (if dot then ((seen, m, fr), c # s) else float_mantissa base s True seen m fr)
      else if is_digit c then
        float_mantissa base s dot True (m * base + digit_val c) (if dot then fr + 1 else fr)
      else if base = 16 \<and> hex_digit c then
        float_mantissa base s dot True (m * base + hex_val c) (if dot then fr + 1 else fr)
      else ((seen, m, fr), c # s))"

text \<open>The digits of the exponent; the value stops growing at five digits.\<close>

fun float_exponent :: "bytes \<Rightarrow> int \<Rightarrow> int \<times> bytes" where
  "float_exponent [] e = (e, [])"
| "float_exponent (c # s) e =
     (if c = CHR ''_'' then float_exponent s e
      else if is_digit c then float_exponent s (if e < 10000 then e * 10 + digit_val c else e)
      else (e, c # s))"

text \<open>Underscores may only separate digits; a base prefix counts as one.\<close>

datatype under_prev = AtStart | Digit0 | Under | Other

fun underscores_from :: "bool \<Rightarrow> bytes \<Rightarrow> under_prev \<Rightarrow> bool" where
  "underscores_from hex [] p = (p \<noteq> Under)"
| "underscores_from hex (c # s) p =
     (if is_digit c \<or> (hex \<and> hex_digit c) then underscores_from hex s Digit0
      else if c = CHR ''_'' then (if p \<noteq> Digit0 then False else underscores_from hex s Under)
      else if p = Under then False
      else underscores_from hex s Other)"

definition unsigned :: "bytes \<Rightarrow> bytes" where
  "unsigned s = (if has_prefix s ''+'' \<or> has_prefix s ''-'' then tl s else s)"

definition is_hex_float :: "bytes \<Rightarrow> bool" where
  "is_hex_float t = (2 < length t \<and> (has_prefix t ''0x'' \<or> has_prefix t ''0X''))"

definition underscoreOK :: "bytes \<Rightarrow> bool" where
  "underscoreOK s =
     (let t = unsigned s;
          prefixed = list_ex (has_prefix t) [''0b'', ''0B'', ''0o'', ''0O'', ''0x'', ''0X'']
      in if prefixed then underscores_from (has_prefix t ''0x'' \<or> has_prefix t ''0X'') (drop 2 t) Digit0
         else underscores_from False t AtStart)"

text \<open>
  The exponent part of a literal, \<open>None\<close> when it is malformed or something follows it. A
  hexadecimal literal must have one.
\<close>

definition float_scale :: "bool \<Rightarrow> bytes \<Rightarrow> int option" where
  "float_scale hex r =
     (case r of
        [] \<Rightarrow> if hex then None else Some 0
      | c # u \<Rightarrow>
          if to_lower [c] \<noteq> (if hex then ''p'' else ''e'') then None
          else let d = unsigned u in
            if d = [] \<or> \<not> is_digit (hd d) then None
            else (case float_exponent d 0 of
                    (e, []) \<Rightarrow> Some (if has_prefix u ''-'' then - e else e)
                  | _ \<Rightarrow> None))"

text \<open>
  A finite result; \<open>None\<close> stands for an error, an infinity and a NaN alike. The value of
  the literal is rounded once.
\<close>

definition ParseFloat :: "bytes \<Rightarrow> rat option" where
  "ParseFloat s =
     (let t = unsigned s; hex = is_hex_float t in
      case float_mantissa (if hex then 16 else 10) (if hex then drop 2 t else t) False False 0 0 of
        ((seen, m, fr), r) \<Rightarrow>
          if \<not> seen \<or> (CHR ''_'' \<in> set s \<and> \<not> underscoreOK s) then None
          else (case float_scale hex r of
                  None \<Rightarrow> None
                | Some e \<Rightarrow>
                    let v = fl (of_int m / (if hex then 16 else 10) ^ fr * (if hex then pow2 e else 10 powi e))
                    in if 1024 \<le> log2_floor v then None
                       else Some (if has_prefix s ''-'' then - v else v)))"

section \<open>Errors\<close>

definition systemOneJSONString :: "json option \<Rightarrow> bytes" where
  "systemOneJSONString raw = (case raw of Some (JStr b) \<Rightarrow> unquote b | _ \<Rightarrow> [])"

definition identity_of :: "(bytes \<rightharpoonup> json) \<Rightarrow> bytes \<times> bytes \<times> bytes" where
  "identity_of fs = (systemOneJSONString (fs ''type''), systemOneJSONString (fs ''code''),
     systemOneJSONString (fs ''message''))"

definition systemOneErrorIdentity :: "bytes \<Rightarrow> bytes \<times> bytes \<times> bytes" where
  "systemOneErrorIdentity body =
     (case Option.bind (json_parse body) raw_map of
        None \<Rightarrow> ([], [], [])
      | Some envelope \<Rightarrow>
          let gateway = (case Option.bind (envelope ''error'') raw_map of
                           None \<Rightarrow> ([], [], []) | Some fs \<Rightarrow> identity_of fs)
          in (case envelope ''detail'' of
                Some (JStr b) \<Rightarrow> ([], [], unquote b)
              | Some (JObj ms) \<Rightarrow> (case raw_map (JObj ms) of None \<Rightarrow> gateway | Some fs \<Rightarrow> identity_of fs)
              | _ \<Rightarrow> gateway))"

definition systemOneRetryAfterSeconds :: "env \<Rightarrow> header \<Rightarrow> int" where
  "systemOneRetryAfterSeconds E h =
     (case ParseFloat (trim_space (header_get h ''retry-after-ms'')) of
        None \<Rightarrow> retryAfterSeconds E (header_get h ''Retry-After'')
      | Some ms \<Rightarrow>
          if ms < 0 then retryAfterSeconds E (header_get h ''Retry-After'')
          else if ms = 0 then 0
          else let seconds = \<lceil>fl (ms / 1000)\<rceil> in
            if seconds < 1 then 1 else if max_int64 + 1 \<le> seconds then max_int64 else seconds)"

definition classifySystemOneHTTPErrorBytes :: "env \<Rightarrow> int \<Rightarrow> header \<Rightarrow> bytes \<Rightarrow> failure" where
  "classifySystemOneHTTPErrorBytes E st h b =
     (if 300 \<le> st \<and> st < 400 then classifyHTTPErrorBytesShaped E st h [] (\<lambda>_ _ _ _. verdictUnknown)
      else case systemOneErrorIdentity b of (typ, code, message) \<Rightarrow>
        let f0 = failure0\<lparr>f_status := st, f_atype := (if typ = [] then ''api_error'' else typ),
              f_code := ''http_'' @ itoa st, f_message := message, f_origType := typ, f_origCode := code\<rparr>;
            f = (case httpRetryHint h of
                   Some (source, retry) \<Rightarrow>
                     f0\<lparr>f_transient := retry,
                        f_code := (if source = ''x-gateway-retryable''
                                   then (if retry then ''gateway_retryable_'' @ itoa st else ''gateway_permanent'')
                                   else (if retry then ''upstream_retry_'' @ itoa st else ''upstream_no_retry'')),
                        f_status := (if retry then mapTransientStatus st else st)\<rparr>
                 | None \<Rightarrow>
                     f0\<lparr>f_transient := (st = 408 \<or> st = 429 \<or> (500 \<le> st \<and> st \<le> 599))\<rparr>)
        in if f_transient f then f\<lparr>f_retryAfter := systemOneRetryAfterSeconds E h\<rparr> else f)"

section \<open>Metadata of an answer\<close>

record systemOneMetadata =
  sm_model :: bytes
  sm_inputTokens :: "int option"
  sm_outputTokens :: "int option"

definition systemOneTokenCount :: "json option \<Rightarrow> int option" where
  "systemOneTokenCount raw =
     (case raw of
        Some (JNum t) \<Rightarrow> (case parse_int64 t of Inr n \<Rightarrow> if n < 0 then None else Some n | Inl _ \<Rightarrow> None)
      | _ \<Rightarrow> None)"

definition systemOneResponseMetadata :: "bytes \<Rightarrow> systemOneMetadata" where
  "systemOneResponseMetadata body =
     (case Option.bind (json_parse body) raw_map of
        None \<Rightarrow> \<lparr>sm_model = [], sm_inputTokens = None, sm_outputTokens = None\<rparr>
      | Some fs \<Rightarrow>
          (case Option.bind (fs ''usage'') raw_map of
             None \<Rightarrow> \<lparr>sm_model = systemOneJSONString (fs ''model''), sm_inputTokens = None, sm_outputTokens = None\<rparr>
           | Some usage \<Rightarrow>
               \<lparr>sm_model = systemOneJSONString (fs ''model''),
                sm_inputTokens = systemOneTokenCount (usage ''input_tokens''),
                sm_outputTokens = systemOneTokenCount (usage ''output_tokens'')\<rparr>))"

section \<open>What decides a retry\<close>

text \<open>
  On the System One route an error is retried by its status alone: 408, 429 and 500 to
  599 (not 409), unless an authoritative header says otherwise; redirects are final, and
  nothing in the body changes the verdict.
\<close>

theorem systemone_status_decides:
  "f_transient (classifySystemOneHTTPErrorBytes E st h b) =
     (if 300 \<le> st \<and> st < 400 then False
      else case httpRetryHint h of
             Some (source, retry) \<Rightarrow> retry
           | None \<Rightarrow> st \<in> {408, 429} \<or> (500 \<le> st \<and> st \<le> 599))"
proof -
  have t: "f_transient (if f_transient f then f\<lparr>f_retryAfter := x\<rparr> else f) = f_transient f" for f x
    by simp
  show ?thesis
    by (auto simp: classifySystemOneHTTPErrorBytes_def Let_def t classifyHTTPErrorBytesShaped_def failRedirect_def
        split: prod.splits option.splits)
qed

section \<open>Advertised milliseconds\<close>

lemma float_mantissa_digits:
  "list_all is_digit s \<Longrightarrow> float_mantissa 10 s False seen m fr = ((seen \<or> s \<noteq> [], digits_val m s, fr), [])"
proof (induction s arbitrary: seen m)
  case (Cons c s)
  from Cons.prems have "c \<noteq> CHR ''_''" "c \<noteq> CHR ''.''" by (auto simp: is_digit_def)
  with Cons show ?case by (simp add: mult.commute)
qed simp

lemma ParseFloat_digits:
  assumes "list_all is_digit s" "s \<noteq> []" "digits_val 0 s < 2 ^ 49"
  shows "ParseFloat s = Some (of_int (digits_val 0 s))"
proof -
  obtain c t where c: "s = c # t" "is_digit c" "list_all is_digit t" using assms(1,2) by (cases s) auto
  have u: "unsigned s = s" "\<not> has_prefix s ''-''"
    using c by (auto simp: unsigned_def is_digit_def has_prefix_iff)
  have h: "\<not> is_hex_float s"
    using c by (cases t) (auto simp: is_hex_float_def is_digit_def has_prefix_iff)
  have n: "CHR ''_'' \<notin> set s" using assms(1) by (auto simp: list_all_iff is_digit_def)
  have v: "0 \<le> digits_val 0 s" using assms(1) by (intro digits_val_nonneg) auto
  have f: "fl (of_int (digits_val 0 s)) = of_int (digits_val 0 s)" using v assms(3) by (rule fl_int)
  have l: "log2_floor (of_int (digits_val 0 s)) < 1024"
  proof (cases "digits_val 0 s = 0")
    case True
    show ?thesis unfolding True by code_simp
  next
    case False
    have "(of_int (digits_val 0 s) :: rat) < of_int (2 ^ 49)" using assms(3) by (simp only: of_int_less_iff)
    with v False log2_floor_bound [of "of_int (digits_val 0 s)" 49] show ?thesis by simp
  qed
  show ?thesis
    using assms(2) l by (simp add: ParseFloat_def u h n float_mantissa_digits [OF assms(1)] float_scale_def f)
qed

text \<open>
  A delay of whole milliseconds (below 2 to the 49) is waited in whole seconds rounded
  up, although the division by 1000 is done in binary floating point: never earlier than
  advertised, and less than a second later.
\<close>

theorem systemone_delay_rounds_up:
  assumes "trim_space (header_get h ''retry-after-ms'') = s" "list_all is_digit s" "s \<noteq> []"
    and "0 < digits_val 0 s" "digits_val 0 s < 2 ^ 49"
  shows "systemOneRetryAfterSeconds E h = (digits_val 0 s + 999) div 1000"
proof -
  define n where "n = digits_val 0 s"
  define k where "k = (n + 999) div 1000"
  have k: "1000 * (k - 1) + 1 \<le> n" "n \<le> 1000 * k" "1 \<le> k" "k < max_int64"
    using assms(4,5) by (auto simp: k_def n_def max_int64_def)
  have up: "(of_int n :: rat) / 1000 \<le> of_int (1024 * k) / 2 ^ 10"
  proof -
    have "(of_int n :: rat) \<le> of_int (1000 * k)" using k(2) by (simp only: of_int_le_iff)
    then show ?thesis by simp
  qed
  have lo: "of_int (1024 * (k - 1) + 1) / 2 ^ 10 \<le> (of_int n :: rat) / 1000"
  proof -
    have "(of_int (1000 * (k - 1) + 1) :: rat) \<le> of_int n" using k(1) by (simp only: of_int_le_iff)
    then have "of_int (k - 1) + 1 / 1000 \<le> (of_int n :: rat) / 1000" by (simp add: field_simps)
    moreover have "(of_int (1024 * (k - 1) + 1) :: rat) / 2 ^ 10 = of_int (k - 1) + 1 / 1024" by (simp add: field_simps)
    ultimately show ?thesis by linarith
  qed
  have small: "(of_int n :: rat) / 1000 < 2 ^ 42"
  proof -
    have "(of_int n :: rat) < of_int (2 ^ 49)" using assms(5) unfolding n_def by (simp only: of_int_less_iff)
    then show ?thesis by simp
  qed
  have pos: "0 \<le> (of_int n :: rat) / 1000" using assms(4) by (simp add: n_def)
  have "of_int (1024 * (k - 1) + 1) / 2 ^ 10 \<le> fl (of_int n / 1000) \<and> fl (of_int n / 1000) \<le> of_int (1024 * k) / 2 ^ 10"
    by (rule fl_grid [OF pos small _ lo up]) simp
  then have "\<lceil>fl (of_int n / 1000)\<rceil> = k" by (intro ceiling_unique) (simp_all add: field_simps)
  then show ?thesis
    using k(3,4) assms(4) ParseFloat_digits [OF assms(2,3,5)]
    by (simp add: systemOneRetryAfterSeconds_def assms(1) Let_def n_def k_def)
qed

theorem systemone_delay_rounds_up_witness:
  "systemOneRetryAfterSeconds example_env [''Retry-After-Ms'' \<mapsto> [''1001'']] = 2"
proof -
  have k: "canonical_key ''retry-after-ms'' = ''Retry-After-Ms''" by code_simp
  have t: "trim_space ''1001'' = ''1001''" by code_simp
  have "trim_space (header_get [''Retry-After-Ms'' \<mapsto> [''1001'']] ''retry-after-ms'') = ''1001''"
    by (simp add: header_get_def header_values_def k t)
  from systemone_delay_rounds_up [OF this, of example_env] show ?thesis
    by (simp add: is_digit_def digit_val_def)
qed

end
