(* ===== verification/Held.thy ===== *)
theory Held
  imports Anthropic_Wire Responses_Wire Gemini_Wire
begin

text \<open>
  The three wires as the handler relies on them: besides the laws of the engine, none of
  them touches the refusal the engine holds back, so a capture that wrote anything holds
  none.
\<close>

definition unheld :: "'m result + 'm engine \<Rightarrow> bool" where
  "unheld x = (case x of Inl (wrote, f, s) \<Rightarrow> wrote \<longrightarrow> st_heldRefusal (e_st s) = None
                       | Inr s \<Rightarrow> st_heldRefusal (e_st s) = None)"

locale stats_wire = wire_laws W for W :: "'m wire" +
  assumes scrape_held: "st_heldRefusal (wm_scrape W ev st) = st_heldRefusal st"
    and buffered_held: "wm_buffered W m ev st = (m', st', dn, f) \<Longrightarrow> st_heldRefusal st' = st_heldRefusal st"
    and live_held: "wm_live W m ev raw st = (m', st', out, dn, f) \<Longrightarrow> st_heldRefusal st' = st_heldRefusal st"
begin

lemma replayCaptured_held: "replayCaptured G s = (s', f) \<Longrightarrow> st_heldRefusal (e_st s') = st_heldRefusal (e_st s)"
  by (auto simp: replayCaptured_def Let_def writeHead_def writeStreamHead_def split: prod.splits option.splits if_splits)

lemma commitLive_held: "commitLive G s = (s', f) \<Longrightarrow> st_heldRefusal (e_st s') = st_heldRefusal (e_st s)"
  by (auto simp: commitLive_def Let_def writeHead_def writeStreamHead_def split: prod.splits option.splits if_splits)

lemma spool_ev_held: "spool_ev G ev s = (s', f) \<Longrightarrow> e_st s' = e_st s"
  by (auto simp: spool_ev_def split: prod.splits option.splits)

lemma process_event_held:
  assumes "g_wire G = W" "st_heldRefusal (e_st s) = None"
  shows "unheld (process_event G ev s)"
proof -
  define t where "t = s\<lparr>e_st := wm_scrape (g_wire G) ev (count_event ev (e_st s))\<rparr>"
  have t: "st_heldRefusal (e_st t) = None"
    using assms by (simp add: t_def scrape_held count_event_def Let_def)
  have l: "unheld (process_live G ev t)"
    using t live_held assms(1)
    by (auto simp: process_live_def unheld_def Let_def split: prod.splits option.splits)
  obtain m st dn fail where b: "wm_buffered (g_wire G) (e_model t) ev (e_st t) = (m, st, dn, fail)"
    by (metis prod_cases4)
  have st: "st_heldRefusal st = None" using buffered_held [of _ _ _ m st dn fail] b assms(1) t by metis
  have u: "st_heldRefusal (e_st u) = None" if "spool_ev G ev (t\<lparr>e_model := m, e_st := st\<rparr>) = (u, bf)" for u bf
    using spool_ev_held [OF that] st by simp
  have "unheld (process_buffered G ev t)"
    using u st
    by (auto simp: process_buffered_def b unheld_def Let_def dest!: replayCaptured_held split: prod.splits option.splits)
  with l show ?thesis unfolding process_event_def Let_def t_def [symmetric] by (simp add: t_def)
qed

lemma process_held:
  "g_wire G = W \<Longrightarrow> st_heldRefusal (e_st s) = None \<Longrightarrow> unheld (process G evs s)"
proof (induction evs arbitrary: s)
  case (Cons ev evs)
  note e = process_event_held [OF Cons.prems, of ev]
  show ?case
  proof (cases "process_event G ev s")
    case (Inr t)
    with e have "st_heldRefusal (e_st t) = None" by (simp add: unheld_def)
    from Cons.IH [OF Cons.prems(1) this] Inr show ?thesis by simp
  qed (use e in simp)
qed (auto simp: unheld_def split: option.splits)

lemma capture_step_held:
  assumes "g_wire G = W" "st_heldRefusal (e_st s) = None"
  shows "unheld (capture_step G i s)"
proof (cases i)
  case (Read data err ctx)
  define s1 where "s1 = (case err of
      Some e \<Rightarrow> if e \<noteq> EOF then s\<lparr>e_st := (e_st s)\<lparr>st_readErr := Some e\<rparr>\<rparr> else s | None \<Rightarrow> s)"
  obtain p events where p: "feedChunk (e_parser s1) data (err \<noteq> None) = (p, events)" by force
  have "st_heldRefusal (e_st (s1\<lparr>e_parser := p\<rparr>)) = None"
    using assms(2) by (auto simp: s1_def split: option.splits)
  note pr = process_held [OF assms(1) this, of events]
  show ?thesis
  proof (cases "process G events (s1\<lparr>e_parser := p\<rparr>)")
    case (Inl r)
    with pr p Read show ?thesis by (simp add: on_read_def s1_def [symmetric] Let_def unheld_def)
  next
    case (Inr t)
    with pr have t: "st_heldRefusal (e_st t) = None" by (simp add: unheld_def)
    have r: "replayCaptured G t = (t', f) \<Longrightarrow> st_heldRefusal (e_st t') = None"
        "commitLive G t = (t', f) \<Longrightarrow> st_heldRefusal (e_st t') = None" for t' f
      using replayCaptured_held commitLive_held t by metis+
    show ?thesis
      using Inr p t r Read
      by (auto simp: on_read_def s1_def [symmetric] Let_def unheld_def split: option.splits prod.splits if_splits)
  qed
next
  case KeepTick
  have r: "commitLive G (s\<lparr>e_grace := True\<rparr>) = (t', f) \<Longrightarrow> st_heldRefusal (e_st t') = None" for t' f
    using commitLive_held [of G "s\<lparr>e_grace := True\<rparr>"] assms(2) by simp
  with KeepTick assms(2) show ?thesis
    by (auto simp: on_keep_def Let_def unheld_def send_keepalive_def split: prod.splits option.splits)
qed (use assms(2) in \<open>auto simp: unheld_def give_up_def\<close>)

lemma capture_held:
  assumes "g_wire G = W" "captureSSECore G m w st inputs = Inl (True, f, s)" "st_heldRefusal st = None"
  shows "st_heldRefusal (e_st s) = None"
proof -
  have "st_heldRefusal (e_st t) = None \<Longrightarrow> unheld (capture_run G is t)" for "is" t
  proof (induction "is" arbitrary: t)
    case (Cons i "is")
    note e = capture_step_held [OF assms(1) Cons.prems, of i]
    show ?case
    proof (cases "capture_step G i t")
      case (Inr u)
      with e have "st_heldRefusal (e_st u) = None" by (simp add: unheld_def)
      from Cons.IH [OF this] Inr show ?thesis by simp
    qed (use e in simp)
  qed (simp add: unheld_def)
  from this [of "engine0 G m w st" inputs] assms(2,3) show ?thesis
    by (simp add: captureSSECore_def engine0_def unheld_def)
qed

end

section \<open>The wires\<close>

lemmas push_held = if_distrib [of st_heldRefusal] prod.case_distrib [of st_heldRefusal] bool.case_distrib [of st_heldRefusal]

lemma setInputUsage_held [simp]: "st_heldRefusal (setInputUsage a b c st) = st_heldRefusal st"
  by (simp add: setInputUsage_def)

lemma scrapeUsage_held: "st_heldRefusal (scrapeUsage ev st) = st_heldRefusal st"
  unfolding scrapeUsage_def Let_def by (simp add: push_held case_prod_unfold split: bool.split)

lemma openai_scrape_held: "st_heldRefusal (openai_scrape ev st) = st_heldRefusal st"
  unfolding openai_scrape_def Let_def by (simp add: push_held case_prod_unfold split: bool.split)

lemma accept_candidates_held:
  "accept_candidates cs g st = (g', st', f) \<Longrightarrow> st_heldRefusal st' = st_heldRefusal st"
proof (induction cs g st rule: accept_candidates.induct)
  case (3 c cs g st)
  then show ?case by (auto simp: Let_def note_finish_def split: if_splits prod.splits)
qed auto

lemma gemini_accept_held: "gemini_accept E g ev st = (g', st', f) \<Longrightarrow> st_heldRefusal st' = st_heldRefusal st"
proof -
  have u: "st_heldRefusal (snd (accept_usage us h s)) = st_heldRefusal s" for us h s
    by (simp add: accept_usage_def Let_def split: option.split)
  have fb: "st_heldRefusal (snd (accept_feedback r h s)) = st_heldRefusal s" for r h s
    by (simp add: accept_feedback_def split: option.split)
  have "accept_chunk c g st = (g', st', f) \<Longrightarrow> st_heldRefusal st' = st_heldRefusal st" for c
  proof -
    obtain g1 s1 f1 where c: "accept_candidates (gk_candidates c)
        (g\<lparr>gw_chunk := (gw_chunk g + 1) mod 18446744073709551616\<rparr>) st = (g1, s1, f1)" by (metis prod_cases3)
    obtain g2 s2 where b: "accept_feedback (gk_promptFeedback c) g1 s1 = (g2, s2)" by (metis surj_pair)
    obtain g3 s3 where d: "accept_usage (gk_usage c) g2
        (if gk_modelVersion c \<noteq> [] then s2\<lparr>st_model := gk_modelVersion c\<rparr> else s2) = (g3, s3)" by (metis surj_pair)
    have "st_heldRefusal s1 = st_heldRefusal st" by (rule accept_candidates_held [OF c])
    moreover have "st_heldRefusal s2 = st_heldRefusal s1" using fb [of "gk_promptFeedback c" g1 s1] b by simp
    moreover have "st_heldRefusal s3 = st_heldRefusal s2"
      using arg_cong [OF d, of "\<lambda>p. st_heldRefusal (snd p)"] by (simp add: u split: if_splits)
    moreover assume "accept_chunk c g st = (g', st', f)"
    ultimately show ?thesis by (cases f1) (simp_all add: accept_chunk_def Let_def b c d)
  qed
  then show "gemini_accept E g ev st = (g', st', f) \<Longrightarrow> ?thesis"
    by (auto simp: gemini_accept_def Let_def split: if_splits option.splits)
qed

interpretation an_stats: stats_wire "anthropic_wire renum cfg rd" for renum and cfg :: config and rd :: spool_rd
  by unfold_locales
    (auto simp: anthropic_wire_def scrapeUsage_held anthropic_buffered_def anthropic_live_def Let_def
      split: option.splits prod.splits if_splits sum.splits)

interpretation oa_stats: stats_wire "openai_wire rd" for rd :: spool_rd
  by unfold_locales
    (auto simp: openai_wire_def openai_scrape_held openai_buffered_def openai_live_def Let_def
      split: prod.splits if_splits)

interpretation gm_stats: stats_wire "gemini_wire E rd" for E :: env and rd :: spool_rd
  by unfold_locales
    (auto simp: gemini_wire_def gemini_buffered_def gemini_live_def Let_def dest: gemini_accept_held
      split: prod.splits if_splits option.splits)

end
