(* ===== verification/Request.thy ===== *)
theory Request
  imports Json_Wf Replay Gemini_Json Config Routes Http
begin

text \<open>
  What the proxy reads of a client request (main.go): whether it asks for a stream, the
  model, the reasoning effort and the kind of agent that sent it, the label the access log
  shows, and \<open>swapModel\<close>, the only change the proxy ever makes to a body.
\<close>

section \<open>Fields of a request body\<close>

definition requestWantsStream :: "bytes \<Rightarrow> bool" where
  "requestWantsStream body = fst (unmarshal (dec_struct [(''stream'', dec_bool)]) body False)"

definition modelOf :: "bytes \<Rightarrow> bytes" where
  "modelOf body =
     (let m = fst (unmarshal (dec_struct [(''model'', dec_string)]) body [])
      in if m = [] then ''?'' else m)"

definition requestModelOf :: "bytes \<Rightarrow> bytes \<Rightarrow> bytes" where
  "requestModelOf path body =
     (let model = fst (geminiTarget path) in if model \<noteq> [] then model else modelOf body)"

record effortFields =
  ef_reasoning :: bytes
  ef_output :: bytes

definition dec_effort :: "effortFields decoder" where
  "dec_effort = dec_struct
     [(''reasoning'', dec_struct [(''effort'', dec_field ef_reasoning ef_reasoning_update dec_string)]),
      (''output_config'', dec_struct [(''effort'', dec_field ef_output ef_output_update dec_string)])]"

definition reasoningEffortOf :: "bytes \<Rightarrow> bytes \<Rightarrow> bytes" where
  "reasoningEffortOf path body =
     (if isGeminiPath path then gs_thinkingLevel (geminiSettingsOf body)
      else
        let b = fst (unmarshal dec_effort body \<lparr>ef_reasoning = [], ef_output = []\<rparr>) in
        if isResponsesPath path then trim_space (ef_reasoning b)
        else if isMessagesPath path then trim_space (ef_output b)
        else [])"

section \<open>Who sent it\<close>

definition agentKind :: "header \<Rightarrow> bytes" where
  "agentKind h =
     (if header_get h ''X-Claude-Code-Parent-Agent-Id'' \<noteq> []
         \<or> contains (header_get h ''User-Agent'') ''sdk-cli'' then ''sub'' else ''main'')"

definition workflowAgentMarker :: bytes where
  "workflowAgentMarker = ''workflow orchestration script''"

text \<open>
  The marker is sought in the raw bytes of the \<open>system\<close> member. It has letters that occur
  in no token of JSON but a string, so whitespace between the tokens does not matter.
\<close>

definition isWorkflowAgent :: "bytes \<Rightarrow> bool" where
  "isWorkflowAgent body =
     (case unmarshal (dec_struct [(''system'', dec_raw)]) body None of
        (system, err) \<Rightarrow>
          \<not> err \<and> contains (case system of None \<Rightarrow> [] | Some v \<Rightarrow> render v) workflowAgentMarker)"

definition agentKindFull :: "bytes \<Rightarrow> header \<Rightarrow> bytes \<Rightarrow> bytes" where
  "agentKindFull path h body =
     (if isMessagesPath path \<and> isWorkflowAgent body then ''wf'' else agentKind h)"

definition who :: "bytes \<Rightarrow> header \<Rightarrow> bytes \<Rightarrow> bytes" where
  "who path h body = requestModelOf path body @ ''/'' @ agentKindFull path h body"

text \<open>The text around the last occurrence of a separator, \<open>strings.LastIndex\<close>.\<close>

fun cut_last :: "bytes \<Rightarrow> bytes \<Rightarrow> (bytes \<times> bytes) option" where
  "cut_last [] sep = (if sep = [] then Some ([], []) else None)"
| "cut_last (c # s) sep =
     (case cut_last s sep of
        Some (a, b) \<Rightarrow> Some (c # a, b)
      | None \<Rightarrow> if has_prefix (c # s) sep then Some ([], drop (length sep) (c # s)) else None)"

definition whoWithResolvedModel :: "bytes \<Rightarrow> bytes \<Rightarrow> bytes" where
  "whoWithResolvedModel reqWho resolved =
     (let m = trim_space resolved in
      if m = [] then reqWho
      else (case cut_last reqWho ''/'' of
              None \<Rightarrow>
                if reqWho = [] \<or> reqWho = ''?'' then m
                else if reqWho = m then reqWho
                else reqWho @ ''->'' @ m
            | Some (reqModel, rest) \<Rightarrow>
                let agent = ''/'' @ rest in
                if reqModel = m then reqWho
                else if (case cut_last reqModel ''~>'' of Some (_, prev) \<Rightarrow> prev = m | None \<Rightarrow> False)
                then reqWho
                else if reqModel = [] \<or> reqModel = ''?'' then m @ agent
                else reqModel @ ''->'' @ m @ agent))"

section \<open>swapModel\<close>

text \<open>
  The top-level members as a map of raw values; the model is replaced and the map is
  written with its keys sorted, raw values compacted and HTML characters left alone.
\<close>

definition write_members :: "(bytes \<times> json) list \<Rightarrow> json" where
  "write_members m = JObj (map (\<lambda>(k, v). (quote False k, v)) (sort_key fst m))"

definition swapModel :: "bytes \<Rightarrow> bytes \<Rightarrow> bytes option" where
  "swapModel body model =
     (case json_parse body of
        Some (JObj ms) \<Rightarrow>
          let m = go_map (map (\<lambda>(k, v). (unquote k, v)) ms) in
          if map_of m ''model'' = None then None
          else Some (render (write_members (AList.update ''model'' (JStr (quote True model)) m)))
      | _ \<Rightarrow> None)"

section \<open>Decoded strings are UTF-8\<close>

lemma byte_char: "0 \<le> n \<Longrightarrow> n < 256 \<Longrightarrow> byte_val (char_of (n :: int)) = n"
  by (simp add: of_char_of)

lemma base64_digit: "\<exists>a r. (n::int) = 64 * a + r \<and> 0 \<le> r \<and> r < 64"
  by (rule exI [of _ "n div 64"], rule exI [of _ "n mod 64"]) simp

lemma base64_digits: "\<exists>a r m. (n::int) = 64 * (64 * a + m) + r \<and> 0 \<le> r \<and> r < 64 \<and> 0 \<le> m \<and> m < 64"
  using base64_digit by metis

lemma base64_digits_of:
  assumes "(n::int) = 64 * (64 * a + m) + r" "0 \<le> r" "r < 64" "0 \<le> m" "m < 64"
  shows "n div 4096 = a" "n div 64 mod 64 = m" "n mod 64 = r"
proof -
  have d: "n div 64 = 64 * a + m" using assms by simp
  then show "n div 64 mod 64 = m" using assms by simp
  show "n div 4096 = a" using zdiv_zmult2_eq [of 64 n 64] d assms by simp
  show "n mod 64 = r" unfolding minus_mult_div_eq_mod [symmetric] d by (simp add: assms(1))
qed

lemma utf8_encode_rune:
  assumes "0 \<le> n"
  shows "rune_len (utf8_encode n) = length (utf8_encode n)"
proof -
  consider "n < 0x80" | "0x80 \<le> n" "n < 0x800" | "0xD800 \<le> n \<and> n \<le> 0xDFFF \<or> 0x10FFFF < n"
    | "0x800 \<le> n" "n < 0x10000" "n < 0xD800 \<or> 0xDFFF < n" | "0x10000 \<le> n" "n \<le> 0x10FFFF"
    by linarith
  then show ?thesis
  proof cases
    case 1
    then show ?thesis using assms by (simp add: utf8_encode_def rune_len.simps rune_width_def tail_ok_def byte_char)
  next
    case 2
    then have "2 \<le> n div 64" "n div 64 \<le> 31" by auto
    with 2 show ?thesis by (simp add: utf8_encode_def rune_len.simps rune_width_def tail_ok_def byte_char second_ok_def cont_byte_def byte_in_def)
  next
    case 3
    then have "utf8_encode n = replacement" by (auto simp: utf8_encode_def)
    then show ?thesis by (simp add: rune_len_replacement)
  next
    case 4
    obtain a r m where q: "n = 64 * (64 * a + m) + r" "0 \<le> r" "r < 64" "0 \<le> m" "m < 64"
      using base64_digits by blast
    with 4 have "0 \<le> a" "a \<le> 15" "a = 0 \<Longrightarrow> 32 \<le> m" "a = 13 \<Longrightarrow> m \<le> 31" by auto
    with q(2-5) 4 show ?thesis
      by (simp add: utf8_encode_def base64_digits_of [OF q] rune_len.simps rune_width_def tail_ok_def byte_char
          second_ok_def cont_byte_def byte_in_def rune_len_replacement)
  next
    case 5
    obtain a r m where q: "n = 64 * (64 * a + m) + r" "0 \<le> r" "r < 64" "0 \<le> m" "m < 64"
      using base64_digits by blast
    obtain b k where b: "a = 64 * b + k" "0 \<le> k" "k < 64" using base64_digit by blast
    with q 5 have c: "0 \<le> b" "b \<le> 4" "b = 0 \<Longrightarrow> 16 \<le> k" "b = 4 \<Longrightarrow> k \<le> 15" by auto
    have d: "n div 262144 = b" "n div 4096 mod 64 = k"
      using base64_digits_of [OF q] b zdiv_zmult2_eq [of 64 n 4096] by simp_all
    have e: "(0xC0::int) < 0xF0 + b" using c by linarith
    from q(2-5) 5 c d b(2,3) show ?thesis
      by (simp add: utf8_encode_def base64_digits_of(2,3) [OF q] d rune_len.simps rune_width_def tail_ok_def byte_char
          second_ok_def cont_byte_def byte_in_def)
  qed
qed

lemma hex_val_range: "0 \<le> hex_val c" "hex_val c \<le> 15"
  by (auto simp: hex_val_def is_digit_def byte_in_def)

lemma hex4_val_nonneg: "0 \<le> hex4_val a b c d"
  using hex_val_range [of a] hex_val_range [of b] hex_val_range [of c] hex_val_range [of d]
  by (simp add: hex4_val_def)

lemma low_surrogate_shape:
  assumes "low_surrogate s = Some (l, t)"
  obtains h1 h2 h3 h4 where "s = CHR 0x5C # CHR ''u'' # h1 # h2 # h3 # h4 # t" "0xDC00 \<le> l" "l \<le> 0xDFFF"
  using assms that by (fastforce simp: low_surrogate_def split: list.splits if_splits)

lemma low_surrogate_ok: "low_surrogate s = Some (l, t) \<Longrightarrow> str_ok s \<Longrightarrow> str_ok t"
  by (erule low_surrogate_shape) (simp add: simple_escape_def)

lemma unescape_ascii:
  assumes "simple_escape e"
  shows "rune_len [unescape_char e] = 1"
  using assms unfolding simple_escape_def unescape_char_def
  by (elim insertE emptyE) (simp_all add: rune_len_ascii)

lemma str_ok_high_tail: "str_ok (h @ s) \<Longrightarrow> list_all (\<lambda>c. 0x80 \<le> byte_val c) h \<Longrightarrow> str_ok s"
proof (induction h)
  case (Cons c h)
  then have "c \<noteq> CHR 0x5C" by auto
  with Cons show ?case by simp
qed simp

lemma str_ok_rune:
  assumes "str_ok (c # s)" "c \<noteq> CHR 0x5C" "rune_len (c # s) \<noteq> 0"
  shows "str_ok (drop (rune_len (c # s)) (c # s))"
proof -
  obtain k where k: "rune_len (c # s) = Suc k" using assms(3) by (cases "rune_len (c # s)") auto
  have "str_ok (take k s @ drop k s)" using assms(1,2) by simp
  moreover have "list_all (\<lambda>c. 0x80 \<le> byte_val c) (take k s)"
  proof (cases "take k s")
    case (Cons d v)
    with rune_bytes_high [of c d v] rune_take_full [OF assms(3)] k show ?thesis by simp
  qed auto
  ultimately show ?thesis using k str_ok_high_tail [of "take k s" "drop k s"] by simp
qed

lemma unquote_item_ok:
  assumes "str_ok (c # s)"
  shows "utf8_valid (fst (unquote_item c s) @ t) = utf8_valid t \<and> str_ok (snd (unquote_item c s))"
proof (cases "c = CHR 0x5C")
  case True
  with assms obtain e u where s: "s = e # u" by (cases s) auto
  show ?thesis
  proof (cases "simple_escape e")
    case esc: True
    then have "e \<noteq> CHR ''u''" by (auto simp: simple_escape_def)
    with assms True s esc show ?thesis
      using utf8_valid_rune [of "[unescape_char e]" t] unescape_ascii [OF esc]
      by (simp add: unquote_item_def del: utf8_valid.simps)
  next
    case False
    with assms True s obtain h1 h2 h3 h4 v where u: "e = CHR ''u''" "u = h1 # h2 # h3 # h4 # v" "str_ok v"
      by (auto split: list.splits)
    have v: "utf8_valid (utf8_encode n @ t) = utf8_valid t" if "0 \<le> n" for n
      using that by (intro utf8_valid_rune utf8_encode_rune)
    show ?thesis
      using u s True v hex4_val_nonneg [of h1 h2 h3 h4]
      by (auto simp: unquote_item_def Let_def utf8_valid_rune [OF rune_len_replacement] split: option.splits
          elim: low_surrogate_shape dest: low_surrogate_ok)
  qed
next
  case False
  with assms have "str_ok s" by simp
  with False assms str_ok_rune [OF assms False] utf8_valid_rune [OF rune_take_full [of "c # s"]] show ?thesis
    by (simp add: unquote_item_def utf8_valid_rune [OF rune_len_replacement])
qed

lemma utf8_valid_unquote: "str_ok s \<Longrightarrow> utf8_valid (unquote s)"
proof (induction s rule: unquote.induct)
  case (2 c s)
  with unquote_item_ok [OF "2.prems"] show ?case by simp
qed simp

section \<open>Maps of members\<close>

lemma go_map_spec:
  "distinct (map fst (go_map xs)) \<and> map_of (go_map xs) = map_of (rev xs)"
proof (induction xs rule: rev_induct)
  case (snoc x xs)
  then show ?case by (cases x) (simp add: go_map_def AList.distinct_update AList.update_conv' fun_eq_iff)
qed (simp add: go_map_def)

lemma set_go_map: "set (go_map xs) \<subseteq> set xs"
proof
  fix y assume "y \<in> set (go_map xs)"
  then have "map_of (go_map xs) (fst y) = Some (snd y)"
    using go_map_spec [of xs] by (intro map_of_is_SomeI) simp_all
  then show "y \<in> set xs" using go_map_spec [of xs] by (metis map_of_SomeD prod.collapse set_rev)
qed

lemma write_members_parses:
  assumes "distinct (map fst m)" "\<And>k v. (k, v) \<in> set m \<Longrightarrow> utf8_valid k \<and> wf_json (max_depth - 1) v"
  shows "json_parse (render (write_members m)) = Some (write_members m)"
    and "raw_map (write_members m) = Some (map_of m)"
proof -
  have "wf_json max_depth (write_members m)"
    using assms(2) by (auto simp: write_members_def max_depth_def str_ok_quote)
  then show "json_parse (render (write_members m)) = Some (write_members m)" by (rule json_parse_render)
  have "map (\<lambda>x. (unquote (quote False (fst x)), snd x)) (sort_key fst m) = sort_key fst m"
    using assms(2) by (intro map_idI) (auto simp: unquote_quote utf8_fix_id)
  then have "map_of (rev (map (\<lambda>(k, v). (unquote k, v)) (map (\<lambda>(k, v). (quote False k, v)) (sort_key fst m))))
      = map_of (rev (sort_key fst m))"
    by (simp add: comp_def case_prod_beta)
  also have "\<dots> = map_of m"
  proof -
    have "distinct (map fst (rev (sort_key fst m)))"
      using assms(1) by (simp add: distinct_map) 
    then show ?thesis using assms(1) by (subst map_of_inject_set) auto
  qed
  finally show "raw_map (write_members m) = Some (map_of m)" by (simp add: raw_map_def write_members_def)
qed

lemma fold_name_upper: "fold_name k = t \<Longrightarrow> CHR ''K'' \<notin> set t \<Longrightarrow> CHR ''S'' \<notin> set t \<Longrightarrow> map upper_char k = t"
  by (induction k arbitrary: t rule: fold_name.induct) (auto split: if_splits)

lemma upper_char_le: "upper_char c = upper_char d \<Longrightarrow> 97 \<le> byte_val d \<Longrightarrow> byte_val d \<le> 122 \<Longrightarrow> c \<le> d"
  unfolding less_eq_char_def of_nat_le_iff [where 'a = int, symmetric] of_nat_of_char
  by (drule arg_cong [of _ _ byte_val]) (auto simp: upper_char_def of_char_of split: if_splits)

lemma pointwise_le: "list_all2 (\<le>) (k :: bytes) l \<Longrightarrow> k \<le> l"
  by (induction rule: list_all2_induct) (auto simp: le_less)

lemma model_key_le:
  assumes "fold_name k = fold_name ''model''"
  shows "k \<le> ''model''"
proof -
  have f: "fold_name ''model'' = map upper_char ''model''" by code_simp
  have "CHR ''K'' \<notin> set (map upper_char ''model'')" "CHR ''S'' \<notin> set (map upper_char ''model'')" by code_simp+
  with assms f fold_name_upper [of k] have u: "map upper_char k = map upper_char ''model''" by metis
  have "list_all2 (\<le>) k ''model''"
  proof (rule list_all2_all_nthI)
    show l: "length k = length ''model''" using u by (metis length_map)
    fix i assume "i < length k"
    with u l have "upper_char (k ! i) = upper_char (''model'' ! i)" by (metis nth_map)
    moreover have "list_all (\<lambda>d. 97 \<le> byte_val d \<and> byte_val d \<le> 122) ''model''" by code_simp
    ultimately show "k ! i \<le> ''model'' ! i" using upper_char_le \<open>i < length k\<close> l by (simp add: list_all_length)
  qed
  then show ?thesis by (rule pointwise_le)
qed

lemma dec_members_last:
  assumes "sorted (map fst m)" "distinct (map fst m)" "(k0, v0) \<in> set m" "\<And>k v. (k, v) \<in> set m \<Longrightarrow> unquote (q k) = k"
    and "\<And>k. fold_name k = fold_name k0 \<Longrightarrow> k \<le> k0"
    and "\<And>s. fst (d v0 s) = r"
  shows "fst (dec_members [(k0, d)] (map (\<lambda>(k, v). (q k, v)) m) s) = r"
proof -
  from assms(3) obtain as bs where m: "m = as @ (k0, v0) # bs" by (meson split_list)
  have "field_decoder [(k0, d)] (q k) = None" if "(k, v) \<in> set bs" for k v
  proof -
    have "k0 \<le> k" "k \<noteq> k0" using assms(1,2) m that by (auto simp: sorted_append image_iff)
    then have "fold_name k \<noteq> fold_name k0" using assms(5) by force
    then show ?thesis using assms(4) [of k v] that m by (simp add: field_decoder_def)
  qed
  then have "dec_members [(k0, d)] (map (\<lambda>(k, v). (q k, v)) bs) s = s" for s
    by (intro dec_members_skip) auto
  moreover have "field_decoder [(k0, d)] (q k0) = Some d" using assms(4) [of k0 v0] m by (simp add: field_decoder_def)
  ultimately show ?thesis using assms(6) by (simp add: m dec_members_append)
qed

text \<open>
  C24. \<open>swapModel\<close> changes the model and nothing else: the new body is an object with the
  same members and values, the model replaced, and the proxy reads the new model from it
  even if the body spells the name in several ways.
\<close>

theorem swapModel_replaces:
  assumes "swapModel body model = Some out" "utf8_valid model" "model \<noteq> []"
  shows "modelOf out = model \<and>
    (\<exists>fs. Option.bind (json_parse body) raw_map = Some fs \<and>
          Option.bind (json_parse out) raw_map = Some (fs(''model'' \<mapsto> JStr (quote True model))))"
proof -
  obtain ms where p: "json_parse body = Some (JObj ms)" using assms(1)
    by (auto simp: swapModel_def split: option.splits json.splits)
  define us where "us = map (\<lambda>(k, v). (unquote k, v)) ms"
  define m where "m = AList.update ''model'' (JStr (quote True model)) (go_map us)"
  have out: "out = render (write_members m)" using assms(1) p
    by (auto simp: swapModel_def Let_def m_def us_def split: if_splits)
  have wf: "utf8_valid k \<and> wf_json (max_depth - 1) v" if "(k, v) \<in> set us" for k v
    using json_parse_wf [OF p] that by (auto simp: us_def utf8_valid_unquote)
  have mv: "utf8_valid ''model''" by code_simp
  have ok: "utf8_valid k \<and> wf_json (max_depth - 1) v" if "(k, v) \<in> set m" for k v
  proof -
    have "map_of m k = Some v" using that go_map_spec [of us]
      by (intro map_of_is_SomeI) (simp_all add: m_def AList.distinct_update)
    then have "(k, v) = (''model'', JStr (quote True model)) \<or> map_of (go_map us) k = Some v"
      by (auto simp: m_def AList.update_conv' split: if_splits)
    then show ?thesis using wf set_go_map [of us] mv by (auto simp: str_ok_quote dest: map_of_SomeD)
  qed
  have dm: "distinct (map fst m)" using go_map_spec [of us] by (simp add: m_def AList.distinct_update)
  note w = write_members_parses [OF dm ok]
  have "fst (dec_members [(''model'', dec_string)] (map (\<lambda>(k, v). (quote False k, v)) (sort_key fst m)) ([], False)) = model"
  proof (rule dec_members_last)
    show "distinct (map fst (sort_key fst m))" using dm by (simp add: distinct_map)
    show "(''model'', JStr (quote True model)) \<in> set (sort_key fst m)"
      by (simp add: m_def AList.update_conv' map_of_SomeD)
    show "unquote (quote False k) = k" if "(k, v) \<in> set (sort_key fst m)" for k v
      using ok that by (simp add: unquote_quote utf8_fix_id)
    show "k \<le> ''model''" if "fold_name k = fold_name ''model''" for k using that by (rule model_key_le)
    show "fst (dec_string (JStr (quote True model)) s) = model" for s
      using assms(2) by (cases s) (simp add: unquote_quote utf8_fix_id)
  qed simp
  then have "modelOf out = model"
    using w(1) assms(3) by (simp add: modelOf_def unmarshal_def out Let_def write_members_def)
  moreover have "Option.bind (json_parse body) raw_map = Some (map_of (go_map us))"
    using go_map_spec [of us] by (simp add: p raw_map_def us_def)
  moreover have "Option.bind (json_parse out) raw_map = Some ((map_of (go_map us))(''model'' \<mapsto> JStr (quote True model)))"
    using w by (simp add: out m_def AList.update_conv')
  ultimately show ?thesis by blast
qed

definition example_request :: bytes where
  "example_request = render (JObj [(''model'', JStr ''claude-a''), (''Model'', JStr ''x''), (''n'', JNum ''1.50'')])"

theorem swapModel_replaces_witness:
  "case swapModel example_request ''claude-b'' of Some out \<Rightarrow> modelOf out = ''claude-b'' | None \<Rightarrow> False"
proof -
  have d: "swapModel example_request ''claude-b'' \<noteq> None" by code_simp
  then obtain out where o: "swapModel example_request ''claude-b'' = Some out" by blast
  have "utf8_valid ''claude-b''" by code_simp
  from swapModel_replaces [OF o this] o show ?thesis by simp
qed

end
