(* ===== verification/Surfacing.thy ===== *)
theory Surfacing
  imports Engine Responses_Errors Gemini_Errors Gemini_Number Systemone Request
begin

text \<open>
  How a failed attempt reaches the client: the reading and classification of an upstream
  error reply (main.go: \<open>readHTTPErrorBody\<close>, \<open>classifyUpstreamHTTPError\<close>, \<open>bufferNonSSE\<close>;
  responses.go: \<open>classifyHTTPErrorForPath\<close>), the disposition of failures inside a fallback
  chain, the error writers of the four routes, \<open>writeFailure\<close>, and the single-shot proxy
  \<open>proxyOnce\<close>.
\<close>

section \<open>Fallback dispositions\<close>

definition isClaudeFallbackAccountError :: "failure \<Rightarrow> bool" where
  "isClaudeFallbackAccountError f =
     (origStatusOf f \<in> {401, 402, 403} \<or>
      origTypeOf f \<in> {''authentication_error'', ''billing_error'', ''permission_error''})"

definition isModelSafeguardRefusal :: "failure \<Rightarrow> bool" where
  "isModelSafeguardRefusal f =
     (if f_transient f \<or> isClaudeFallbackAccountError f then False
      else let msg = to_lower (f_message f) in
        contains msg ''safeguards flagged this message'' \<or>
        contains msg ''safeguards flagged this session'' \<or>
        contains msg (''claude code can'' @ [CHR 0x27] @ ''t respond to this request with fable''))"

datatype claudeFallbackDisposition = fallbackStop | fallbackNext | fallbackOriginal

definition claudeFallbackAction :: "failure \<Rightarrow> claudeFallbackDisposition" where
  "claudeFallbackAction f =
     (if isClaudeFallbackAccountError f then fallbackStop
      else if f_code f = refusalFallbackCode \<or> f_code f = ''sse_stream_disconnect'' \<or> isModelSafeguardRefusal f
      then fallbackNext
      else if origTypeOf f = ''rate_limit_error'' then fallbackOriginal
      else if origStatusOf f = 404 \<or> origTypeOf f = ''not_found_error'' \<or> f_origCode f = ''model_not_found''
              \<or> contains (to_lower (f_message f)) ''model_not_found''
      then fallbackNext
      else if origTypeOf f = ''invalid_request_error'' \<or> origTypeOf f = ''request_too_large'' \<or> origStatusOf f = 413
      then fallbackStop
      else if origStatusOf f = 429 \<or> f_code f = ''spool_error'' then fallbackOriginal
      else if f_transient f then fallbackNext
      else fallbackStop)"

section \<open>Upstream replies\<close>

text \<open>
  A reply: its body is what the reads return, in order, and the error that ends them
  (\<open>None\<close> for a clean end), which comes with a read of its own.
\<close>

record response =
  rs_status :: int
  rs_header :: header
  rs_chunks :: "bytes list"
  rs_err :: "go_error option"

definition httpErrorBodyBytes :: int where
  "httpErrorBodyBytes = 1048576"

record prefixCapture =
  pc_buf :: bytes
  pc_max :: int

definition prefixCapture_write :: "prefixCapture \<Rightarrow> bytes \<Rightarrow> prefixCapture" where
  "prefixCapture_write p b =
     (let room = pc_max p - int (length (pc_buf p)) in
      if 0 < room then
        (if int (length b) \<le> room then p\<lparr>pc_buf := pc_buf p @ b\<rparr>
         else p\<lparr>pc_buf := pc_buf p @ take (nat room) b\<rparr>)
      else p)"

text \<open>
  Up to \<open>httpErrorBodyBytes\<close> of the body and whether that is all of it. With a request log
  the whole body is read (it is archived); without one, one byte past the bound.
\<close>

definition readHTTPErrorBody :: "bool \<Rightarrow> response \<Rightarrow> bytes \<times> bool \<times> go_error option" where
  "readHTTPErrorBody recorded resp =
     (let all = concat (rs_chunks resp) in
      if recorded then
        (pc_buf (fold (\<lambda>b p. prefixCapture_write p b) (rs_chunks resp)
            \<lparr>pc_buf = [], pc_max = httpErrorBodyBytes\<rparr>),
         int (length all) \<le> httpErrorBodyBytes, rs_err resp)
      else if httpErrorBodyBytes < int (length all) then (take (nat httpErrorBodyBytes) all, False, None)
      else (all, True, rs_err resp))"

definition classifyHTTPErrorForPath ::
    "env \<Rightarrow> ctx_err \<Rightarrow> bytes \<Rightarrow> response \<Rightarrow> bytes \<Rightarrow> go_error option \<Rightarrow> failure" where
  "classifyHTTPErrorForPath E ctx path resp b0 readErr =
     (let st = rs_status resp; h = rs_header resp;
          judge = (\<lambda>b. if isResponsesPath path then classifyResponsesHTTPErrorBytes E st h b
             else if isGeminiPath path then classifyGeminiHTTPErrorBytes E st h b
             else if isSystemOnePath path then classifySystemOneHTTPErrorBytes E st h b
             else classifyHTTPErrorBytes E st h b)
      in case readErr of
           None \<Rightarrow> judge b0
         | Some e \<Rightarrow>
             if httpRetryHint h = None \<or> ctx \<noteq> CtxOk then
               (let f = classifyTransport e ctx in
                if f_transient f then
                  f\<lparr>f_retryAfter := (if isSystemOnePath path then systemOneRetryAfterSeconds E h
                      else retryAfterSeconds E (header_get h ''Retry-After''))\<rparr>
                else f)
             else judge [])"

definition classifyUpstreamHTTPError ::
    "env \<Rightarrow> ctx_err \<Rightarrow> bytes \<Rightarrow> bool \<Rightarrow> response \<Rightarrow> bool \<Rightarrow> failure" where
  "classifyUpstreamHTTPError E ctx path recorded resp inClaudeFallback =
     (case readHTTPErrorBody recorded resp of
        (b, whole, readErr) \<Rightarrow>
          let f0 = (classifyHTTPErrorForPath E ctx path resp b readErr)\<lparr>f_origStatus := rs_status resp\<rparr>;
              f1 = (if inClaudeFallback \<and> readErr = None \<and> f_transient f0 \<and> claudeFallbackAction f0 = fallbackStop
                    then f0\<lparr>f_transient := False, f_fastRetry := False, f_status := rs_status resp,
                            f_atype := origTypeOf f0\<rparr>
                    else f0)
          in if \<not> f_transient f1 \<and> readErr = None \<and> whole \<and> 400 \<le> rs_status resp
             then f1\<lparr>f_upstream := Some \<lparr>ur_status = rs_status resp, ur_header = rs_header resp, ur_body = b\<rparr>\<rparr>
             else f1)"

text \<open>
  A whole reply that is not a stream, spooled under the same bounds. \<open>timedOut\<close> is the
  flag of the byte-idle timer.
\<close>

definition bufferNonSSE ::
    "config \<Rightarrow> (int \<Rightarrow> spool_io) \<Rightarrow> ctx_err \<Rightarrow> bool \<Rightarrow> response \<Rightarrow> failure + spool" where
  "bufferNonSSE cfg io ctx timedOut resp =
     (case store_all (\<lambda>sp p. spool_write cfg (io (sp_total sp)) sp p) newSpool (rs_chunks resp) of
        (sp, Some e) \<Rightarrow> Inl (classifyBufferError e)
      | (sp, None) \<Rightarrow>
          (case rs_err resp of
             None \<Rightarrow> Inr sp
           | Some e \<Rightarrow> Inl (if timedOut \<and> ctx = CtxOk then idle_failure else classifyTransport e ctx)))"

section \<open>Error writers\<close>

text \<open>The head all four writers send.\<close>

definition error_head :: "bool \<Rightarrow> int \<Rightarrow> int \<Rightarrow> bytes \<Rightarrow> downstream \<Rightarrow> downstream" where
  "error_head canRetry status retryAfter code w =
     (let h1 = header_set (ds_header w) ''Content-Type'' ''application/json'';
          h2 = header_set h1 ''X-Should-Retry'' (if canRetry then ''true'' else ''false'');
          h3 = (if 0 < retryAfter then header_set h2 ''Retry-After'' (itoa retryAfter) else h2);
          h4 = header_set h3 ''X-Steady-Proxy-Reason'' code
      in w\<lparr>ds_header := h4, ds_status := Some (if status \<le> 0 then 502 else status)\<rparr>)"

text \<open>\<open>json.NewEncoder (w).Encode (v)\<close>: HTML characters escaped, a newline at the end.\<close>

definition html_string :: "bytes \<Rightarrow> json" where
  "html_string s = JStr (quote True s)"

definition encode_to :: "json \<Rightarrow> downstream \<Rightarrow> downstream" where
  "encode_to v w = w_send w [render v @ [LF]]"

type_synonym errorWriter = "bool \<Rightarrow> int \<Rightarrow> bytes \<Rightarrow> bytes \<Rightarrow> int \<Rightarrow> bytes \<Rightarrow> downstream \<Rightarrow> downstream"

definition writeAnthropicError :: errorWriter where
  "writeAnthropicError canRetry status atype message retryAfter code w =
     encode_to
       (JObj [(''error'', JObj [(''message'', html_string message), (''type'', html_string atype)]),
              (''type'', html_string ''error'')])
       (error_head canRetry status retryAfter code w)"

definition writeOpenAIError :: errorWriter where
  "writeOpenAIError canRetry status atype message retryAfter code w =
     encode_to
       (JObj [(''error'', JObj [(''code'', JNull), (''message'', html_string message), (''param'', JNull),
                                (''type'', html_string atype)])])
       (error_head canRetry status retryAfter code w)"

definition writeGeminiError :: errorWriter where
  "writeGeminiError canRetry status0 atype message retryAfter code w =
     (let status = (if status0 \<le> 0 then 502 else status0);
          native = to_upper (trim_space atype);
          nativeStatus = (if geminiHTTPStatus native = 0 then geminiStatusForHTTP status else native)
      in encode_to
           (JObj [(''error'', JObj [(''code'', JNum (append_int status)), (''status'', html_string nativeStatus),
                                    (''message'', html_string message)])])
           (error_head canRetry status0 retryAfter code w))"

definition writeSystemOneError :: errorWriter where
  "writeSystemOneError canRetry status atype message retryAfter code w =
     encode_to (JObj [(''detail'', html_string message)]) (error_head canRetry status retryAfter code w)"

definition errorWriterFor :: "bytes \<Rightarrow> errorWriter" where
  "errorWriterFor path =
     (if isResponsesPath path then writeOpenAIError
      else if isGeminiPath path then writeGeminiError
      else if isSystemOnePath path then writeSystemOneError
      else writeAnthropicError)"

definition writeFailure ::
    "bytes \<Rightarrow> bool \<Rightarrow> failure \<Rightarrow> bool \<Rightarrow> int \<Rightarrow> bytes \<Rightarrow> int \<Rightarrow> downstream \<Rightarrow> downstream" where
  "writeFailure path isHead f canRetry status atype retryAfter w =
     (case f_upstream f of
        Some u \<Rightarrow>
          if f_transient f then errorWriterFor path canRetry status atype (msgFor f) retryAfter (f_code f) w
          else
            let h1 = header_overlay (ds_header w) (safeResponseHeaders (ur_header u) isHead);
                h2 = header_set (header_set h1 ''X-Should-Retry'' ''false'') ''X-Steady-Proxy-Reason'' (f_code f);
                h3 = (if status \<noteq> ur_status u
                      then header_del (header_del h2 ''Retry-After'') ''Retry-After-Ms'' else h2)
            in w_send (w\<lparr>ds_header := h3, ds_status := Some status\<rparr>) [ur_body u]
      | None \<Rightarrow> errorWriterFor path canRetry status atype (msgFor f) retryAfter (f_code f) w)"

text \<open>
  The answer to a failed attempt: the delay when a retry is offered (the upstream's own, or
  the exponential back-off), the surfaced status and type, and the reply.
\<close>

definition surface_failure ::
    "int \<Rightarrow> bytes \<Rightarrow> bool \<Rightarrow> int \<Rightarrow> bool \<Rightarrow> failure \<Rightarrow> downstream \<Rightarrow> downstream" where
  "surface_failure jitter path isHead retryCount canRetry f w =
     (let retryAfter =
            (if canRetry then (if f_retryAfter f = 0 then retryAfterFor jitter retryCount else f_retryAfter f) else 0)
      in case retrySurfaceFor path f canRetry of
           (sStatus, sType) \<Rightarrow> writeFailure path isHead f canRetry sStatus sType retryAfter w)"

section \<open>The single-shot proxy\<close>

text \<open>
  How the handler leaves: the response is complete, or it is aborted (\<open>panic
  (http.ErrAbortHandler)\<close>) with what the client has received so far.
\<close>

datatype exit = Done downstream | Aborted downstream

fun exit_client :: "exit \<Rightarrow> downstream" where
  "exit_client (Done w) = w"
| "exit_client (Aborted w) = w"

text \<open>
  The copy of a body: for an event stream the client is flushed after every write.
  \<open>flush\<close> is \<open>http.ResponseController.Flush\<close>.
\<close>

fun copy_body :: "(downstream \<Rightarrow> go_error option) \<Rightarrow> bool \<Rightarrow> downstream \<Rightarrow> bytes list \<Rightarrow> downstream \<times> go_error option" where
  "copy_body flush sse w [] = (w, None)"
| "copy_body flush sse w (c # cs) =
     (case w_write w c of
        (w', Some e) \<Rightarrow> (w', Some e)
      | (w', None) \<Rightarrow>
          (case (if sse then flush w' else None) of
             Some e \<Rightarrow> (w', Some e)
           | None \<Rightarrow> copy_body flush sse w' cs))"

definition systemOneMetadataBytes :: int where
  "systemOneMetadataBytes = 1048576"

text \<open>What the proxy observes of a System One answer it delivered whole.\<close>

definition observed_metadata :: "response \<Rightarrow> systemOneMetadata" where
  "observed_metadata resp =
     (let ct = header_get (rs_header resp) ''Content-Type'';
          mediaType = (case str_cut ct '';'' of None \<Rightarrow> ct | Some (m, _) \<Rightarrow> m)
      in if header_get (rs_header resp) ''Content-Encoding'' = []
            \<and> equal_fold (trim_space mediaType) ''application/json''
            \<and> int (length (concat (rs_chunks resp))) \<le> systemOneMetadataBytes
         then systemOneResponseMetadata
                (pc_buf (fold (\<lambda>b p. prefixCapture_write p b) (rs_chunks resp)
                   \<lparr>pc_buf = [], pc_max = systemOneMetadataBytes\<rparr>))
         else \<lparr>sm_model = [], sm_inputTokens = None, sm_outputTokens = None\<rparr>)"

definition proxyOnce_head :: "bytes \<Rightarrow> response \<Rightarrow> downstream \<Rightarrow> downstream" where
  "proxyOnce_head meth resp w =
     w\<lparr>ds_header := header_overlay (ds_header w)
          (safeResponseHeaders (rs_header resp) (meth = ''HEAD'' \<or> rs_status resp = 304)),
       ds_status := Some (rs_status resp)\<rparr>"

definition proxyOnce ::
    "env \<Rightarrow> config \<Rightarrow> ctx_err \<Rightarrow> int \<Rightarrow> (downstream \<Rightarrow> go_error option) \<Rightarrow> bool \<Rightarrow> bytes \<Rightarrow> bytes \<Rightarrow> header
     \<Rightarrow> go_error + response \<Rightarrow> downstream \<Rightarrow> exit" where
  "proxyOnce E cfg ctx jitter flush recorded meth path hdr reply w =
     (let retryCount = atoiSafe (header_get hdr ''X-Stainless-Retry-Count'');
          failed = (\<lambda>f. Done (surface_failure jitter path (meth = ''HEAD'') retryCount
                      (f_transient f \<and> retryCount < sdkRetryCap cfg) f w))
      in case reply of
           Inl e \<Rightarrow> failed (classifyTransport e ctx)
         | Inr resp \<Rightarrow>
             if (rs_status resp < 200 \<or> 300 \<le> rs_status resp)
                \<and> \<not> (rs_status resp = 304 \<and> (meth = ''GET'' \<or> meth = ''HEAD''))
             then failed (classifyUpstreamHTTPError E ctx path recorded resp False)
             else
               let w1 = proxyOnce_head meth resp w;
                   sse = isEventStream (header_get (rs_header resp) ''Content-Type'')
               in case (if sse then flush w1 else None) of
                    Some e \<Rightarrow> Aborted w1
                  | None \<Rightarrow>
                      (case copy_body flush sse w1 (rs_chunks resp) of
                         (w2, Some e) \<Rightarrow> Aborted w2
                       | (w2, None) \<Rightarrow> (case rs_err resp of Some e \<Rightarrow> Aborted w2 | None \<Rightarrow> Done w2)))"

section \<open>Bounded prefixes\<close>

lemma prefixCapture_fold:
  "length (pc_buf p) \<le> nat (pc_max p) \<Longrightarrow>
   fold (\<lambda>b p. prefixCapture_write p b) bs p = p\<lparr>pc_buf := take (nat (pc_max p)) (pc_buf p @ concat bs)\<rparr>"
proof (induction bs arbitrary: p)
  case (Cons b bs)
  define q where "q = prefixCapture_write p b"
  have q: "q = p\<lparr>pc_buf := take (nat (pc_max p)) (pc_buf p @ b)\<rparr>"
    using Cons.prems by (auto simp: q_def prefixCapture_write_def Let_def nat_diff_distrib)
  have "length (pc_buf q) \<le> nat (pc_max q)" by (simp add: q)
  from Cons.IH [OF this] Cons.prems show ?case by (simp add: q_def [symmetric]) (simp add: q min_def)
qed simp

lemma readHTTPErrorBody_prefix:
  "fst (readHTTPErrorBody recorded resp) = take (nat httpErrorBodyBytes) (concat (rs_chunks resp))"
  by (auto simp: readHTTPErrorBody_def Let_def prefixCapture_fold httpErrorBodyBytes_def)

lemma readHTTPErrorBody_whole:
  assumes "int (length (concat (rs_chunks resp))) \<le> httpErrorBodyBytes"
  shows "readHTTPErrorBody recorded resp = (concat (rs_chunks resp), True, rs_err resp)"
  using assms by (auto simp: readHTTPErrorBody_def Let_def prefixCapture_fold httpErrorBodyBytes_def)


section \<open>What the client is told\<close>

lemma signal_keys:
  "canonical_key ''Content-Type'' = ''Content-Type''" "canonical_key ''X-Should-Retry'' = ''X-Should-Retry''"
  "canonical_key ''Retry-After'' = ''Retry-After''" "canonical_key ''Retry-After-Ms'' = ''Retry-After-Ms''"
  "canonical_key ''X-Steady-Proxy-Reason'' = ''X-Steady-Proxy-Reason''"
  by code_simp+

lemma header_get_del_other:
  "canonical_key k \<noteq> canonical_key k' \<Longrightarrow> header_get (header_del h k) k' = header_get h k'"
  by (simp add: header_get_def header_values_def header_del_def)

lemmas signal_simps = header_get_set_other header_get_del_other signal_keys

lemma error_head_signals:
  "ds_status (error_head canRetry status retryAfter code w) = Some (if status \<le> 0 then 502 else status)"
  "header_get (ds_header (error_head canRetry status retryAfter code w)) ''X-Should-Retry''
     = (if canRetry then ''true'' else ''false'')"
  "ds_body (error_head canRetry status retryAfter code w) = ds_body w"
  "ds_limit (error_head canRetry status retryAfter code w) = ds_limit w"
  by (simp_all add: error_head_def Let_def signal_simps)

lemma encode_to_keeps [simp]:
  "ds_status (encode_to v w) = ds_status w" "ds_header (encode_to v w) = ds_header w"
  by (simp_all add: encode_to_def)

lemma errorWriterFor_signals:
  "ds_status (errorWriterFor path canRetry status atype msg ra code w) = Some (if status \<le> 0 then 502 else status)"
  "header_get (ds_header (errorWriterFor path canRetry status atype msg ra code w)) ''X-Should-Retry''
     = (if canRetry then ''true'' else ''false'')"
  by (simp_all add: errorWriterFor_def writeOpenAIError_def writeGeminiError_def writeSystemOneError_def
      writeAnthropicError_def Let_def error_head_signals)

lemma writeFailure_signals:
  assumes "f_upstream f = None \<or> f_transient f \<or> \<not> canRetry" "0 < status"
  shows "ds_status (writeFailure path isHead f canRetry status atype ra w) = Some status"
    and "header_get (ds_header (writeFailure path isHead f canRetry status atype ra w)) ''X-Should-Retry''
      = (if canRetry then ''true'' else ''false'')"
  using assms
  by (auto simp: writeFailure_def Let_def errorWriterFor_signals signal_simps split: option.splits)

lemma retrySurfaceFor_positive: "0 \<le> f_status f \<Longrightarrow> 0 < fst (retrySurfaceFor path f canRetry)"
  by (auto simp: retrySurfaceFor_def surfaceFor_def surface_def statusFor_def retryableSurfaceStatus_def Let_def
      split: if_splits)

text \<open>
  C17. Whatever failed and on whichever route, the answer says in \<open>X-Should-Retry\<close> exactly
  whether a retry is offered. An offered retry is always status 503; without one the status
  is never one the route's client would retry by itself.
\<close>

theorem failure_answer:
  assumes "0 \<le> f_status f" "canRetry \<Longrightarrow> f_transient f"
    and "surface_failure jitter path isHead retryCount canRetry f w = w'"
  shows "header_get (ds_header w') ''X-Should-Retry'' = (if canRetry then ''true'' else ''false'') \<and>
    (\<exists>s. ds_status w' = Some s \<and> (if canRetry then s = 503 else \<not> client_retries_status path s))"
proof -
  define st where "st = fst (retrySurfaceFor path f canRetry)"
  have p: "0 < st" using assms(1) by (simp add: st_def retrySurfaceFor_positive)
  have u: "f_upstream f = None \<or> f_transient f \<or> \<not> canRetry" using assms(2) by blast
  have s: "if canRetry then st = 503 else \<not> client_retries_status path st"
  proof (cases canRetry)
    case True
    with assms(2) show ?thesis by (simp add: st_def retrySurfaceFor_def surfaceFor_transient)
  next
    case False
    then show ?thesis by (simp add: st_def surfaced_status_stops)
  qed
  obtain a ra where w: "w' = writeFailure path isHead f canRetry st a ra w"
    using assms(3) by (auto simp: surface_failure_def Let_def st_def split: prod.splits)
  show ?thesis using writeFailure_signals [OF u p] s by (auto simp: w)
qed


theorem failure_answer_witness:
  "header_get (ds_header (surface_failure 0 ''/v1/messages'' False 0 True idle_failure w_new)) ''X-Should-Retry'' = ''true''"
  using failure_answer [of idle_failure True 0 "''/v1/messages''" False 0 w_new, OF _ _ refl]
  by (simp add: idle_failure_def)

section \<open>Terminal replies\<close>

lemma statusFailure_upstream: "f_upstream (statusFailure st v ty m ra) = None"
  by (simp add: statusFailure_def)

lemma shaped_cases:
  assumes "\<not> (300 \<le> st \<and> st < 400)"
  obtains src retry ty m ra x y where
    "classifyHTTPErrorBytesShaped E st h b rule = (hintFailure src retry st ty m ra)\<lparr>f_origType := x, f_origCode := y\<rparr>"
  | v ty m ra x y where
    "classifyHTTPErrorBytesShaped E st h b rule = (statusFailure st v ty m ra)\<lparr>f_origType := x, f_origCode := y\<rparr>"
proof (cases "httpRetryHint h")
  case None
  show ?thesis
    by (rule that(2), unfold classifyHTTPErrorBytesShaped_def Let_def if_not_P [OF assms] None option.case) (rule refl)
next
  case (Some p)
  obtain src retry where p: "p = (src, retry)" by (rule prod.exhaust)
  show ?thesis
    by (rule that(1), unfold classifyHTTPErrorBytesShaped_def Let_def if_not_P [OF assms] Some p option.case prod.case)
      (rule refl)
qed

lemma shaped_final:
  assumes "\<not> (300 \<le> st \<and> st < 400)" "\<not> f_transient (classifyHTTPErrorBytesShaped E st h b rule)"
  shows "f_status (classifyHTTPErrorBytesShaped E st h b rule) = st"
  by (rule shaped_cases [OF assms(1), of E h b rule])
    (use assms(2) in \<open>simp_all add: hintFailure_fields statusFailure_status\<close>)

lemma path_final:
  assumes "\<not> (300 \<le> rs_status resp \<and> rs_status resp < 400)"
    and "\<not> f_transient (classifyHTTPErrorForPath E ctx path resp b None)"
  shows "f_status (classifyHTTPErrorForPath E ctx path resp b None) = rs_status resp"
proof -
  let ?st = "rs_status resp" and ?h = "rs_header resp"
  note final = shaped_final [OF assms(1), of E ?h b]
  have "f_status (classifyResponsesHTTPErrorBytes E ?st ?h b) = ?st"
    if "\<not> f_transient (classifyResponsesHTTPErrorBytes E ?st ?h b)"
    using that final by (simp add: classifyResponsesHTTPErrorBytes_def Let_def split: if_splits)
  moreover have "f_status (classifySystemOneHTTPErrorBytes E ?st ?h b) = ?st"
    if "\<not> f_transient (classifySystemOneHTTPErrorBytes E ?st ?h b)"
    using that assms(1) by (auto simp: classifySystemOneHTTPErrorBytes_def Let_def split: option.splits prod.splits if_splits)
  moreover have "f_status (classifyGeminiErrorBytes E ?st ?h b e) = ?st"
    if "\<not> f_transient (classifyGeminiErrorBytes E ?st ?h b e)" for e
    using that final by (simp add: classifyGeminiErrorBytes_def Let_def split: if_splits)
  ultimately show ?thesis using assms(2) final
    by (auto simp: classifyHTTPErrorForPath_def Let_def classifyGeminiHTTPErrorBytes_def classifyHTTPErrorBytes_def
        split: if_splits prod.splits bool.splits)
qed

lemma final_status_surfaced:
  assumes "\<not> f_transient f" "f_status f = st" "0 < st"
  shows "fst (retrySurfaceFor path f False) = (if client_retries_status path st then 400 else st)"
  using assms routes_disjoint [of path]
  by (auto simp: client_retries_status_def retrySurfaceFor_def surfaceFor_def surface_def statusFor_def Let_def)

text \<open>
  The headers of a final reply: everything end-to-end of the upstream's own, under the
  proxy's verdict and reason, without the retry delay when the status was replaced. A header
  is end-to-end unless it is hop-by-hop (RFC 9110, 7.6.1), listed in \<open>Connection\<close>, or the
  length of a body that is written anew.
\<close>

definition hop_header :: "header \<Rightarrow> bool \<Rightarrow> bytes \<Rightarrow> bool" where
  "hop_header h isHead k =
     (to_lower k \<in> {''connection'', ''proxy-connection'', ''keep-alive'', ''transfer-encoding'', ''te'', ''trailer'',
        ''upgrade'', ''proxy-authorization'', ''proxy-authenticate''} \<or>
      (\<exists>v \<in> set (header_values h ''Connection''). \<exists>tok \<in> set (split_on CHR '','' v).
         to_lower (trim_space tok) = to_lower k \<and> k \<noteq> []) \<or>
      (to_lower k = ''content-length'' \<and> \<not> isHead))"

definition final_header :: "header \<Rightarrow> bool \<Rightarrow> bool \<Rightarrow> bytes \<Rightarrow> header \<Rightarrow> header" where
  "final_header h isHead replaced reason own =
     (\<lambda>k. if k = ''X-Should-Retry'' then Some [''false'']
          else if k = ''X-Steady-Proxy-Reason'' then Some [reason]
          else if replaced \<and> (k = ''Retry-After'' \<or> k = ''Retry-After-Ms'') then None
          else if h k = None \<or> hop_header h isHead k then own k
          else h k)"

lemma to_lower_empty [simp]: "to_lower k = [] \<longleftrightarrow> k = []"
  by (cases k) simp_all

lemma safeResponseHeaders_hop: "safeResponseHeaders h isHead k = (if hop_header h isHead k then None else h k)"
proof -
  have "to_lower k \<in> set (connectionTokens h) \<longleftrightarrow>
      (\<exists>v \<in> set (header_values h ''Connection''). \<exists>tok \<in> set (split_on CHR '','' v).
         to_lower (trim_space tok) = to_lower k \<and> k \<noteq> [])"
    by (force simp: connectionTokens_def)
  then show ?thesis
    by (auto simp: safeResponseHeaders_def hop_header_def hopByHop_def Let_def split: option.split)
qed

lemma overlay_final:
  assumes "h' = header_set (header_set (header_overlay own (safeResponseHeaders h isHead)) ''X-Should-Retry'' ''false'')
      ''X-Steady-Proxy-Reason'' reason"
  shows "(if replaced then header_del (header_del h' ''Retry-After'') ''Retry-After-Ms'' else h')
    = final_header h isHead replaced reason own"
  by (rule ext)
    (simp add: assms header_set_def header_del_def header_overlay_def final_header_def safeResponseHeaders_hop signal_keys
      split: option.split)

text \<open>
  C8. An error reply of the upstream that is judged final, fully read and within the bound
  is the client's answer on every route: its body byte for byte, and exactly its end-to-end
  headers under the proxy's verdict (no retry) and reason. Its status is the upstream's,
  except where the route's client would repeat the request because of it: then it is 400 and
  the upstream's retry delay is withheld.
\<close>

theorem terminal_reply_verbatim:
  assumes "f = classifyUpstreamHTTPError E ctx path recorded resp inFallback" "\<not> f_transient f"
    and "400 \<le> rs_status resp" "rs_err resp = None"
    and "int (length (concat (rs_chunks resp))) \<le> httpErrorBodyBytes" "ds_limit w = None"
    and "surface_failure jitter path isHead n False f w = w'"
  shows "ds_body w' = ds_body w @ concat (rs_chunks resp) \<and>
    ds_header w' = final_header (rs_header resp) isHead (client_retries_status path (rs_status resp)) (f_code f) (ds_header w) \<and>
    (if client_retries_status path (rs_status resp)
     then ds_status w' = Some 400 \<and> header_get (ds_header w') ''Retry-After'' = []
     else ds_status w' = Some (rs_status resp))"
proof -
  let ?b = "concat (rs_chunks resp)"
  let ?retries = "client_retries_status path (rs_status resp)"
  have r: "readHTTPErrorBody recorded resp = (?b, True, None)"
    using readHTTPErrorBody_whole [OF assms(5)] assms(4) by simp
  have s: "f_status f = rs_status resp"
    using assms(1,2,3) path_final [of resp E ctx path ?b]
    by (auto simp: classifyUpstreamHTTPError_def r Let_def split: if_splits)
  have u: "f_upstream f = Some \<lparr>ur_status = rs_status resp, ur_header = rs_header resp, ur_body = ?b\<rparr>"
    using assms(1,2,3) by (auto simp: classifyUpstreamHTTPError_def r Let_def split: if_splits)
  obtain st a where st: "retrySurfaceFor path f False = (st, a)" by (cases "retrySurfaceFor path f False")
  with final_status_surfaced [OF assms(2) s, of path] assms(3)
  have st': "st = (if ?retries then 400 else rs_status resp)" by simp
  moreover have "?retries \<Longrightarrow> rs_status resp \<noteq> 400"
    using routes_disjoint [of path] by (auto simp: client_retries_status_def split: if_splits)
  ultimately have c: "st \<noteq> rs_status resp \<longleftrightarrow> ?retries" by auto
  have "ds_header w' = final_header (rs_header resp) isHead ?retries (f_code f) (ds_header w)"
    using assms(7) unfolding overlay_final [OF refl, symmetric]
    by (auto simp: surface_failure_def st u writeFailure_def Let_def assms(2) c)
  moreover have "?retries \<Longrightarrow>
      header_get (final_header (rs_header resp) isHead ?retries (f_code f) (ds_header w)) ''Retry-After'' = []"
    by (simp add: header_get_def header_values_def final_header_def signal_keys)
  ultimately show ?thesis using assms(6,7) st'
    by (auto simp: surface_failure_def st u writeFailure_def Let_def assms(2))
qed

definition example_denied :: response where
  "example_denied = \<lparr>rs_status = 401,
     rs_header = [''Te'' \<mapsto> [''trailers''], ''X-Request-Id'' \<mapsto> [''r1'']], rs_chunks = [''no'', '' key''], rs_err = None\<rparr>"

theorem terminal_reply_verbatim_witness:
  "let w' = surface_failure 0 ''/v1/messages'' False 0 False
       (classifyUpstreamHTTPError example_env CtxOk ''/v1/messages'' False example_denied False) w_new
   in ds_body w' = ''no key'' \<and> ds_header w' ''X-Request-Id'' = Some [''r1''] \<and> ds_header w' ''Te'' = None"
proof -
  have t: "\<not> f_transient (classifyUpstreamHTTPError example_env CtxOk ''/v1/messages'' False example_denied False)"
    by code_simp
  have h: "hop_header (rs_header example_denied) False ''Te''" "\<not> hop_header (rs_header example_denied) False ''X-Request-Id''"
    by code_simp+
  have p: "ds_body w_new = []" "ds_header w_new k = None" for k by (simp_all add: w_new_def)
  show ?thesis
    using terminal_reply_verbatim [OF refl t _ _ _ _ refl, of w_new 0 False 0] h p
    by (simp add: example_denied_def httpErrorBodyBytes_def w_new_def final_header_def Let_def)
qed

section \<open>Error bodies are readable\<close>

lemma json_parse_line:
  assumes "wf_json max_depth v"
  shows "json_parse (render v @ [LF]) = Some v"
proof -
  have "jrun (render v @ LF # [CHR 0x20]) (BeginValue, [], None) = jrun (LF # [CHR 0x20]) (deliver v [])"
    using assms by (rule jrun_render) (simp_all add: delim_def json_space_def)
  also have "\<dots> = Some (EndValue, [], Some v)" by (simp add: json_space_def)
  finally show ?thesis by (simp add: json_parse_def json_result_def)
qed

lemma trim_space_line: "trim_space (CHR ''{'' # x @ [CHR ''}'', LF]) = CHR ''{'' # x @ [CHR ''}'']"
proof -
  have "trim_left_runes space_runes (CHR ''{'' # y) = CHR ''{'' # y" for y
    by (subst trim_left_runes.simps) (simp add: strip_one_def space_runes_def)
  moreover have b: "trim_left_runes (map rev space_runes) (CHR ''}'' # y) = CHR ''}'' # y" for y
    by (subst trim_left_runes.simps) (simp add: strip_one_def space_runes_def)
  moreover have "trim_left_runes (map rev space_runes) (LF # y) = trim_left_runes (map rev space_runes) y" for y
    by (subst (1) trim_left_runes.simps) (simp add: strip_one_def space_runes_def)
  ultimately show ?thesis by (simp add: trim_space_def)
qed

lemma itoa_digits:
  assumes "0 < n"
  shows "\<exists>c s. itoa_loop n b = c # s \<and> is_digit c \<and> c \<noteq> CHR ''0''"
  using assms
proof (induction n b rule: itoa_loop.induct)
  case (1 n b)
  show ?case
  proof (cases "0 < n div 10")
    case True
    with "1.IH" "1.prems" show ?thesis by (subst itoa_loop.simps) simp
  next
    case False
    with "1.prems" have n: "n div 10 = 0" "n mod 10 = n" "n < 10" by auto
    then have "is_digit (digit_char n) \<and> digit_char n \<noteq> CHR ''0''"
      using "1.prems" digit_char_cases [of n] digit_val_0 [of "digit_char n"] by auto
    with n "1.prems" show ?thesis
      by (subst itoa_loop.simps) (simp add: itoa_loop.simps [of 0])
  qed
qed

lemma itoa_length: "length (itoa_loop n b) \<le> nat n + length b"
proof (induction n b rule: itoa_loop.induct)
  case (1 n b)
  show ?case
  proof (cases "0 < n")
    case True
    then have "nat (n div 10) + 1 \<le> nat n" by linarith
    with "1.IH" [OF True] True show ?thesis by (subst itoa_loop.simps) simp
  qed (simp add: itoa_loop.simps)
qed

lemma num_steps_digits: "list_all is_digit s \<Longrightarrow> num_steps s Digits = Some Digits"
  by (induction s) auto

lemma append_int_number:
  assumes "0 < n" "n \<le> 999"
  shows "num_ok (append_int n)" and "geminiInt32 (JNum (append_int n)) = Some n"
proof -
  have t: "append_int n = itoa_loop n []" using assms by (simp add: append_int_def)
  obtain c s where c: "itoa_loop n [] = c # s" "is_digit c" "c \<noteq> CHR ''0''"
    using itoa_digits [OF assms(1)] by blast
  have d: "list_all is_digit (itoa_loop n [])" "digits_val 0 (itoa_loop n []) = n"
    using itoa_loop_spec [of n "[]"] assms by simp_all
  have m: "c \<noteq> CHR ''-''" using c(2) by (auto simp: is_digit_def)
  show ok: "num_ok (append_int n)"
    using c m d num_steps_digits [of s] by (simp add: t num_start_def num_accept_def)
  have e: "takeWhile (\<lambda>c. \<not> exp_char c) (itoa_loop n []) = itoa_loop n []"
    using d(1) by (auto simp: list_all_iff dest: digit_not_exp)
  have "number_value (append_int n) = of_int n"
    using c m e d no_dot [OF digits_no_dot [OF d(1)]]
    by (simp add: number_value_def t Let_def has_prefix_iff decimal_val_def)
  then show "geminiInt32 (JNum (append_int n)) = Some n"
    using int32_of_number_exact [OF ok, of n] itoa_length [of n "[]"] assms by (simp add: geminiInt32_def t)
qed

lemma error_keys:
  "unquote ''error'' = ''error''" "unquote ''message'' = ''message''" "unquote ''type'' = ''type''"
  "unquote ''code'' = ''code''" "unquote ''param'' = ''param''" "unquote ''status'' = ''status''"
  "unquote ''detail'' = ''detail''"
  "fold_name ''error'' = ''ERROR''" "fold_name ''message'' = ''MESSAGE''" "fold_name ''Message'' = ''MESSAGE''"
  "fold_name ''type'' = ''TYPE''" "fold_name ''Type'' = ''TYPE''" "fold_name ''code'' = ''CODE''"
  "fold_name ''Code'' = ''CODE''" "fold_name ''param'' = ''PARAM''"
  by code_simp+

lemma key_ok: "str_ok ''error''" "str_ok ''message''" "str_ok ''type''" "str_ok ''code''" "str_ok ''param''"
  "str_ok ''status''" "str_ok ''detail''"
  by code_simp+

definition google_statuses :: "bytes list" where
  "google_statuses = [''INVALID_ARGUMENT'', ''FAILED_PRECONDITION'', ''OUT_OF_RANGE'', ''UNAUTHENTICATED'',
     ''PERMISSION_DENIED'', ''NOT_FOUND'', ''ALREADY_EXISTS'', ''ABORTED'', ''RESOURCE_EXHAUSTED'', ''CANCELLED'',
     ''UNKNOWN'', ''INTERNAL'', ''DATA_LOSS'', ''UNIMPLEMENTED'', ''UNAVAILABLE'', ''DEADLINE_EXCEEDED'']"

lemma google_statuses_valid: "list_all utf8_valid google_statuses"
  by code_simp

lemma geminiHTTPStatus_known: "geminiHTTPStatus s \<noteq> 0 \<longleftrightarrow> s \<in> set google_statuses"
  by (auto simp: geminiHTTPStatus_def google_statuses_def)

lemma geminiStatusForHTTP_known: "geminiStatusForHTTP st \<in> set google_statuses"
  by (auto simp: geminiStatusForHTTP_def google_statuses_def)

lemma unquote_google: "s \<in> set google_statuses \<Longrightarrow> unquote (quote True s) = s"
  using google_statuses_valid by (simp add: unquote_quote list_all_iff utf8_fix_id)

lemma encode_to_body:
  "ds_limit w = None \<Longrightarrow> ds_body (encode_to v w) = ds_body w @ render v @ [LF]"
  by (simp add: encode_to_def)


lemma parse_apiError_members:
  assumes "json_parse b = Some (JObj ms)"
    and "dec_members [(''error'', dec_struct
         [(''Type'', dec_field ae_type ae_type_update dec_string),
          (''Code'', dec_field ae_code ae_code_update dec_string),
          (''Message'', dec_field ae_message ae_message_update dec_string)])] ms (apiError0, False) = (ae, e)"
  shows "parse_apiError b = ae"
  using assms by (simp add: parse_apiError_def unmarshal_def dec_apiError_def)

lemma error_body_parses:
  assumes "ds_limit w = None" "ds_body w = []" "wf_json max_depth v"
  shows "json_parse (ds_body (encode_to v (error_head canRetry status ra code w))) = Some v"
  using json_parse_line [OF assms(3)] by (simp add: encode_to_body error_head_signals assms(1,2))

lemmas body_wf = html_string_def str_ok_quote key_ok max_depth_def

lemma anthropic_readable:
  assumes "ds_limit w = None" "ds_body w = []"
  shows "parse_apiError (ds_body (writeAnthropicError canRetry status atype msg ra code w))
    = \<lparr>ae_type = utf8_fix atype, ae_code = [], ae_message = utf8_fix msg\<rparr>"
  unfolding writeAnthropicError_def
  by (rule parse_apiError_members [where e = False], rule error_body_parses [OF assms])
    (simp_all add: body_wf field_decoder_def error_keys dec_field_def unquote_quote apiError0_def
      del: unquote.simps fold_name.simps quote.simps str_ok.simps)

lemma openai_readable:
  assumes "ds_limit w = None" "ds_body w = []"
  shows "parse_apiError (ds_body (writeOpenAIError canRetry status atype msg ra code w))
    = \<lparr>ae_type = utf8_fix atype, ae_code = [], ae_message = utf8_fix msg\<rparr>"
  unfolding writeOpenAIError_def
  by (rule parse_apiError_members [where e = False], rule error_body_parses [OF assms])
    (simp_all add: body_wf field_decoder_def error_keys dec_field_def unquote_quote apiError0_def
      del: unquote.simps fold_name.simps quote.simps str_ok.simps)

lemma systemone_readable:
  assumes "ds_limit w = None" "ds_body w = []"
  shows "systemOneErrorIdentity (ds_body (writeSystemOneError canRetry status atype msg ra code w)) = ([], [], utf8_fix msg)"
  unfolding writeSystemOneError_def systemOneErrorIdentity_def
  by (subst error_body_parses [OF assms])
    (simp_all add: body_wf error_keys raw_map_def unquote_quote
      del: unquote.simps quote.simps str_ok.simps)

text \<open>
  The canonical status a Google envelope names: the classified one if Google has it, else the
  one of the HTTP status sent.
\<close>

definition canonical_status :: "int \<Rightarrow> bytes \<Rightarrow> bytes" where
  "canonical_status status atype =
     (if to_upper (trim_space atype) \<in> set google_statuses then to_upper (trim_space atype)
      else geminiStatusForHTTP status)"

lemma gemini_readable:
  assumes "ds_limit w = None" "ds_body w = []" "0 < status" "status \<le> 999"
  shows "\<exists>e. gemini_envelope (ds_body (writeGeminiError canRetry status atype msg ra code w)) = (e, False) \<and>
    ge_code e = status \<and> ge_message e = utf8_fix msg \<and> ge_status e = canonical_status status atype"
proof -
  let ?native = "to_upper (trim_space atype)"
  define nat where "nat = (if geminiHTTPStatus ?native = 0 then geminiStatusForHTTP status else ?native)"
  define v where "v = JObj [(''error'', JObj [(''code'', JNum (append_int status)), (''status'', html_string nat),
    (''message'', html_string msg)])]"
  have n: "nat \<in> set google_statuses"
    using geminiStatusForHTTP_known geminiHTTPStatus_known by (simp add: nat_def)
  have b: "ds_body (writeGeminiError canRetry status atype msg ra code w) = render v @ [LF]"
    unfolding writeGeminiError_def Let_def
    by (subst encode_to_body) (use assms in \<open>simp_all add: error_head_signals v_def nat_def\<close>)
  have wf: "wf_json max_depth v"
    using append_int_number(1) [OF assms(3,4)] by (simp add: v_def html_string_def str_ok_quote key_ok max_depth_def)
  obtain x where x: "render v = CHR ''{'' # x @ ''}''" by (simp add: v_def)
  have "gemini_envelope (render v @ [LF]) = unmarshal dec_envelope (render v) geminiAPIError0"
    using trim_space_line [of x] by (simp add: gemini_envelope_def x)
  also have "\<dots> = dec_envelope v (geminiAPIError0, False)"
    using json_parse_render [OF wf] by (simp add: unmarshal_def)
  also have "\<dots> = (\<lparr>ge_code = status, ge_status = nat, ge_message = utf8_fix msg, ge_details = [], ge_fallbackType = []\<rparr>, False)"
    using append_int_number(2) [OF assms(3,4)] unquote_google [OF n]
    by (simp add: v_def dec_envelope_def field_decoder_def error_keys geminiAPIError_of_def geminiObject_def
        gdec_string_def html_string_def unquote_quote geminiAPIError0_def
        del: unquote.simps fold_name.simps quote.simps)
  finally show ?thesis by (simp add: b nat_def canonical_status_def geminiHTTPStatus_known [symmetric])
qed

text \<open>
  C25. The body of an error the proxy originates is one the route's own reader understands.
  The message is read back as written, up to the repair of invalid UTF-8, whatever characters
  it contains. On the Anthropic and OpenAI routes the type is read back with it; a Google
  envelope gives the status sent and the canonical name of the type (that of the status where
  the type is not one of Google's); a System One envelope carries the message alone.
\<close>

theorem error_body_readable:
  assumes "ds_limit w = None" "ds_body w = []" "0 < status" "status \<le> 999"
    and "body = ds_body (errorWriterFor path canRetry status atype msg ra code w)"
  shows "if isGeminiPath path then
      (\<exists>e. gemini_envelope body = (e, False) \<and> ge_code e = status \<and> ge_message e = utf8_fix msg \<and>
           ge_status e = canonical_status status atype \<and> geminiHTTPStatus (ge_status e) \<noteq> 0)
    else if isSystemOnePath path then systemOneErrorIdentity body = ([], [], utf8_fix msg)
    else parse_apiError body = \<lparr>ae_type = utf8_fix atype, ae_code = [], ae_message = utf8_fix msg\<rparr>"
proof -
  have "geminiHTTPStatus (canonical_status status atype) \<noteq> 0"
    using geminiStatusForHTTP_known by (simp add: canonical_status_def geminiHTTPStatus_known)
  with gemini_readable [OF assms(1-4), of canRetry atype msg ra code]
  have "\<exists>e. gemini_envelope (ds_body (writeGeminiError canRetry status atype msg ra code w)) = (e, False) \<and>
      ge_code e = status \<and> ge_message e = utf8_fix msg \<and>
      ge_status e = canonical_status status atype \<and> geminiHTTPStatus (ge_status e) \<noteq> 0" by auto
  then show ?thesis
    using anthropic_readable [OF assms(1,2)] openai_readable [OF assms(1,2)] systemone_readable [OF assms(1,2)]
      routes_disjoint [of path]
    by (auto simp: assms(5) errorWriterFor_def)
qed

theorem error_body_readable_witness:
  "parse_apiError (ds_body (errorWriterFor ''/v1/messages'' False 413 ''invalid_request_error'' ''a <b>'' 0 ''c'' w_new))
    = \<lparr>ae_type = ''invalid_request_error'', ae_code = [], ae_message = ''a <b>''\<rparr>"
proof -
  have u: "utf8_fix ''invalid_request_error'' = ''invalid_request_error''" "utf8_fix ''a <b>'' = ''a <b>''"
      "\<not> isGeminiPath ''/v1/messages''" "\<not> isSystemOnePath ''/v1/messages''"
    by code_simp+
  from error_body_readable [OF _ _ _ _ refl, of w_new 413 "''/v1/messages''"] u show ?thesis
    by (simp add: w_new_def)
qed

section \<open>The single-shot proxy is transparent\<close>

lemma copy_body_ok: "copy_body flush sse w cs = (w', None) \<Longrightarrow> w' = w\<lparr>ds_body := ds_body w @ concat cs\<rparr>"
proof (induction flush sse w cs rule: copy_body.induct)
  case (2 flush sse w c cs)
  from "2.prems" obtain v where v: "w_write w c = (v, None)" "(if sse then flush v else None) = None"
      "copy_body flush sse v cs = (w', None)"
    by (auto split: prod.splits option.splits)
  from "2.IH" [OF v(1) [symmetric] refl v(2)] v(3) w_write_ok [OF v(1)] show ?case by simp
qed simp

text \<open>
  C26. On a route that is not buffered a successful reply passes through unchanged: if the
  handler completes, the client has the upstream's status and exactly the bytes of its body,
  and the upstream ended it cleanly. A reply cut short, by the upstream or on the way to the
  client, aborts the connection and never ends as a shorter success.
\<close>

theorem proxyOnce_transparent:
  assumes "proxyOnce E cfg ctx jitter flush recorded meth path hdr (Inr resp) w = Done w'"
    and "200 \<le> rs_status resp" "rs_status resp < 300"
  shows "rs_err resp = None \<and> ds_status w' = Some (rs_status resp) \<and>
    ds_body w' = ds_body w @ concat (rs_chunks resp) \<and>
    ds_header w' = header_overlay (ds_header w) (safeResponseHeaders (rs_header resp) (meth = ''HEAD''))"
  using assms by (auto simp: proxyOnce_def Let_def proxyOnce_head_def dest!: copy_body_ok
      split: if_splits option.splits prod.splits)

theorem proxyOnce_transparent_witness:
  "case proxyOnce example_env example_config CtxOk 0 (\<lambda>w. None) False ''GET'' ''/v1/models'' Map.empty
      (Inr \<lparr>rs_status = 200, rs_header = Map.empty, rs_chunks = [''ab'', ''c''], rs_err = None\<rparr>) w_new of
     Done w' \<Rightarrow> ds_body w' = ''abc'' | Aborted w' \<Rightarrow> False"
proof -
  have d: "case proxyOnce example_env example_config CtxOk 0 (\<lambda>w. None) False ''GET'' ''/v1/models'' Map.empty
      (Inr \<lparr>rs_status = 200, rs_header = Map.empty, rs_chunks = [''ab'', ''c''], rs_err = None\<rparr>) w_new of
     Done w' \<Rightarrow> True | Aborted w' \<Rightarrow> False"
    by code_simp
  then obtain w' where w: "proxyOnce example_env example_config CtxOk 0 (\<lambda>w. None) False ''GET'' ''/v1/models'' Map.empty
      (Inr \<lparr>rs_status = 200, rs_header = Map.empty, rs_chunks = [''ab'', ''c''], rs_err = None\<rparr>) w_new = Done w'"
    by (auto split: exit.splits)
  from proxyOnce_transparent [OF w] w show ?thesis by (simp add: w_new_def)
qed

end
