(* ===== verification/Handler.thy ===== *)
theory Handler
  imports Held Surfacing
begin

text \<open>
  The transactional handler (main.go: \<open>handle\<close> and what it calls): local retries, the
  refusal fallback chain, and the answer the client finally gets. One round of the loop is
  one upstream attempt; what the attempt returned and what the clock said at each decision
  are the round's inputs, so a list of rounds is one history of the request.
\<close>

section \<open>Waiting before a retry\<close>

text \<open>The doubling loop; a duration is a 64-bit integer.\<close>

fun extra_loop :: "nat \<Rightarrow> int \<Rightarrow> int \<Rightarrow> int" where
  "extra_loop 0 capDur d = d"
| "extra_loop (Suc n) capDur d =
     (if d < capDur then
        (if wrap64 (capDur - d) \<le> d then capDur else extra_loop n capDur (wrap64 (d * 2)))
      else d)"

definition localRetryExtraBackoff :: "config \<Rightarrow> int \<Rightarrow> int" where
  "localRetryExtraBackoff cfg retryIndex =
     (let n = (if retryIndex < 0 then 0 else retryIndex); capDur = localBackoffCap cfg in
      if capDur \<le> 0 then 0
      else let d = extra_loop (nat n) capDur second_dur in if capDur < d then capDur else d)"

definition localRetryDelay :: "config \<Rightarrow> int \<Rightarrow> int \<Rightarrow> int" where
  "localRetryDelay cfg upstreamRetryAfter retryIndex =
     (let ra = (if upstreamRetryAfter < 0 then 0 else upstreamRetryAfter);
          extra = localRetryExtraBackoff cfg retryIndex
      in if go_div (wrap64 (max_int64 - extra)) second_dur < ra then max_int64
         else wrap64 (wrap64 (ra * second_dur) + extra))"

text \<open>
  What the clock and the context say when a decision is made: the state of the context, the
  time left until its deadline and until the commit deadline (\<open>None\<close>: there is none), and
  how a wait that starts now ends (\<open>CtxOk\<close>: the timer fires first).
\<close>

record clock =
  ck_ctx :: ctx_err
  ck_deadline :: "int option"
  ck_commit :: "int option"
  ck_slept :: ctx_err

definition canWaitForLocalRetry :: "clock \<Rightarrow> int \<Rightarrow> bool" where
  "canWaitForLocalRetry ck wait =
     (if ck_ctx ck \<noteq> CtxOk then False
      else if wait \<le> 0 then True
      else case ck_deadline ck of
             None \<Rightarrow> True
           | Some remaining \<Rightarrow> \<not> (remaining \<le> second_dur \<or> wrap64 (remaining - second_dur) \<le> wait))"

definition canWait :: "clock \<Rightarrow> int \<Rightarrow> bool" where
  "canWait ck wait =
     (canWaitForLocalRetry ck wait \<and> (case ck_commit ck of None \<Rightarrow> True | Some left \<Rightarrow> wait < left))"

text \<open>\<open>sleepWithContext\<close>: the error of the context that cut the wait short, if one did.\<close>

definition sleepWithContext :: "clock \<Rightarrow> int \<Rightarrow> ctx_err" where
  "sleepWithContext ck d = (if d \<le> 0 then ck_ctx ck else ck_slept ck)"

text \<open>\<open>ctx.Err ()\<close> as an error, and the failure it is classified as.\<close>

definition ctx_error :: "ctx_err \<Rightarrow> go_error" where
  "ctx_error c = (if c = CtxDeadline then OtherError ''context deadline exceeded'' True False
                  else OtherError ''context canceled'' False True)"

definition ended_failure :: "ctx_err \<Rightarrow> failure" where
  "ended_failure c = classifyTransport (ctx_error c) c"

lemma extra_loop_closed:
  "0 < d \<Longrightarrow> d < capDur \<Longrightarrow> capDur \<le> max_int64 \<Longrightarrow> extra_loop n capDur d = min capDur (d * 2 ^ n)"
proof (induction n arbitrary: d)
  case (Suc n)
  have w: "wrap64 (capDur - d) = capDur - d" "capDur - d > d \<Longrightarrow> wrap64 (d * 2) = d * 2"
    using Suc.prems by (simp_all add: min_int64_def max_int64_def)
  show ?case
  proof (cases "capDur - d \<le> d")
    case True
    have "d * 2 \<le> d * 2 ^ Suc n" using Suc.prems(1) by simp
    with True have "min capDur (d * 2 ^ Suc n) = capDur" by (intro min_absorb1) linarith
    with True Suc.prems show ?thesis by (simp add: w)
  next
    case False
    with Suc.IH [of "d * 2"] Suc.prems show ?thesis by (simp add: w mult.assoc)
  qed
qed simp

lemma localRetryExtraBackoff_closed:
  assumes "localBackoffCap cfg \<le> max_int64"
  shows "localRetryExtraBackoff cfg i =
    (if localBackoffCap cfg \<le> 0 then 0 else min (localBackoffCap cfg) (second_dur * 2 ^ nat i))"
proof -
  have s: "second_dur * 1 \<le> second_dur * 2 ^ nat i" by (intro mult_left_mono) (simp_all add: second_dur_def)
  have e: "second_dur < localBackoffCap cfg \<Longrightarrow>
      extra_loop (nat i) (localBackoffCap cfg) second_dur = min (localBackoffCap cfg) (second_dur * 2 ^ nat i)"
    using assms by (intro extra_loop_closed) (simp_all add: second_dur_def)
  have g: "\<not> second_dur < localBackoffCap cfg \<Longrightarrow> extra_loop n (localBackoffCap cfg) second_dur = second_dur" for n
    by (cases n) simp_all
  show ?thesis
    using s e g [of "nat i"] g [of 0]
    by (cases "i < 0"; cases "second_dur < localBackoffCap cfg") (auto simp: localRetryExtraBackoff_def Let_def min_def)
qed

text \<open>
  C27. Before a local retry the proxy waits the upstream's advertised seconds plus one second
  doubled with every retry, up to the configured cap; a sum past the largest duration is the
  largest duration. No intermediate 64-bit product, difference or sum wraps around.
\<close>

theorem local_delay_exact:
  assumes "localBackoffCap cfg \<le> max_int64"
  shows "localRetryDelay cfg ra i =
    min max_int64 (max ra 0 * second_dur +
      (if localBackoffCap cfg \<le> 0 then 0 else min (localBackoffCap cfg) (second_dur * 2 ^ nat i)))"
proof -
  define extra where "extra = localRetryExtraBackoff cfg i"
  define r where "r = max ra 0"
  have "0 \<le> second_dur * 2 ^ nat i" by (simp add: second_dur_def)
  then have e: "0 \<le> extra" "extra \<le> max_int64"
    using assms by (auto simp: extra_def localRetryExtraBackoff_closed [OF assms] max_int64_def)
  have r: "(if ra < 0 then 0 else ra) = r" "0 \<le> r" by (simp_all add: r_def)
  have q: "go_div (wrap64 (max_int64 - extra)) second_dur = (max_int64 - extra) div second_dur"
    using e by (simp add: go_div_nonneg min_int64_def max_int64_def second_dur_def)
  have lt: "(max_int64 - extra) div second_dur < r \<longleftrightarrow> max_int64 - extra < r * second_dur"
    using div_mult_mod_eq [of "max_int64 - extra" second_dur] pos_mod_bound [of second_dur "max_int64 - extra"]
      pos_mod_sign [of second_dur "max_int64 - extra"]
    by (simp add: second_dur_def) linarith
  show ?thesis
  proof (cases "max_int64 - extra < r * second_dur")
    case True
    then show ?thesis
      unfolding localRetryDelay_def Let_def extra_def [symmetric] r q lt
      by (simp add: extra_def localRetryExtraBackoff_closed [OF assms] r_def)
  next
    case False
    have "0 \<le> r * second_dur" using r(2) by (simp add: second_dur_def)
    with False e have "wrap64 (r * second_dur) = r * second_dur" "wrap64 (r * second_dur + extra) = r * second_dur + extra"
      by (simp_all add: min_int64_def max_int64_def)
    with False show ?thesis
      unfolding localRetryDelay_def Let_def extra_def [symmetric] r q lt
      by (simp add: extra_def localRetryExtraBackoff_closed [OF assms] r_def)
  qed
qed

theorem local_delay_exact_witness: "localRetryDelay (example_config\<lparr>localBackoffCap := 8000000000\<rparr>) 2 3 = 10000000000"
  using local_delay_exact [of "example_config\<lparr>localBackoffCap := 8000000000\<rparr>" 2 3]
  by (simp add: max_int64_def second_dur_def)

section \<open>The state of a request\<close>

text \<open>
  A complete refusal held back: its headers and statistics, and its spool and wire as what
  they are kept for, the replay.
\<close>

record bufferedStream =
  bs_header :: header
  bs_st :: captureStats
  bs_replay :: "downstream \<Rightarrow> downstream \<times> go_error option"

text \<open>
  What a request keeps fixed: the environment, the configuration, the path and the facts
  the handler derived from the request before the loop.
\<close>

record handler =
  hd_env :: env
  hd_cfg :: config
  hd_path :: bytes
  hd_recorded :: bool
  hd_jitter :: int
  hd_io :: "int \<Rightarrow> spool_io"
  hd_rd :: spool_rd
  hd_renum :: "bytes \<Rightarrow> bytes option"
  hd_retryCount :: int
  hd_firstModel :: bytes
  hd_intercept :: bool
  hd_gated :: bool
  hd_earlyCommit :: bool
  hd_window :: int

text \<open>
  The variables of the loop. \<open>hs_pending\<close> is the part of the configured fallback models
  from \<open>fallbackIndex\<close> on.
\<close>

record hstate =
  hs_body :: bytes
  hs_pending :: "bytes list"
  hs_proxyRetries :: int
  hs_legacyUsed :: bool
  hs_held :: "bufferedStream option"
  hs_safeguard :: "failure option"
  hs_last :: failure
  hs_w :: downstream

definition fallbackActive :: "hstate \<Rightarrow> bool" where
  "fallbackActive s = (hs_held s \<noteq> None \<or> hs_safeguard s \<noteq> None)"

definition budgetLeft :: "handler \<Rightarrow> bool" where
  "budgetLeft H = (hd_retryCount H < sdkRetryCap (hd_cfg H))"

text \<open>The next fallback model and the models from it on.\<close>

definition nextFallback :: "handler \<Rightarrow> bytes list \<Rightarrow> bytes \<times> bytes list" where
  "nextFallback H models =
     (case dropWhile (\<lambda>m. m = hd_firstModel H) models of [] \<Rightarrow> ([], []) | m # ms \<Rightarrow> (m, m # ms))"

section \<open>Decisions\<close>

definition tryLocalRetry :: "handler \<Rightarrow> clock \<Rightarrow> failure \<Rightarrow> hstate \<Rightarrow> bool \<times> hstate" where
  "tryLocalRetry H ck f s =
     (if fallbackActive s \<or> txLocalRetries (hd_cfg H) \<le> 0 \<or> txLocalRetries (hd_cfg H) \<le> hs_proxyRetries s
         \<or> \<not> f_transient f \<or> \<not> budgetLeft H
      then (False, s)
      else let wait = localRetryDelay (hd_cfg H) (f_retryAfter f) (hs_proxyRetries s) in
        if \<not> canWait ck wait then (False, s)
        else let c = sleepWithContext ck wait in
          if c \<noteq> CtxOk then (False, s\<lparr>hs_last := ended_failure c\<rparr>)
          else (True, s\<lparr>hs_proxyRetries := hs_proxyRetries s + 1\<rparr>))"

definition swapToFallback :: "handler \<Rightarrow> clock \<Rightarrow> hstate \<Rightarrow> bool \<times> hstate" where
  "swapToFallback H ck s =
     (if ck_ctx ck \<noteq> CtxOk \<or> (case ck_commit ck of None \<Rightarrow> False | Some left \<Rightarrow> left \<le> 0) then (False, s)
      else case nextFallback H (hs_pending s) of
             (target, models) \<Rightarrow>
               let s1 = s\<lparr>hs_pending := models\<rparr> in
               if target = [] then (False, s1)
               else (case swapModel (hs_body s) target of
                       None \<Rightarrow> (False, s1)
                     | Some body \<Rightarrow> (True, s1\<lparr>hs_pending := tl models, hs_body := body\<rparr>)))"

definition advanceFallback :: "handler \<Rightarrow> clock \<Rightarrow> failure \<Rightarrow> hstate \<Rightarrow> bool \<times> hstate" where
  "advanceFallback H ck f s =
     (if fallbackActive s \<and> claudeFallbackAction f = fallbackNext then swapToFallback H ck s else (False, s))"

section \<open>One attempt\<close>

text \<open>
  What one attempt met: the error of the round trip or the upstream's reply, for a stream
  the inputs of its capture, whether the attempt had lasted less than three seconds, and the
  clock at each decision.
\<close>

record round =
  rn_reply :: "go_error + response"
  rn_inputs :: "input list"
  rn_timedOut :: bool
  rn_ctx :: ctx_err
  rn_fast :: bool
  rn_local :: clock
  rn_legacy :: clock
  rn_swap :: clock
  rn_endCtx :: ctx_err
  rn_clientCtx :: ctx_err

text \<open>How an attempt ends: another one, out of the loop, a return, or a capture still running.\<close>

datatype verdict = Again hstate | Leave hstate | Return exit | Capturing

text \<open>The quick re-issue after 250 ms, at most once per request.\<close>

definition legacy_wait :: int where
  "legacy_wait = 250 * millisecond"

definition legacy_ready :: "handler \<Rightarrow> round \<Rightarrow> hstate \<Rightarrow> bool" where
  "legacy_ready H rn s =
     (\<not> hs_legacyUsed s \<and> f_fastRetry (hs_last s) \<and> budgetLeft H \<and> rn_fast rn \<and> canWait (rn_legacy rn) legacy_wait)"

definition legacy_retry :: "round \<Rightarrow> hstate \<Rightarrow> verdict" where
  "legacy_retry rn s =
     (let c = sleepWithContext (rn_legacy rn) legacy_wait in
      if c \<noteq> CtxOk then Leave (s\<lparr>hs_last := ended_failure c\<rparr>)
      else Again (s\<lparr>hs_legacyUsed := True, hs_proxyRetries := hs_proxyRetries s + 1\<rparr>))"

definition or_leave :: "bool \<times> hstate \<Rightarrow> verdict" where
  "or_leave r = (case r of (again, s) \<Rightarrow> if again then Again s else Leave s)"

definition on_transport_error :: "handler \<Rightarrow> round \<Rightarrow> go_error \<Rightarrow> hstate \<Rightarrow> verdict" where
  "on_transport_error H rn e s0 =
     (let s = s0\<lparr>hs_last := classifyTransport e (rn_ctx rn)\<rparr> in
      case tryLocalRetry H (rn_local rn) (hs_last s) s of
        (True, s1) \<Rightarrow> Again s1
      | (False, s1) \<Rightarrow>
          if (fallbackActive s1 \<or> txLocalRetries (hd_cfg H) = 0) \<and> legacy_ready H rn s1
          then legacy_retry rn s1
          else or_leave (advanceFallback H (rn_swap rn) (hs_last s1) s1))"

text \<open>The first failure that starts a fallback chain is kept.\<close>

definition hold_safeguard :: "failure \<Rightarrow> hstate \<Rightarrow> hstate" where
  "hold_safeguard f s = (if fallbackActive s then s else s\<lparr>hs_safeguard := Some f\<rparr>)"

definition on_http_error :: "handler \<Rightarrow> round \<Rightarrow> response \<Rightarrow> hstate \<Rightarrow> verdict" where
  "on_http_error H rn resp s0 =
     (let f = classifyUpstreamHTTPError (hd_env H) (rn_ctx rn) (hd_path H) (hd_recorded H) resp (fallbackActive s0);
          s = s0\<lparr>hs_last := f\<rparr>
      in if hd_intercept H \<and> isModelSafeguardRefusal f
         then or_leave (swapToFallback H (rn_swap rn) (hold_safeguard f s))
         else case advanceFallback H (rn_swap rn) f s of
                (True, s1) \<Rightarrow> Again s1
              | (False, s1) \<Rightarrow>
                  (case tryLocalRetry H (rn_local rn) (hs_last s1) s1 of
                     (True, s2) \<Rightarrow> Again s2
                   | (False, s2) \<Rightarrow>
                       if \<not> fallbackActive s2 \<and> txLocalRetries (hd_cfg H) = 0 \<and> f_retryAfter (hs_last s2) = 0
                          \<and> legacy_ready H rn s2
                       then legacy_retry rn s2
                       else Leave s2))"

text \<open>\<open>advanceFallback (last, st) || tryLocalRetry (last)\<close>.\<close>

definition advance_or_retry :: "handler \<Rightarrow> round \<Rightarrow> hstate \<Rightarrow> verdict" where
  "advance_or_retry H rn s =
     (case advanceFallback H (rn_swap rn) (hs_last s) s of
        (True, s1) \<Rightarrow> Again s1
      | (False, s1) \<Rightarrow> or_leave (tryLocalRetry H (rn_local rn) (hs_last s1) s1))"

definition on_plain_body :: "handler \<Rightarrow> round \<Rightarrow> response \<Rightarrow> hstate \<Rightarrow> verdict" where
  "on_plain_body H rn resp s =
     (case bufferNonSSE (hd_cfg H) (hd_io H) (rn_ctx rn) (rn_timedOut rn) resp of
        Inl f \<Rightarrow> advance_or_retry H rn (s\<lparr>hs_last := f\<rparr>)
      | Inr sp \<Rightarrow>
          let w = (hs_w s)\<lparr>ds_header := header_overlay (ds_header (hs_w s)) (safeResponseHeaders (rs_header resp) False),
                           ds_status := Some (rs_status resp)\<rparr>
          in case replayRaw (hd_rd H) sp w of
               (w', Some e) \<Rightarrow> Return (Aborted w')
             | (w', None) \<Rightarrow> Return (Done w'))"

section \<open>Streams\<close>

text \<open>The result of a capture, with the state of its wire behind the replay of a held refusal.\<close>

record captured =
  cp_wrote :: bool
  cp_fail :: "failure option"
  cp_w :: downstream
  cp_st :: captureStats
  cp_replay :: "spool \<Rightarrow> downstream \<Rightarrow> downstream \<times> go_error option"

definition run_wire ::
    "handler \<Rightarrow> response \<Rightarrow> 'm wire \<Rightarrow> 'm \<Rightarrow> downstream \<Rightarrow> input list \<Rightarrow> captured option" where
  "run_wire H resp W m w inputs =
     (case captureSSECore
         \<lparr>g_cfg = hd_cfg H, g_wire = W, g_hdr = rs_header resp, g_io = hd_io H, g_keepEvery = hd_window H,
          g_progressGated = hd_gated H, g_earlyCommit = hd_earlyCommit H\<rparr> m w stats0 inputs of
        Inr s \<Rightarrow> None
      | Inl (wrote, fail, s) \<Rightarrow>
          Some \<lparr>cp_wrote = wrote, cp_fail = fail, cp_w = e_w s, cp_st = e_st s,
                cp_replay = (\<lambda>sp w. wm_replayBuffered W (e_model s) sp w ((e_st s)\<lparr>st_heldRefusal := None\<rparr>))\<rparr>)"

text \<open>\<open>wireFor\<close> and the capture it is made for.\<close>

definition capture_with_wire ::
    "handler \<Rightarrow> bytes \<Rightarrow> response \<Rightarrow> downstream \<Rightarrow> input list \<Rightarrow> captured option" where
  "capture_with_wire H body resp w inputs =
     (if isResponsesPath (hd_path H) then
        run_wire H resp (openai_wire (hd_rd H)) (newOpenAIWire (hd_cfg H)) w inputs
      else if isGeminiPath (hd_path H) then
        run_wire H resp (gemini_wire (hd_env H) (hd_rd H)) (newGeminiWire body) w inputs
      else
        run_wire H resp (anthropic_wire (hd_renum H) (hd_cfg H) (hd_rd H))
          (anthropic_start (hd_intercept H) (hd_gated H)) w inputs)"

definition hold_refusal :: "response \<Rightarrow> captured \<Rightarrow> spool \<Rightarrow> hstate \<Rightarrow> hstate" where
  "hold_refusal resp c sp s =
     (if fallbackActive s then s
      else s\<lparr>hs_held := Some \<lparr>bs_header = rs_header resp, bs_st = (cp_st c)\<lparr>st_heldRefusal := None\<rparr>,
                              bs_replay = cp_replay c sp\<rparr>\<rparr>)"

definition on_stream :: "handler \<Rightarrow> round \<Rightarrow> response \<Rightarrow> hstate \<Rightarrow> verdict" where
  "on_stream H rn resp s0 =
     (case capture_with_wire H (hs_body s0) resp (hs_w s0) (rn_inputs rn) of
        None \<Rightarrow> Capturing
      | Some c \<Rightarrow>
          let s = s0\<lparr>hs_w := cp_w c\<rparr> in
          case cp_fail c of
            None \<Rightarrow> Return (Done (cp_w c))
          | Some f \<Rightarrow>
              (case st_heldRefusal (cp_st c) of
                 Some sp \<Rightarrow> or_leave (swapToFallback H (rn_swap rn) ((hold_refusal resp c sp s)\<lparr>hs_last := f\<rparr>))
               | None \<Rightarrow>
                   if \<not> cp_wrote c \<and> hd_intercept H \<and> isModelSafeguardRefusal f then
                     (case swapToFallback H (rn_swap rn) (hold_safeguard f s) of
                        (True, s1) \<Rightarrow> Again s1
                      | (False, s1) \<Rightarrow> Leave (s1\<lparr>hs_last := f\<rparr>))
                   else if cp_wrote c then
                     (if f_delivered f then Return (Done (cp_w c)) else Return (Aborted (cp_w c)))
                   else advance_or_retry H rn (s\<lparr>hs_last := f\<rparr>)))"

definition attempt :: "handler \<Rightarrow> round \<Rightarrow> hstate \<Rightarrow> verdict" where
  "attempt H rn s =
     (case rn_reply rn of
        Inl e \<Rightarrow> on_transport_error H rn e s
      | Inr resp \<Rightarrow>
          if rs_status resp < 200 \<or> 300 \<le> rs_status resp then on_http_error H rn resp s
          else if \<not> isEventStream (header_get (rs_header resp) ''Content-Type'') then on_plain_body H rn resp s
          else on_stream H rn resp s)"

section \<open>The answer\<close>

definition deliverHeldRefusal :: "bufferedStream \<Rightarrow> downstream \<Rightarrow> exit" where
  "deliverHeldRefusal b w =
     (case bs_replay b
         (w\<lparr>ds_header := stream_header (bs_header b) ''buffered'' (ds_header w), ds_status := Some 200\<rparr>) of
        (w', Some e) \<Rightarrow> Aborted w'
      | (w', None) \<Rightarrow> Done w')"

definition answer :: "handler \<Rightarrow> ctx_err \<Rightarrow> ctx_err \<Rightarrow> hstate \<Rightarrow> exit" where
  "answer H ctx clientCtx s =
     (let last1 = (if ctx \<noteq> CtxOk then ended_failure ctx else hs_last s);
          canRetry = (\<not> fallbackActive s \<and> f_transient last1 \<and> budgetLeft H);
          surfaced = (\<lambda>f. Done (surface_failure (hd_jitter H) (hd_path H) False (hd_retryCount H) canRetry f (hs_w s)))
      in if fallbackActive s \<and> clientCtx = CtxOk \<and> claudeFallbackAction last1 \<noteq> fallbackStop then
           (case hs_held s of
              Some b \<Rightarrow> deliverHeldRefusal b (hs_w s)
            | None \<Rightarrow> (case hs_safeguard s of Some f \<Rightarrow> surfaced f | None \<Rightarrow> surfaced last1))
         else surfaced last1)"

text \<open>\<open>Inr\<close>: the request is still being worked on when the history ends.\<close>

fun handle_loop :: "handler \<Rightarrow> round list \<Rightarrow> hstate \<Rightarrow> exit + hstate" where
  "handle_loop H [] s = Inr s"
| "handle_loop H (rn # rns) s =
     (case attempt H rn s of
        Again s' \<Rightarrow> handle_loop H rns s'
      | Leave s' \<Rightarrow> Inl (answer H (rn_endCtx rn) (rn_clientCtx rn) s')
      | Return x \<Rightarrow> Inl x
      | Capturing \<Rightarrow> Inr s)"

section \<open>What a retry keeps\<close>

fun swap_all :: "bytes list \<Rightarrow> bytes \<Rightarrow> bytes option" where
  "swap_all [] b = Some b"
| "swap_all (m # ms) b = (case swapModel b m of None \<Rightarrow> None | Some b' \<Rightarrow> swap_all ms b')"

lemma swap_all_append: "swap_all (xs @ ys) b = Option.bind (swap_all xs b) (swap_all ys)"
  by (induction xs arbitrary: b) (auto split: option.splits)

text \<open>
  \<open>held_ok\<close>: the replay of a held refusal only writes bytes. \<open>keeps H s s'\<close>: nothing was
  sent, what is held stays held, and the body is the earlier one
  with its model replaced by some of the models still to try, in their order.
\<close>

definition held_ok :: "hstate \<Rightarrow> bool" where
  "held_ok s = (case hs_held s of None \<Rightarrow> True | Some b \<Rightarrow> \<forall>w. appends w (fst (bs_replay b w)))"

definition keeps :: "handler \<Rightarrow> hstate \<Rightarrow> hstate \<Rightarrow> bool" where
  "keeps H s s' =
     (hs_w s' = hs_w s \<and> (held_ok s \<longrightarrow> held_ok s') \<and>
      (fallbackActive s \<longrightarrow> hs_held s' = hs_held s \<and> hs_safeguard s' = hs_safeguard s) \<and>
      (\<exists>ms. subseq (ms @ hs_pending s') (hs_pending s) \<and> hd_firstModel H \<notin> set ms \<and>
            swap_all ms (hs_body s) = Some (hs_body s') \<and> (ms = [] \<or> fallbackActive s')))"

text \<open>The attempts still possible.\<close>

definition attempts_left :: "handler \<Rightarrow> hstate \<Rightarrow> nat" where
  "attempts_left H s =
     nat (txLocalRetries (hd_cfg H) - hs_proxyRetries s) + (if hs_legacyUsed s then 0 else 1) + length (hs_pending s)"

lemma keeps_refl [simp]: "keeps H s s"
  by (auto simp: keeps_def intro!: exI [of _ "[]"])

lemma fallbackActive_keeps: "keeps H s s' \<Longrightarrow> fallbackActive s \<Longrightarrow> fallbackActive s'"
  by (auto simp: keeps_def held_ok_def fallbackActive_def)

lemma keeps_trans:
  assumes "keeps H s t" "keeps H t u"
  shows "keeps H s u"
proof -
  from assms(1) obtain xs where x: "subseq (xs @ hs_pending t) (hs_pending s)" "hd_firstModel H \<notin> set xs"
      "swap_all xs (hs_body s) = Some (hs_body t)" "xs = [] \<or> fallbackActive t" "hs_w t = hs_w s"
      "fallbackActive s \<longrightarrow> hs_held t = hs_held s \<and> hs_safeguard t = hs_safeguard s"
    by (auto simp: keeps_def)
  from assms(2) obtain ys where y: "subseq (ys @ hs_pending u) (hs_pending t)" "hd_firstModel H \<notin> set ys"
      "swap_all ys (hs_body t) = Some (hs_body u)" "ys = [] \<or> fallbackActive u" "hs_w u = hs_w t"
      "fallbackActive t \<longrightarrow> hs_held u = hs_held t \<and> hs_safeguard u = hs_safeguard t"
    by (auto simp: keeps_def)
  have a: "fallbackActive s \<Longrightarrow> fallbackActive t" "fallbackActive t \<Longrightarrow> fallbackActive u"
    using fallbackActive_keeps assms by blast+
  have h: "held_ok s \<Longrightarrow> held_ok u" using assms by (simp add: keeps_def)
  have "subseq ((xs @ ys) @ hs_pending u) (hs_pending s)"
  proof -
    have "subseq (xs @ ys @ hs_pending u) (xs @ hs_pending t)"
      using list_emb_append_mono [of "(=)" xs xs "ys @ hs_pending u" "hs_pending t"] y(1) by simp
    then show ?thesis using x(1) subseq_order.trans by fastforce
  qed
  moreover have "swap_all (xs @ ys) (hs_body s) = Some (hs_body u)" using x(3) y(3) by (simp add: swap_all_append)
  ultimately show ?thesis using x y a h unfolding keeps_def by (intro conjI exI [of _ "xs @ ys"]) auto
qed

text \<open>A decision: if it grants another attempt, one less is left.\<close>

definition granted :: "handler \<Rightarrow> hstate \<Rightarrow> bool \<times> hstate \<Rightarrow> bool" where
  "granted H s r =
     (case r of (again, s') \<Rightarrow> keeps H s s' \<and>
        (if again then attempts_left H s' < attempts_left H s else attempts_left H s' \<le> attempts_left H s))"

lemma granted_tryLocalRetry: "granted H s (tryLocalRetry H ck f s)"
proof -
  have k: "keeps H s (s\<lparr>hs_last := l\<rparr>)" "keeps H s (s\<lparr>hs_proxyRetries := n\<rparr>)" for l n
    by (auto simp: keeps_def held_ok_def fallbackActive_def intro!: exI [of _ "[]"])
  then show ?thesis
    by (auto simp: granted_def tryLocalRetry_def Let_def attempts_left_def)
qed

lemma nextFallback_Some:
  assumes "nextFallback H models = (m, rest)" "m \<noteq> []"
  shows "rest = m # tl rest \<and> m \<noteq> hd_firstModel H \<and> subseq (m # tl rest) models"
proof -
  from assms obtain ms where d: "dropWhile (\<lambda>m. m = hd_firstModel H) models = m # ms" and r: "rest = m # ms"
    by (auto simp: nextFallback_def split: list.splits)
  have "m \<noteq> hd_firstModel H" using d by (auto simp: dropWhile_eq_Cons_conv)
  moreover have "subseq (m # ms) models" using d by (metis suffix_dropWhile suffix_imp_subseq)
  ultimately show ?thesis using r by simp
qed

lemma nextFallback_subseq: "nextFallback H models = (m, rest) \<Longrightarrow> subseq rest models"
  using suffix_imp_subseq [OF suffix_dropWhile, of "\<lambda>m. m = hd_firstModel H" models]
  by (auto simp: nextFallback_def split: list.splits)

lemma granted_swapToFallback:
  assumes "fallbackActive s"
  shows "granted H s (swapToFallback H ck s)"
proof -
  obtain m rest where n: "nextFallback H (hs_pending s) = (m, rest)" by (cases "nextFallback H (hs_pending s)")
  note q = nextFallback_subseq [OF n]
  have k: "keeps H s (s\<lparr>hs_pending := rest\<rparr>)"
    using q by (auto simp: keeps_def held_ok_def fallbackActive_def intro!: exI [of _ "[]"])
  have l: "length rest \<le> length (hs_pending s)" using q by (rule list_emb_length)
  have c: "keeps H s (s\<lparr>hs_pending := tl rest, hs_body := b\<rparr>) \<and> length (tl rest) < length (hs_pending s)"
    if "m \<noteq> []" "swapModel (hs_body s) m = Some b" for b
  proof -
    note r = nextFallback_Some [OF n that(1)]
    then have "length (tl rest) < length (hs_pending s)" using l by (cases rest) simp_all
    moreover have "keeps H s (s\<lparr>hs_pending := tl rest, hs_body := b\<rparr>)"
      using r that(2) assms by (auto simp: keeps_def held_ok_def fallbackActive_def intro!: exI [of _ "[m]"])
    ultimately show ?thesis by simp
  qed
  show ?thesis
    using k l c by (auto simp: granted_def swapToFallback_def n Let_def attempts_left_def split: option.splits)
qed

lemma granted_advanceFallback: "granted H s (advanceFallback H ck f s)"
  using granted_swapToFallback [of s H ck] by (auto simp: advanceFallback_def granted_def)

text \<open>An attempt that does not end the request sends nothing and uses up one of those left.\<close>

definition verdict_ok :: "handler \<Rightarrow> hstate \<Rightarrow> verdict \<Rightarrow> bool" where
  "verdict_ok H s v =
     (case v of
        Again s' \<Rightarrow> keeps H s s' \<and> attempts_left H s' < attempts_left H s
      | Leave s' \<Rightarrow> keeps H s s'
      | _ \<Rightarrow> True)"

lemma verdict_ok_from:
  assumes "keeps H s t" "attempts_left H t \<le> attempts_left H s" "verdict_ok H t v"
  shows "verdict_ok H s v"
  using assms by (auto simp: verdict_ok_def split: verdict.splits dest: keeps_trans)

lemma or_leave_ok: "granted H s r \<Longrightarrow> verdict_ok H s (or_leave r)"
  by (auto simp: granted_def or_leave_def verdict_ok_def split: prod.splits)

lemma legacy_retry_ok: "\<not> hs_legacyUsed s \<Longrightarrow> verdict_ok H s (legacy_retry rn s)"
  by (auto simp: legacy_retry_def Let_def verdict_ok_def keeps_def held_ok_def attempts_left_def fallbackActive_def
      intro!: exI [of _ "[]"])

lemma granted_cases:
  assumes "granted H s (b, t)"
  shows "keeps H s t" "attempts_left H t \<le> attempts_left H s" "b \<Longrightarrow> verdict_ok H s (Again t)"
  using assms by (auto simp: granted_def verdict_ok_def split: if_splits)

lemma set_last_keeps: "keeps H s (s\<lparr>hs_last := f\<rparr>) \<and> attempts_left H (s\<lparr>hs_last := f\<rparr>) = attempts_left H s"
  by (auto simp: keeps_def held_ok_def attempts_left_def fallbackActive_def intro!: exI [of _ "[]"])

lemma hold_safeguard_keeps:
  "keeps H s (hold_safeguard f s) \<and> attempts_left H (hold_safeguard f s) = attempts_left H s \<and> fallbackActive (hold_safeguard f s)"
  by (auto simp: keeps_def held_ok_def hold_safeguard_def attempts_left_def fallbackActive_def intro!: exI [of _ "[]"])

lemma hold_refusal_keeps:
  "(\<And>v. appends v (fst (cp_replay c sp v))) \<Longrightarrow>
   keeps H s (hold_refusal resp c sp s) \<and> attempts_left H (hold_refusal resp c sp s) = attempts_left H s
   \<and> fallbackActive (hold_refusal resp c sp s)"
  by (auto simp: keeps_def held_ok_def hold_refusal_def attempts_left_def fallbackActive_def intro!: exI [of _ "[]"])


lemma advance_or_retry_ok: "verdict_ok H s (advance_or_retry H rn s)"
proof -
  obtain b t where a: "advanceFallback H (rn_swap rn) (hs_last s) s = (b, t)" by (rule prod.exhaust)
  note g = granted_cases [OF granted_advanceFallback [of H s "rn_swap rn" "hs_last s", unfolded a]]
  have "verdict_ok H t (or_leave (tryLocalRetry H (rn_local rn) (hs_last t) t))"
    by (rule or_leave_ok [OF granted_tryLocalRetry])
  from verdict_ok_from [OF g(1,2) this] g(3) show ?thesis
    by (cases b) (simp_all add: advance_or_retry_def a)
qed

lemma on_transport_error_ok: "verdict_ok H s (on_transport_error H rn e s)"
proof -
  define u where "u = s\<lparr>hs_last := classifyTransport e (rn_ctx rn)\<rparr>"
  have u: "keeps H s u" "attempts_left H u \<le> attempts_left H s" using set_last_keeps by (simp_all add: u_def)
  obtain b t where a: "tryLocalRetry H (rn_local rn) (hs_last u) u = (b, t)" by (rule prod.exhaust)
  note g = granted_cases [OF granted_tryLocalRetry [of H u "rn_local rn" "hs_last u", unfolded a]]
  have "verdict_ok H t (if (fallbackActive t \<or> txLocalRetries (hd_cfg H) = 0) \<and> legacy_ready H rn t
      then legacy_retry rn t else or_leave (advanceFallback H (rn_swap rn) (hs_last t) t))"
    by (auto simp: legacy_ready_def intro: legacy_retry_ok or_leave_ok granted_advanceFallback)
  from verdict_ok_from [OF g(1,2) this] g(3) have "verdict_ok H u (on_transport_error H rn e s)"
    unfolding on_transport_error_def Let_def u_def [symmetric] a by (cases b) simp_all
  with u show ?thesis by (rule verdict_ok_from)
qed

lemma swap_held_ok:
  assumes "keeps H s t \<and> attempts_left H t = attempts_left H s \<and> fallbackActive t"
  shows "verdict_ok H s (or_leave (swapToFallback H ck t))"
  using assms by (intro verdict_ok_from [of H s t] or_leave_ok granted_swapToFallback) auto

lemma on_http_error_ok: "verdict_ok H s (on_http_error H rn resp s)"
proof -
  define f where "f = classifyUpstreamHTTPError (hd_env H) (rn_ctx rn) (hd_path H) (hd_recorded H) resp (fallbackActive s)"
  define u where "u = s\<lparr>hs_last := f\<rparr>"
  have u: "keeps H s u" "attempts_left H u \<le> attempts_left H s" using set_last_keeps by (simp_all add: u_def)
  obtain b t where a: "advanceFallback H (rn_swap rn) f u = (b, t)" by (rule prod.exhaust)
  note g = granted_cases [OF granted_advanceFallback [of H u "rn_swap rn" f, unfolded a]]
  obtain c v where r: "tryLocalRetry H (rn_local rn) (hs_last t) t = (c, v)" by (rule prod.exhaust)
  note h = granted_cases [OF granted_tryLocalRetry [of H t "rn_local rn" "hs_last t", unfolded r]]
  have "verdict_ok H v (if \<not> fallbackActive v \<and> txLocalRetries (hd_cfg H) = 0 \<and> f_retryAfter (hs_last v) = 0
      \<and> legacy_ready H rn v then legacy_retry rn v else Leave v)"
    by (auto simp: legacy_ready_def verdict_ok_def [of H v "Leave v"] intro: legacy_retry_ok)
  from verdict_ok_from [OF h(1,2) this] h(3) have t: "verdict_ok H t (case (c, v) of (True, s2) \<Rightarrow> Again s2
      | (False, s2) \<Rightarrow> if \<not> fallbackActive s2 \<and> txLocalRetries (hd_cfg H) = 0 \<and> f_retryAfter (hs_last s2) = 0
          \<and> legacy_ready H rn s2 then legacy_retry rn s2 else Leave s2)"
    by (cases c) simp_all
  have "verdict_ok H u (on_http_error H rn resp s)"
    unfolding on_http_error_def Let_def f_def [symmetric] u_def [symmetric] a
    using verdict_ok_from [OF g(1,2) t] g(3) swap_held_ok [OF hold_safeguard_keeps]
    by (cases b) (auto simp: r)
  with u show ?thesis by (rule verdict_ok_from)
qed

lemma on_plain_body_ok: "verdict_ok H s (on_plain_body H rn resp s)"
proof (cases "bufferNonSSE (hd_cfg H) (hd_io H) (rn_ctx rn) (rn_timedOut rn) resp")
  case (Inl f)
  have "verdict_ok H s (advance_or_retry H rn (s\<lparr>hs_last := f\<rparr>))"
    by (rule verdict_ok_from [OF _ _ advance_or_retry_ok]) (use set_last_keeps in auto)
  with Inl show ?thesis by (simp add: on_plain_body_def)
next
  case (Inr sp)
  then show ?thesis by (auto simp: on_plain_body_def Let_def verdict_ok_def split: prod.splits option.splits)
qed

section \<open>Captures\<close>

text \<open>
  What a capture tells the handler: either it wrote a stream with status 200 and holds no
  refusal, or the client is untouched and there is a failure. Its replay only writes bytes.
\<close>

definition captured_ok :: "downstream \<Rightarrow> captured \<Rightarrow> bool" where
  "captured_ok w c =
     ((if cp_wrote c
      then ds_status (cp_w c) = Some 200 \<and> prefix (ds_body w) (ds_body (cp_w c)) \<and> st_heldRefusal (cp_st c) = None
      else cp_w c = w \<and> cp_fail c \<noteq> None) \<and>
     (\<forall>sp v. appends v (fst (cp_replay c sp v))))"

lemma run_wire_ok:
  assumes "stats_wire W" "run_wire H resp W m w inputs = Some c"
  shows "captured_ok w c"
proof -
  define G where "G = \<lparr>g_cfg = hd_cfg H, g_wire = W, g_hdr = rs_header resp, g_io = hd_io H, g_keepEvery = hd_window H,
    g_progressGated = hd_gated H, g_earlyCommit = hd_earlyCommit H\<rparr>"
  obtain wrote fail t where r: "captureSSECore G m w stats0 inputs = Inl (wrote, fail, t)"
      "cp_wrote c = wrote" "cp_fail c = fail" "cp_w c = e_w t" "cp_st c = e_st t"
    using assms(2) by (auto simp: run_wire_def G_def split: sum.splits prod.splits)
  have g: "g_wire G = W" by (simp add: G_def)
  have "wire_laws W" using assms(1) by (simp add: stats_wire_def)
  have "appends v (fst (cp_replay c sp v))" for sp v
    using assms(2) wire_laws.buffered_appends [OF \<open>wire_laws W\<close>]
    by (auto simp: run_wire_def split: sum.splits prod.splits) (metis prod.collapse)
  with wire_laws.captureSSECore_ok [OF \<open>wire_laws W\<close> g, of w m stats0 inputs] r
    stats_wire.capture_held [OF assms(1) g, of m w stats0 inputs fail t]
  show ?thesis
    by (auto simp: step_good_def result_ok_def sent_ok_def captured_ok_def stats0_def split: if_splits)
qed

lemma capture_with_wire_ok: "capture_with_wire H body resp w inputs = Some c \<Longrightarrow> captured_ok w c"
  by (auto simp: capture_with_wire_def split: if_splits intro: run_wire_ok oa_stats.stats_wire_axioms
      gm_stats.stats_wire_axioms an_stats.stats_wire_axioms)

lemma on_stream_ok: "verdict_ok H s (on_stream H rn resp s)"
proof (cases "capture_with_wire H (hs_body s) resp (hs_w s) (rn_inputs rn)")
  case (Some c)
  note c = capture_with_wire_ok [OF Some]
  show ?thesis
  proof (cases "cp_wrote c")
    case True
    with c have "st_heldRefusal (cp_st c) = None" by (simp add: captured_ok_def)
    with True Some show ?thesis
      by (auto simp: on_stream_def Let_def verdict_ok_def split: option.splits)
  next
    case False
    with c obtain f where w: "cp_w c = hs_w s" and f: "cp_fail c = Some f" by (auto simp: captured_ok_def)
    have a: "verdict_ok H s (advance_or_retry H rn (s\<lparr>hs_last := f\<rparr>))"
      by (rule verdict_ok_from [OF _ _ advance_or_retry_ok]) (use set_last_keeps in auto)
    have r: "verdict_ok H s (or_leave (swapToFallback H (rn_swap rn) ((hold_refusal resp c sp s)\<lparr>hs_last := f\<rparr>)))" for sp
    proof (rule swap_held_ok)
      let ?t = "hold_refusal resp c sp s"
      have a: "\<And>v. appends v (fst (cp_replay c sp v))" using c by (simp add: captured_ok_def)
      note h = hold_refusal_keeps [OF a, where H = H and s = s and resp = resp]
      have "keeps H s (?t\<lparr>hs_last := f\<rparr>)" using h set_last_keeps keeps_trans by blast
      then show "keeps H s (?t\<lparr>hs_last := f\<rparr>) \<and> attempts_left H (?t\<lparr>hs_last := f\<rparr>) = attempts_left H s
          \<and> fallbackActive (?t\<lparr>hs_last := f\<rparr>)"
        using h by (simp add: attempts_left_def fallbackActive_def)
    qed
    obtain b t where g: "swapToFallback H (rn_swap rn) (hold_safeguard f s) = (b, t)" by (rule prod.exhaust)
    have "verdict_ok H s (or_leave (b, t))"
      using swap_held_ok [OF hold_safeguard_keeps, of H s "rn_swap rn" f] g by simp
    then have "verdict_ok H s (case (b, t) of (True, s1) \<Rightarrow> Again s1 | (False, s1) \<Rightarrow> Leave (s1\<lparr>hs_last := f\<rparr>))"
      using keeps_trans set_last_keeps by (cases b) (auto simp: or_leave_def verdict_ok_def)
    with a r g Some False w f show ?thesis by (simp add: on_stream_def split: option.splits)
  qed
qed (simp add: on_stream_def verdict_ok_def)

lemma attempt_ok: "verdict_ok H s (attempt H rn s)"
  by (auto simp: attempt_def intro: on_transport_error_ok on_http_error_ok on_plain_body_ok on_stream_ok split: sum.splits)


section \<open>The loop\<close>

lemma handle_loop_keeps: "handle_loop H rns s = Inr t \<Longrightarrow> keeps H s t"
proof (induction rns arbitrary: s)
  case (Cons rn rns)
  show ?case
  proof (cases "attempt H rn s")
    case (Again u)
    with attempt_ok [of H s rn] have "keeps H s u" by (simp add: verdict_ok_def)
    with Cons Again show ?thesis by (auto intro: keeps_trans)
  qed (use Cons.prems in auto)
qed simp

lemma run_wire_ends:
  assumes "list_ex ends_capture inputs"
  shows "run_wire H resp W m w inputs \<noteq> None"
proof -
  obtain i where i: "i \<in> set inputs" "ends_capture i" using assms by (auto simp: list_ex_iff)
  let ?G = "\<lparr>g_cfg = hd_cfg H, g_wire = W, g_hdr = rs_header resp, g_io = hd_io H, g_keepEvery = hd_window H,
    g_progressGated = hd_gated H, g_earlyCommit = hd_earlyCommit H\<rparr>"
  obtain r where "captureSSECore ?G m w stats0 inputs = Inl r" by (rule exE [OF capture_ends [OF i]])
  then show ?thesis by (cases r) (simp add: run_wire_def)
qed

lemma capture_with_wire_ends:
  "list_ex ends_capture inputs \<Longrightarrow> capture_with_wire H body resp w inputs \<noteq> None"
  by (simp add: capture_with_wire_def run_wire_ends del: not_None_eq)

lemma or_leave_returns: "or_leave r \<noteq> Capturing" "legacy_retry rn t \<noteq> Capturing"
  by (simp_all add: or_leave_def legacy_retry_def Let_def split: prod.split)

lemma advance_or_retry_returns: "advance_or_retry H rn t \<noteq> Capturing"
  by (simp add: advance_or_retry_def or_leave_returns split: prod.split bool.split)

lemma attempt_ends:
  assumes "list_ex ends_capture (rn_inputs rn)"
  shows "attempt H rn s \<noteq> Capturing"
proof -
  have "on_transport_error H rn e s \<noteq> Capturing" for e
    by (simp add: on_transport_error_def Let_def or_leave_returns split: prod.split bool.split)
  moreover have "on_http_error H rn resp s \<noteq> Capturing" for resp
    by (simp add: on_http_error_def Let_def or_leave_returns split: prod.split bool.split)
  moreover have "on_plain_body H rn resp s \<noteq> Capturing" for resp
    by (simp add: on_plain_body_def Let_def advance_or_retry_returns split: sum.split prod.split option.split)
  moreover have "on_stream H rn resp s \<noteq> Capturing" for resp
  proof -
    obtain c where c: "capture_with_wire H (hs_body s) resp (hs_w s) (rn_inputs rn) = Some c"
      using capture_with_wire_ends [OF assms] by blast
    show ?thesis
      by (simp add: on_stream_def c Let_def or_leave_returns advance_or_retry_returns split: option.split prod.split bool.split)
  qed
  ultimately show ?thesis by (simp add: attempt_def split: sum.split)
qed

lemma handle_loop_returns:
  assumes "attempts_left H s < length rns" "list_all (\<lambda>rn. list_ex ends_capture (rn_inputs rn)) rns"
  shows "\<exists>x. handle_loop H rns s = Inl x"
  using assms
proof (induction rns arbitrary: s)
  case (Cons rn rns)
  show ?case
  proof (cases "attempt H rn s")
    case (Again u)
    with attempt_ok [of H s rn] have "attempts_left H u < attempts_left H s" by (simp add: verdict_ok_def)
    with Cons Again show ?thesis by simp
  next
    case Capturing
    with attempt_ends Cons.prems show ?thesis by simp
  qed simp_all
qed simp


section \<open>The request\<close>

text \<open>
  A request as the handler meets it: \<open>rq_sse\<close> is whether the query asks for \<open>alt=sse\<close>; the
  body comes with its declared length (-1 when there is none), the bytes the client sends
  and the error that cuts them short.
\<close>

record request =
  rq_method :: bytes
  rq_path :: bytes
  rq_header :: header
  rq_sse :: bool
  rq_http1 :: bool
  rq_length :: int
  rq_body :: bytes
  rq_bodyErr :: "go_error option"

datatype body_read = BodyTooBig | BodyError | BodyRead bytes

definition readBody :: "config \<Rightarrow> request \<Rightarrow> body_read" where
  "readBody cfg rq =
     (if maxRequestBytes cfg < rq_length rq then BodyTooBig
      else if maxRequestBytes cfg < int (length (rq_body rq)) then BodyTooBig
      else (case rq_bodyErr rq of Some e \<Rightarrow> BodyError | None \<Rightarrow> BodyRead (rq_body rq)))"

definition geminiStream :: "request \<Rightarrow> bool" where
  "geminiStream rq = (snd (geminiTarget (rq_path rq)) = ''streamGenerateContent'' \<and> rq_sse rq)"

definition transactional :: "request \<Rightarrow> bytes \<Rightarrow> bool" where
  "transactional rq body =
     (rq_method rq = ''POST'' \<and>
      (geminiStream rq \<or>
       (requestWantsStream body \<and> (isMessagesPath (rq_path rq) \<or> isResponsesPath (rq_path rq)))))"

text \<open>What the process provides: configuration, files, the clock's jitter, the log.\<close>

record server =
  sv_env :: env
  sv_cfg :: config
  sv_recorded :: bool
  sv_jitter :: int
  sv_io :: "int \<Rightarrow> spool_io"
  sv_rd :: spool_rd
  sv_renum :: "bytes \<Rightarrow> bytes option"
  sv_flush :: "downstream \<Rightarrow> go_error option"

text \<open>The facts derived before the loop, and its first state.\<close>

definition base_handler :: "server \<Rightarrow> request \<Rightarrow> bytes \<Rightarrow> handler" where
  "base_handler S rq body =
     (let isResp = isResponsesPath (rq_path rq); isMessages = isMessagesPath (rq_path rq);
          earlyCommit = (isResp \<and> responsesEarlyCommit (sv_cfg S));
          gated = (isMessages \<and> isWorkflowAgent body)
      in \<lparr>hd_env = sv_env S, hd_cfg = sv_cfg S, hd_path = rq_path rq, hd_recorded = sv_recorded S,
          hd_jitter = sv_jitter S, hd_io = sv_io S, hd_rd = sv_rd S, hd_renum = sv_renum S,
          hd_retryCount = atoiSafe (header_get (rq_header rq) ''X-Stainless-Retry-Count''),
          hd_firstModel = modelOf body, hd_intercept = False, hd_gated = gated, hd_earlyCommit = earlyCommit,
          hd_window = (if geminiStream rq then geminiBufferMs (sv_cfg S)
                       else keepaliveWindow (sv_cfg S) isResp earlyCommit gated)\<rparr>)"

definition start :: "server \<Rightarrow> request \<Rightarrow> bytes \<Rightarrow> downstream \<Rightarrow> handler \<times> hstate" where
  "start S rq body w =
     (let H = base_handler S rq body; models = claudeRefusalFallbacks (sv_cfg S);
          asked = (isMessagesPath (rq_path rq) \<and> isClaudeModel (hd_firstModel H));
          (target, rest) = (if asked then nextFallback H models else ([], models))
      in (H\<lparr>hd_intercept := (asked \<and> target \<noteq> [])\<rparr>,
          \<lparr>hs_body = body, hs_pending = rest, hs_proxyRetries = 0, hs_legacyUsed = False, hs_held = None,
           hs_safeguard = None, hs_last = failure0, hs_w = w\<rparr>))"

text \<open>
  \<open>handle\<close>, after the version endpoint: \<open>noRead\<close> and \<open>noWrite\<close> tell that a connection
  deadline could not be set; a request that is not buffered meets \<open>reply\<close> in context
  \<open>ctx\<close>, a buffered one the rounds.
\<close>

definition handle ::
    "server \<Rightarrow> bool \<Rightarrow> bool \<Rightarrow> request \<Rightarrow> ctx_err \<Rightarrow> go_error + response \<Rightarrow> round list \<Rightarrow> downstream
     \<Rightarrow> exit + hstate" where
  "handle S noRead noWrite rq ctx reply rns w =
     (let path = rq_path rq; writeErr = errorWriterFor path in
      if noRead then
        Inl (Done (writeErr False 500 ''api_error'' ''proxy: setting request read deadline'' 0 ''read_deadline'' w))
      else if noWrite then
        Inl (Done (writeErr False 500 ''api_error'' ''proxy: setting response write deadline'' 0 ''write_deadline'' w))
      else case readBody (sv_cfg S) rq of
             BodyTooBig \<Rightarrow>
               (case surfaceFor path (failure0\<lparr>f_status := 413, f_atype := ''invalid_request_error''\<rparr>) of
                  (st, ty) \<Rightarrow>
                    Inl (Done (writeErr False st ty (programName @ '': request body exceeds limit'') 0 ''request_too_large''
                      (if rq_http1 rq then w\<lparr>ds_header := header_set (ds_header w) ''Connection'' ''close''\<rparr> else w))))
           | BodyError \<Rightarrow>
               Inl (Done (writeErr False 502 ''api_error'' ''proxy: reading request body'' 0 ''read_body'' w))
           | BodyRead body \<Rightarrow>
               if \<not> transactional rq body then
                 Inl (proxyOnce (sv_env S) (sv_cfg S) ctx (sv_jitter S) (sv_flush S) (sv_recorded S)
                        (rq_method rq) path (rq_header rq) reply w)
               else (case start S rq body w of (H, s) \<Rightarrow> handle_loop H rns s))"


section \<open>Every request is answered\<close>

lemma start_left:
  assumes "start S rq body w = (H, s)"
  shows "attempts_left H s \<le> nat (txLocalRetries (sv_cfg S)) + length (claudeRefusalFallbacks (sv_cfg S)) + 1"
proof -
  let ?ms = "claudeRefusalFallbacks (sv_cfg S)"
  obtain m rest where n: "nextFallback (base_handler S rq body) ?ms = (m, rest)" by (metis surj_pair)
  have "length rest \<le> length ?ms" using nextFallback_subseq [OF n] by (rule list_emb_length)
  with assms n show ?thesis
    by (auto simp: start_def Let_def attempts_left_def base_handler_def split: if_splits)
qed

text \<open>
  C1. Every request is answered: the handler leaves its loop after at most as many attempts
  as there are local retries and fallback models, one quick re-issue and one more, whatever
  the upstream does, as long as each stream it opens ends, fails, stalls or meets the end of
  the request.
\<close>

theorem handler_returns:
  assumes "nat (txLocalRetries (sv_cfg S)) + length (claudeRefusalFallbacks (sv_cfg S)) + 1 < length rns"
    and "list_all (\<lambda>rn. list_ex ends_capture (rn_inputs rn)) rns"
  shows "\<exists>x. handle S noRead noWrite rq ctx reply rns w = Inl x"
proof -
  have "\<exists>x. handle_loop H rns s = Inl x" if "start S rq body w = (H, s)" for body H s
    using start_left [OF that] assms by (intro handle_loop_returns) auto
  then show ?thesis
    by (auto simp: handle_def Let_def split: body_read.split prod.split)
qed

text \<open>
  C2. While the request is worked on the client hears nothing: no attempt that is followed
  by another one has sent a byte or a header. The body that is sent upstream is the
  request's own with its model replaced by fallback models in the configured order, each at
  most once and never the model first asked for, and only after a refusal; the refusal held
  back is the first one.
\<close>

theorem attempts_are_hidden:
  assumes "handle_loop H rns s = Inr t"
  shows "hs_w t = hs_w s \<and>
    (\<exists>ms. subseq ms (hs_pending s) \<and> hd_firstModel H \<notin> set ms \<and>
          swap_all ms (hs_body s) = Some (hs_body t) \<and> (ms = [] \<or> fallbackActive t)) \<and>
    (fallbackActive s \<longrightarrow> hs_held t = hs_held s \<and> hs_safeguard t = hs_safeguard s)"
proof -
  from handle_loop_keeps [OF assms] obtain ms where m: "subseq (ms @ hs_pending t) (hs_pending s)"
      "hd_firstModel H \<notin> set ms" "swap_all ms (hs_body s) = Some (hs_body t)" "ms = [] \<or> fallbackActive t"
    by (auto simp: keeps_def)
  have "subseq ms (ms @ hs_pending t)" using list_emb_prefix [of "(=)" ms ms] by simp
  with m(1) have "subseq ms (hs_pending s)" by (rule subseq_order.trans [rotated])
  with m handle_loop_keeps [OF assms] show ?thesis by (auto simp: keeps_def)
qed

text \<open>
  The answer at the end of a request that holds a refusal \<open>b\<close>: that of a later attempt, or,
  when an attempt leaves the loop with the last failure \<open>f\<close>, the refusal replayed, unless the
  client has left or only the user can act on \<open>f\<close>: then it is \<open>f\<close>, without an offer to retry.
\<close>

definition last_failure :: "round \<Rightarrow> hstate \<Rightarrow> failure" where
  "last_failure rn u = (if rn_endCtx rn \<noteq> CtxOk then ended_failure (rn_endCtx rn) else hs_last u)"

definition refusal_answered :: "handler \<Rightarrow> round list \<Rightarrow> hstate \<Rightarrow> bufferedStream \<Rightarrow> exit \<Rightarrow> bool" where
  "refusal_answered H rns s b x =
     ((\<exists>rn \<in> set rns. \<exists>t. keeps H s t \<and> hs_held t = Some b \<and> attempt H rn t = Return x) \<or>
      (\<exists>rn \<in> set rns. \<exists>t u. keeps H s t \<and> attempt H rn t = Leave u \<and> hs_held u = Some b \<and>
         x = (if rn_clientCtx rn = CtxOk \<and> claudeFallbackAction (last_failure rn u) \<noteq> fallbackStop
              then deliverHeldRefusal b (hs_w s)
              else Done (surface_failure (hd_jitter H) (hd_path H) False (hd_retryCount H) False
                     (last_failure rn u) (hs_w s)))))"

lemma refusal_answered_later:
  assumes "refusal_answered H rns u b x" "keeps H s u"
  shows "refusal_answered H (rn # rns) s b x"
proof -
  have w: "hs_w u = hs_w s" using assms(2) by (simp add: keeps_def)
  note t = keeps_trans [OF assms(2)]
  from assms(1) consider
      rn' v where "rn' \<in> set rns" "keeps H u v" "hs_held v = Some b" "attempt H rn' v = Return x"
    | rn' v z where "rn' \<in> set rns" "keeps H u v" "attempt H rn' v = Leave z" "hs_held z = Some b"
        "x = (if rn_clientCtx rn' = CtxOk \<and> claudeFallbackAction (last_failure rn' z) \<noteq> fallbackStop
              then deliverHeldRefusal b (hs_w s)
              else Done (surface_failure (hd_jitter H) (hd_path H) False (hd_retryCount H) False
                     (last_failure rn' z) (hs_w s)))"
    unfolding refusal_answered_def w by blast
  then show ?thesis
  proof cases
    case 1
    with t [of v] show ?thesis unfolding refusal_answered_def list.set by blast
  next
    case 2
    with t [of v] show ?thesis unfolding refusal_answered_def list.set by blast
  qed
qed

lemma answer_with_refusal:
  assumes "attempt H rn s = Leave u" "hs_held u = Some b" "keeps H s u"
  shows "refusal_answered H (rn # rns) s b (answer H (rn_endCtx rn) (rn_clientCtx rn) u)"
proof -
  have w: "hs_w u = hs_w s" using assms(3) by (simp add: keeps_def)
  have "answer H (rn_endCtx rn) (rn_clientCtx rn) u =
      (if rn_clientCtx rn = CtxOk \<and> claudeFallbackAction (last_failure rn u) \<noteq> fallbackStop
       then deliverHeldRefusal b (hs_w s)
       else Done (surface_failure (hd_jitter H) (hd_path H) False (hd_retryCount H) False (last_failure rn u) (hs_w s)))"
    unfolding answer_def last_failure_def Let_def w using assms(2) by (simp add: fallbackActive_def)
  with assms keeps_refl show ?thesis unfolding refusal_answered_def list.set by blast
qed

lemma held_refusal_answered:
  "hs_held s = Some b \<Longrightarrow> handle_loop H rns s = Inl x \<Longrightarrow> refusal_answered H rns s b x"
proof (induction rns arbitrary: s)
  case (Cons rn rns)
  have k: "hs_held t = Some b" if "keeps H s t" for t
    using that Cons.prems(1) by (auto simp: keeps_def fallbackActive_def)
  show ?case
  proof (cases "attempt H rn s")
    case (Again u)
    then have u: "keeps H s u" using attempt_ok [of H s rn] by (simp add: verdict_ok_def)
    from Cons.IH [OF k [OF u]] Cons.prems(2) Again u show ?thesis by (auto intro: refusal_answered_later)
  next
    case (Leave u)
    then have u: "keeps H s u" using attempt_ok [of H s rn] by (simp add: verdict_ok_def)
    from answer_with_refusal [OF Leave k [OF u] u] Leave Cons.prems(2) show ?thesis by simp
  next
    case (Return y)
    with Cons.prems keeps_refl show ?thesis by (auto simp: refusal_answered_def)
  next
    case Capturing
    with Cons.prems(2) show ?thesis by simp
  qed
qed simp

text \<open>
  The refusal a round meets, if its stream is one, with what replays it; and the first one of
  a request, met by a round that is not yet on a fallback model.
\<close>

definition refusal_of :: "handler \<Rightarrow> round \<Rightarrow> hstate \<Rightarrow> bufferedStream option" where
  "refusal_of H rn s =
     (case rn_reply rn of
        Inl e \<Rightarrow> None
      | Inr resp \<Rightarrow>
          if rs_status resp < 200 \<or> 300 \<le> rs_status resp
             \<or> \<not> isEventStream (header_get (rs_header resp) ''Content-Type'') then None
          else (case capture_with_wire H (hs_body s) resp (hs_w s) (rn_inputs rn) of
                  None \<Rightarrow> None
                | Some c \<Rightarrow>
                    if cp_fail c = None then None
                    else map_option (\<lambda>sp. \<lparr>bs_header = rs_header resp, bs_st = (cp_st c)\<lparr>st_heldRefusal := None\<rparr>,
                                          bs_replay = cp_replay c sp\<rparr>) (st_heldRefusal (cp_st c))))"

fun first_refusal :: "handler \<Rightarrow> round list \<Rightarrow> hstate \<Rightarrow> bufferedStream option" where
  "first_refusal H [] s = hs_held s"
| "first_refusal H (rn # rns) s =
     (if fallbackActive s then hs_held s
      else case refusal_of H rn s of
             Some b \<Rightarrow> Some b
           | None \<Rightarrow> (case attempt H rn s of Again s' \<Rightarrow> first_refusal H rns s' | _ \<Rightarrow> None))"

text \<open>The round that meets it goes on with it held, to a fallback model or to the answer.\<close>

lemma refusal_round:
  assumes "\<not> fallbackActive s" "refusal_of H rn s = Some b"
  obtains t where "attempt H rn s = Again t \<or> attempt H rn s = Leave t" "keeps H s t" "hs_held t = Some b"
proof -
  obtain resp c f sp where r: "rn_reply rn = Inr resp" "200 \<le> rs_status resp" "rs_status resp < 300"
      "isEventStream (header_get (rs_header resp) ''Content-Type'')"
      and c: "capture_with_wire H (hs_body s) resp (hs_w s) (rn_inputs rn) = Some c"
      and f: "cp_fail c = Some f" "st_heldRefusal (cp_st c) = Some sp"
      and b: "b = \<lparr>bs_header = rs_header resp, bs_st = (cp_st c)\<lparr>st_heldRefusal := None\<rparr>, bs_replay = cp_replay c sp\<rparr>"
    using assms(2) by (auto simp: refusal_of_def split: sum.splits if_splits option.splits)
  from capture_with_wire_ok [OF c] f have w: "cp_w c = hs_w s" and a: "\<And>v. appends v (fst (cp_replay c sp v))"
    by (auto simp: captured_ok_def split: if_splits)
  define u where "u = (hold_refusal resp c sp s)\<lparr>hs_last := f\<rparr>"
  have u: "keeps H s u"
    unfolding u_def using hold_refusal_keeps [OF a, where H = H and s = s and resp = resp] set_last_keeps keeps_trans by blast
  have h: "hs_held u = Some b" "fallbackActive u" using assms(1) by (simp_all add: u_def hold_refusal_def b fallbackActive_def)
  obtain again t where sw: "swapToFallback H (rn_swap rn) u = (again, t)" by (rule prod.exhaust)
  from granted_cases(1) [OF granted_swapToFallback [OF h(2), of H "rn_swap rn", unfolded sw]] have t: "keeps H u t" .
  have "attempt H rn s = or_leave (swapToFallback H (rn_swap rn) u)"
    using r w f by (simp add: attempt_def on_stream_def c Let_def u_def)
  then have "attempt H rn s = Again t \<or> attempt H rn s = Leave t" by (simp add: sw or_leave_def)
  moreover have "hs_held t = Some b" using t h by (simp add: keeps_def)
  ultimately show ?thesis using that keeps_trans [OF u t] by blast
qed

text \<open>
  C16. A refusal is not lost. From the round that meets the first one on, the request ends with
  an answer of a later attempt, given while that refusal is still held, or with an attempt
  that leaves the loop: then the refusal is replayed as it was received, unless the client
  has left or the last failure is one only the user can act on, and only then the answer is
  that failure, without an invitation to retry.
\<close>

theorem refusal_not_lost:
  assumes "first_refusal H rns s = Some b" "handle_loop H rns s = Inl x"
  shows "(\<exists>rn \<in> set rns. \<exists>t. keeps H s t \<and> hs_held t = Some b \<and> attempt H rn t = Return x) \<or>
    (\<exists>rn \<in> set rns. \<exists>t u. keeps H s t \<and> attempt H rn t = Leave u \<and> hs_held u = Some b \<and>
       x = (if rn_clientCtx rn = CtxOk \<and> claudeFallbackAction (last_failure rn u) \<noteq> fallbackStop
            then deliverHeldRefusal b (hs_w s)
            else Done (surface_failure (hd_jitter H) (hd_path H) False (hd_retryCount H) False
                   (last_failure rn u) (hs_w s))))"
  using assms
proof (fold refusal_answered_def, induction rns arbitrary: s)
  case (Cons rn rns)
  show ?case
  proof (cases "fallbackActive s")
    case True
    with Cons.prems show ?thesis by (intro held_refusal_answered) simp_all
  next
    case na: False
    show ?thesis
    proof (cases "refusal_of H rn s")
      case (Some b')
      with Cons.prems na have "refusal_of H rn s = Some b" by simp
      from refusal_round [OF na this] obtain t where
          t: "attempt H rn s = Again t \<or> attempt H rn s = Leave t" "keeps H s t" "hs_held t = Some b" by metis
      show ?thesis
        using t(1)
      proof
        assume a: "attempt H rn s = Again t"
        then have "handle_loop H rns t = Inl x" using Cons.prems(2) by simp
        from refusal_answered_later [OF held_refusal_answered [OF t(3) this] t(2)] show ?thesis .
      next
        assume a: "attempt H rn s = Leave t"
        from answer_with_refusal [OF a t(3,2)] a Cons.prems(2) show ?thesis by simp
      qed
    next
      case None
      with Cons.prems na obtain u where u: "attempt H rn s = Again u" "first_refusal H rns u = Some b"
        by (auto split: verdict.splits)
      then have k: "keeps H s u" using attempt_ok [of H s rn] by (simp add: verdict_ok_def)
      from Cons.prems(2) u(1) have "handle_loop H rns u = Inl x" by simp
      with Cons.IH u(2) have "refusal_answered H rns u b x" by blast
      from refusal_answered_later [OF this k] show ?thesis .
    qed
  qed
qed simp


lemma writeFailure_answers: "ds_status (writeFailure path isHead f canRetry st ty ra w) \<noteq> None"
  by (auto simp: writeFailure_def Let_def errorWriterFor_signals split: option.split)

lemma surface_failure_answers: "ds_status (surface_failure jitter path isHead n canRetry f w) \<noteq> None"
  by (simp add: surface_failure_def Let_def writeFailure_answers split: prod.split del: not_None_eq)

lemma w_write_status: "w_write w c = (w', e) \<Longrightarrow> ds_status w' = ds_status w"
  using w_write_keeps(2) [of w c] by simp

lemma copy_body_status: "ds_status (fst (copy_body flush sse w cs)) = ds_status w"
  by (induction flush sse w cs rule: copy_body.induct)
    (auto split: prod.split option.split dest: w_write_status simp del: w_write_unlimited)

lemma proxyOnce_answers: "ds_status (exit_client (proxyOnce E cfg ctx jitter flush rec meth path hdr reply w)) \<noteq> None"
proof (cases reply)
  case (Inl e)
  then show ?thesis by (simp add: proxyOnce_def Let_def surface_failure_answers del: not_None_eq)
next
  case (Inr resp)
  define v where "v = proxyOnce_head meth resp w"
  define sse where "sse = isEventStream (header_get (rs_header resp) ''Content-Type'')"
  have v: "ds_status v \<noteq> None" by (simp add: v_def proxyOnce_head_def)
  obtain u e where c: "copy_body flush sse v (rs_chunks resp) = (u, e)" by (metis surj_pair)
  with copy_body_status [of flush sse v "rs_chunks resp"] v have u: "ds_status u \<noteq> None" by simp
  show ?thesis
    using u v unfolding proxyOnce_def Let_def Inr sum.case v_def [symmetric] sse_def [symmetric] c
    by (simp add: surface_failure_answers split: option.split del: not_None_eq)
qed

lemma return_answers: "attempt H rn s = Return x \<Longrightarrow> ds_status (exit_client x) \<noteq> None"
proof -
  have o: "or_leave r \<noteq> Return x" "legacy_retry rn t \<noteq> Return x" for r t
    by (simp_all add: or_leave_def legacy_retry_def Let_def split: prod.split)
  have a: "advance_or_retry H rn t \<noteq> Return x" for t
    by (simp add: advance_or_retry_def o split: prod.split bool.split)
  have "on_transport_error H rn e s \<noteq> Return x" for e
    by (simp add: on_transport_error_def Let_def o split: prod.split bool.split)
  moreover have "on_http_error H rn resp s \<noteq> Return x" for resp
    by (simp add: on_http_error_def Let_def o split: prod.split bool.split)
  moreover have "ds_status (exit_client x) \<noteq> None" if "on_plain_body H rn resp s = Return x" for resp
    using that a appends_replayRaw
    by (auto simp: on_plain_body_def Let_def appends_def split: sum.splits prod.splits option.splits)
      (metis fst_conv downstream.select_convs(2) downstream.surjective downstream.update_convs(2) option.distinct(1))+
  moreover have "ds_status (exit_client x) \<noteq> None" if r: "on_stream H rn resp s = Return x" for resp
  proof -
    obtain c where c: "capture_with_wire H (hs_body s) resp (hs_w s) (rn_inputs rn) = Some c"
      using r by (auto simp: on_stream_def split: option.splits)
    have "cp_wrote c \<and> exit_client x = cp_w c"
      using capture_with_wire_ok [OF c] r o a
      by (auto simp: on_stream_def c Let_def captured_ok_def split: option.splits if_splits prod.splits bool.splits)
    then show ?thesis using capture_with_wire_ok [OF c] by (simp add: captured_ok_def)
  qed
  ultimately show "attempt H rn s = Return x \<Longrightarrow> ?thesis"
    by (auto simp: attempt_def split: sum.splits if_splits)
qed

lemma answer_answers:
  assumes "held_ok s"
  shows "ds_status (exit_client (answer H ctx cctx s)) \<noteq> None"
proof -
  have "ds_status (exit_client (deliverHeldRefusal b (hs_w s))) \<noteq> None" if "hs_held s = Some b" for b
  proof -
    define v where "v = (hs_w s)\<lparr>ds_header := stream_header (bs_header b) ''buffered'' (ds_header (hs_w s)), ds_status := Some 200\<rparr>"
    have "appends v (fst (bs_replay b v))" using assms that by (simp add: held_ok_def)
    then have "ds_status (fst (bs_replay b v)) = Some 200" by (simp add: appends_def v_def)
    then show ?thesis
      by (cases "bs_replay b v") (auto simp: deliverHeldRefusal_def v_def [symmetric] split: option.splits)
  qed
  then show ?thesis
    by (simp add: answer_def Let_def surface_failure_answers split: option.split del: not_None_eq)
qed

lemma handle_loop_answers: "handle_loop H rns s = Inl x \<Longrightarrow> held_ok s \<Longrightarrow> ds_status (exit_client x) \<noteq> None"
proof (induction rns arbitrary: s)
  case (Cons rn rns)
  note k = attempt_ok [of H s rn]
  show ?case
  proof (cases "attempt H rn s")
    case (Again u)
    with k Cons.prems have "held_ok u" by (simp add: verdict_ok_def keeps_def)
    with Cons Again show ?thesis by simp
  next
    case (Leave u)
    with k Cons.prems have "held_ok u" by (simp add: verdict_ok_def keeps_def)
    with Cons.prems Leave answer_answers show ?thesis by auto
  next
    case (Return y)
    with return_answers [OF this] Cons.prems show ?thesis by simp
  qed (use Cons.prems in simp)
qed simp

text \<open>
  When the handler returns, the client has been sent a status line: no branch, however
  early or late, leaves the request without an answer.
\<close>

lemma handler_answers:
  assumes "handle S noRead noWrite rq ctx reply rns w = Inl x"
  shows "ds_status (exit_client x) \<noteq> None"
proof -
  have "held_ok s" if "start S rq body w = (H, s)" for body H s
    using that by (auto simp: start_def Let_def held_ok_def split: prod.splits if_splits)
  then show ?thesis
    using assms handle_loop_answers proxyOnce_answers
    by (auto simp: handle_def Let_def errorWriterFor_signals split: if_splits body_read.splits prod.splits)
qed


section \<open>Examples\<close>

definition example_server :: server where
  "example_server = \<lparr>sv_env = example_env, sv_cfg = example_config\<lparr>txLocalRetries := 1\<rparr>, sv_recorded = False, sv_jitter = 0,
     sv_io = (\<lambda>_. io_fine), sv_rd = rd_fine, sv_renum = Some, sv_flush = (\<lambda>_. None)\<rparr>"

definition example_clock :: clock where
  "example_clock = \<lparr>ck_ctx = CtxOk, ck_deadline = None, ck_commit = None, ck_slept = CtxOk\<rparr>"

definition failing_round :: round where
  "failing_round = \<lparr>rn_reply = Inl EOF, rn_inputs = [IdleTick], rn_timedOut = False, rn_ctx = CtxOk, rn_fast = False,
     rn_local = example_clock, rn_legacy = example_clock, rn_swap = example_clock, rn_endCtx = CtxOk, rn_clientCtx = CtxOk\<rparr>"

definition example_post :: request where
  "example_post = \<lparr>rq_method = ''POST'', rq_path = ''/v1/messages'', rq_header = Map.empty, rq_sse = False,
     rq_http1 = True, rq_length = -1, rq_body = render (JObj [(''stream'', JBool True)]), rq_bodyErr = None\<rparr>"

definition example_handler :: handler where
  "example_handler = base_handler example_server example_post (rq_body example_post)"

theorem handler_returns_witness:
  "\<exists>x. handle example_server False False example_post CtxOk (Inl EOF)
     [failing_round, failing_round, failing_round, failing_round] w_new = Inl x"
  by (rule handler_returns) (simp_all add: example_server_def example_config_def failing_round_def)

theorem attempts_are_hidden_witness:
  "case handle_loop example_handler [failing_round] (snd (start example_server example_post (rq_body example_post) w_new)) of
     Inl x \<Rightarrow> False | Inr t \<Rightarrow> hs_w t = w_new"
proof -
  let ?s = "snd (start example_server example_post (rq_body example_post) w_new)"
  have d: "case handle_loop example_handler [failing_round] ?s of Inl x \<Rightarrow> False | Inr t \<Rightarrow> True" by code_simp
  then obtain t where t: "handle_loop example_handler [failing_round] ?s = Inr t" by (auto split: sum.splits)
  have "hs_w ?s = w_new" by (simp add: start_def Let_def split: prod.split)
  with attempts_are_hidden [OF t] t show ?thesis by simp
qed

text \<open>A request whose first attempt is refused, with one fallback model, whose attempts fail.\<close>

definition refusing_stream :: bytes where
  "refusing_stream =
     ''event: message_start'' @ [LF] @ ''data: {}'' @ [LF, LF] @
     ''event: message_delta'' @ [LF] @ ''data: {\"delta\":{\"stop_reason\":\"refusal\"}}'' @ [LF, LF] @
     ''event: message_stop'' @ [LF] @ ''data: {}'' @ [LF, LF]"

definition refusing_round :: round where
  "refusing_round = failing_round\<lparr>
     rn_reply := Inr \<lparr>rs_status = 200, rs_header = [''Content-Type'' \<mapsto> [''text/event-stream'']],
                     rs_chunks = [], rs_err = None\<rparr>,
     rn_inputs := [Read refusing_stream (Some EOF) CtxOk]\<rparr>"

definition guarded_handler :: handler where
  "guarded_handler = example_handler\<lparr>hd_intercept := True, hd_firstModel := ''claude-a'',
     hd_cfg := example_config\<lparr>validateJSON := False, normalizeToolJSON := False\<rparr>\<rparr>"

definition guarded_state :: hstate where
  "guarded_state = \<lparr>hs_body = ''{\"model\":\"claude-a\"}'', hs_pending = [''claude-b''], hs_proxyRetries = 0,
     hs_legacyUsed = False, hs_held = None, hs_safeguard = None, hs_last = failure0, hs_w = w_new\<rparr>"

lemma guarded_run:
  "case first_refusal guarded_handler [refusing_round, failing_round] guarded_state of None \<Rightarrow> False | Some b \<Rightarrow> True"
  "case handle_loop guarded_handler [refusing_round, failing_round] guarded_state of
     Inl x \<Rightarrow> ds_body (exit_client x) = refusing_stream \<and> ds_status (exit_client x) = Some 200 | Inr t \<Rightarrow> False"
  by code_simp+

theorem refusal_not_lost_witness:
  "\<exists>b x. first_refusal guarded_handler [refusing_round, failing_round] guarded_state = Some b \<and>
     handle_loop guarded_handler [refusing_round, failing_round] guarded_state = Inl x \<and>
     ds_body (exit_client x) = refusing_stream \<and>
     (\<exists>rn \<in> {refusing_round, failing_round}. \<exists>t.
        hs_held t = Some b \<and> attempt guarded_handler rn t = Return x \<or>
        (\<exists>u. attempt guarded_handler rn t = Leave u \<and> hs_held u = Some b))"
proof -
  from guarded_run obtain b x where r:
      "first_refusal guarded_handler [refusing_round, failing_round] guarded_state = Some b"
      "handle_loop guarded_handler [refusing_round, failing_round] guarded_state = Inl x"
      "ds_body (exit_client x) = refusing_stream"
    by (auto split: option.splits sum.splits)
  have "\<exists>rn \<in> set [refusing_round, failing_round]. \<exists>t.
      hs_held t = Some b \<and> attempt guarded_handler rn t = Return x \<or>
      (\<exists>u. attempt guarded_handler rn t = Leave u \<and> hs_held u = Some b)"
    using refusal_not_lost [OF r(1,2)] by blast
  then show ?thesis using r by simp
qed

end
