(* ===== verification/Failing.thy ===== *)
theory Failing
  imports Handler
begin

text \<open>
  Every failure the handler ever classifies carries a status that is not a success, so an
  answer that surfaces one is told from a delivered reply by its status alone. The wires
  promise it of the failures they report (\<open>failing_wire\<close>); the engine and the handler's loop
  keep it.
\<close>

definition unsuccessful :: "failure \<Rightarrow> bool" where
  "unsuccessful f = (f_status f < 200 \<or> 400 \<le> f_status f)"

definition no_success :: "failure option \<Rightarrow> bool" where
  "no_success f = (\<forall>g. f = Some g \<longrightarrow> unsuccessful g)"

lemma no_success_simps [simp]: "no_success None" "no_success (Some f) = unsuccessful f"
  by (simp_all add: no_success_def)

lemma unsuccessful_updates [simp]:
  "unsuccessful (f\<lparr>f_delivered := d\<rparr>) = unsuccessful f"
  "unsuccessful (f\<lparr>f_transient := t\<rparr>) = unsuccessful f"
  "unsuccessful (f\<lparr>f_fastRetry := t\<rparr>) = unsuccessful f"
  "unsuccessful (f\<lparr>f_upstream := u\<rparr>) = unsuccessful f"
  "unsuccessful (f\<lparr>f_origStatus := n\<rparr>) = unsuccessful f"
  "unsuccessful (f\<lparr>f_code := c\<rparr>) = unsuccessful f"
  "unsuccessful (f\<lparr>f_atype := c\<rparr>) = unsuccessful f"
  "unsuccessful (f\<lparr>f_message := c\<rparr>) = unsuccessful f"
  "unsuccessful (f\<lparr>f_origType := c\<rparr>) = unsuccessful f"
  "unsuccessful (f\<lparr>f_origCode := c\<rparr>) = unsuccessful f"
  "unsuccessful (f\<lparr>f_retryAfter := n\<rparr>) = unsuccessful f"
  "unsuccessful (f\<lparr>f_status := n\<rparr>) = (n < 200 \<or> 400 \<le> n)"
  by (simp_all add: unsuccessful_def)

lemma unsuccessful_constants [simp]:
  "unsuccessful failure0" "unsuccessful failDeadline" "unsuccessful idle_failure"
  "unsuccessful (malformedSSE m)" "unsuccessful (classifyBufferError e)" "unsuccessful (classifyTransport e ctx)"
  "unsuccessful (replay_failure e)" "unsuccessful (ctx_failure ctx)" "unsuccessful (onReadErr e ctx)"
  "unsuccessful responsesInvalidCompleted" "unsuccessful refusal_failure" "unsuccessful (live_norm_failure e)"
  "unsuccessful (ended_failure ctx)"
  by (simp_all add: unsuccessful_def failure0_def failDeadline_def idle_failure_def malformedSSE_def
      classifyBufferError_def classifyTransport_def replay_failure_def ctx_failure_def onReadErr_def
      responsesInvalidCompleted_def refusal_failure_def live_norm_failure_def ended_failure_def)

section \<open>The classifiers\<close>

lemma unsuccessful_shaped [simp]: "st < 200 \<or> 300 \<le> st \<Longrightarrow> unsuccessful (classifyHTTPErrorBytesShaped E st h b rule)"
proof (cases "300 \<le> st \<and> st < 400")
  case True
  then show ?thesis by (simp add: classifyHTTPErrorBytesShaped_def failRedirect_def unsuccessful_def)
next
  case False
  assume "st < 200 \<or> 300 \<le> st"
  with False show ?thesis
    by (rule_tac shaped_cases [OF False, of E h b rule])
      (auto simp: unsuccessful_def hintFailure_fields statusFailure_status mapTransientStatus_def)
qed

lemma unsuccessful_path:
  assumes "rs_status resp < 200 \<or> 300 \<le> rs_status resp"
  shows "unsuccessful (classifyHTTPErrorForPath E ctx path resp b e)"
proof -
  note s = unsuccessful_shaped [OF assms]
  have "unsuccessful (classifyResponsesHTTPErrorBytes E (rs_status resp) (rs_header resp) b)" for b
    using s by (simp add: classifyResponsesHTTPErrorBytes_def Let_def)
  moreover have g: "unsuccessful (classifyGeminiErrorBytes E (rs_status resp) (rs_header resp) b e)" for b e
    using s by (simp add: classifyGeminiErrorBytes_def Let_def)
  moreover have "unsuccessful (classifyGeminiHTTPErrorBytes E (rs_status resp) (rs_header resp) b)" for b
    using s g by (simp add: classifyGeminiHTTPErrorBytes_def classifyHTTPErrorBytes_def split: prod.split bool.split)
  moreover have "unsuccessful (classifySystemOneHTTPErrorBytes E (rs_status resp) (rs_header resp) b)" for b
    using assms s
    by (auto simp: classifySystemOneHTTPErrorBytes_def Let_def mapTransientStatus_def unsuccessful_def
        split: option.split prod.split)
  ultimately show ?thesis
    using s by (simp add: classifyHTTPErrorForPath_def Let_def classifyHTTPErrorBytes_def split: option.split)
qed

lemma redirect_final:
  assumes "300 \<le> rs_status resp" "rs_status resp < 400"
  shows "\<not> f_transient (classifyHTTPErrorForPath E ctx path resp b None)"
proof -
  have "\<not> f_transient (classifyHTTPErrorBytesShaped E (rs_status resp) h b rule)" for h b rule
    using assms by (simp add: classify_transient retry_policy_def)
  then show ?thesis
    using assms
    by (simp add: classifyHTTPErrorForPath_def classifyHTTPErrorBytes_def classifyResponsesHTTPErrorBytes_def
        classifyGeminiHTTPErrorBytes_def classifyGeminiErrorBytes_def classifySystemOneHTTPErrorBytes_def Let_def
        split: prod.split bool.split)
qed

lemma unsuccessful_upstream:
  assumes "rs_status resp < 200 \<or> 300 \<le> rs_status resp"
  shows "unsuccessful (classifyUpstreamHTTPError E ctx path recorded resp fb)"
proof -
  have "rs_status resp < 200 \<or> 400 \<le> rs_status resp"
    if "f_transient (classifyHTTPErrorForPath E ctx path resp b None)" for b
    using that assms redirect_final [of resp E ctx path b] by linarith
  with unsuccessful_path [OF assms, of E ctx path] show ?thesis
    by (auto simp: classifyUpstreamHTTPError_def Let_def split: prod.split)
qed

lemma unsuccessful_surfaced:
  assumes "unsuccessful f"
  shows "fst (retrySurfaceFor path f canRetry) < 200 \<or> 400 \<le> fst (retrySurfaceFor path f canRetry)"
  using assms
  by (auto simp: unsuccessful_def retrySurfaceFor_def surfaceFor_def surface_def statusFor_def
      retryableSurfaceStatus_def Let_def)

lemma unsuccessful_sse: "unsuccessful (classifySSEError b)"
  by (simp add: classifySSEError_def sseErrorFailure_def anthropicPermanentStatus_def Let_def unsuccessful_def)

lemma unsuccessful_responses: "unsuccessful (classifyResponsesError t c m)"
  by (simp add: classifyResponsesError_def responsesRejectedStatus_def Let_def unsuccessful_def split: responsesFault.split)

lemma unsuccessful_gemini: "unsuccessful (classifyGeminiSSEError E data)"
proof -
  have g: "unsuccessful (classifyGeminiErrorBytes E st h b e)" if "400 \<le> st" for st h b e
    using that by (simp add: classifyGeminiErrorBytes_def Let_def)
  have h: "geminiHTTPStatus s = 0 \<or> 400 \<le> geminiHTTPStatus s" for s
    by (simp add: geminiHTTPStatus_def)
  obtain e bad where u: "unmarshal dec_envelope data geminiAPIError0 = (e, bad)" by (metis surj_pair)
  define up where "up = (if ge_code e < 400 \<or> 599 < ge_code e
                then geminiHTTPStatus (to_upper (trim_space (ge_status e))) else ge_code e)"
  have "400 \<le> (if up = 0 then 502 else up)" using h by (auto simp: up_def)
  from g [OF this] show ?thesis
    by (cases bad) (simp_all add: classifyGeminiSSEError_def u up_def [symmetric] Let_def unsuccessful_def)
qed

lemma no_success_shape: "no_success (checked_shape cfg ev)"
  by (simp add: checked_shape_def validateSSEEventShape_def Let_def)

lemma no_success_toolVal: "no_success (snd (toolVal_accept cfg v ev))"
proof -
  have "no_success (snd (tv_start p v))" for p by (auto simp: tv_start_def Let_def split: option.split)
  moreover have "no_success (snd (tv_delta cfg p v))" for p by (auto simp: tv_delta_def Let_def split: option.split)
  ultimately show ?thesis by (simp add: toolVal_accept_def Let_def split: option.split truncVerdict.split)
qed

lemma no_success_candidates: "no_success (snd (snd (accept_candidates cs g st)))"
proof (induction cs g st rule: accept_candidates.induct)
  case (3 c cs g st)
  then show ?case by (auto simp: Let_def split: prod.split)
qed simp_all

section \<open>The engine\<close>

locale failing_wire =
  fixes W :: "'m wire"
  assumes buffered_fails: "wm_buffered W m ev st = (m', st', dn, f) \<Longrightarrow> no_success f"
    and live_fails: "wm_live W m ev raw st = (m', st', out, dn, f) \<Longrightarrow> no_success f"
begin

definition fails_ok :: "'m result + 'm engine \<Rightarrow> bool" where
  "fails_ok x = (case x of Inl (wrote, f, s) \<Rightarrow> no_success f | Inr s \<Rightarrow> True)"

lemmas some_fails = buffered_fails [where f = "Some f" for f, simplified] live_fails [where f = "Some f" for f, simplified]

lemma replayCaptured_fails: "replayCaptured G s = (s', f) \<Longrightarrow> no_success f"
  by (auto simp: replayCaptured_def Let_def split: prod.splits option.splits)

lemma commitLive_fails: "commitLive G s = (s', f) \<Longrightarrow> no_success f"
  by (auto simp: commitLive_def Let_def no_success_def split: prod.splits)

lemma spool_ev_fails: "spool_ev G ev s = (s', f) \<Longrightarrow> no_success f"
  by (auto simp: spool_ev_def split: prod.splits option.splits)

lemma process_event_fails:
  assumes "g_wire G = W"
  shows "fails_ok (process_event G ev s)"
proof -
  have "fails_ok (process_live G ev t)" for t
    by (auto simp: process_live_def assms fails_ok_def Let_def dest: some_fails split: prod.splits option.splits)
  moreover have "fails_ok (process_buffered G ev t)" for t
    by (auto simp: process_buffered_def assms fails_ok_def Let_def
        dest: some_fails spool_ev_fails replayCaptured_fails split: prod.splits option.splits)
  ultimately show ?thesis by (simp add: process_event_def Let_def)
qed

lemma process_fails: "g_wire G = W \<Longrightarrow> fails_ok (process G evs s)"
proof (induction evs arbitrary: s)
  case (Cons ev evs)
  with process_event_fails [of G ev s] show ?case by (auto split: sum.split)
qed (auto simp: fails_ok_def split: option.splits)

lemma capture_step_fails:
  assumes "g_wire G = W"
  shows "fails_ok (capture_step G i s)"
proof (cases i)
  case (Read data err ctx)
  have "process G evs t = Inl (wrote, f, u) \<Longrightarrow> no_success f" for evs t wrote f u
    using process_fails [OF assms, of evs t] by (simp add: fails_ok_def)
  then have "fails_ok (on_read G data err ctx s)"
    by (auto simp: on_read_def Let_def fails_ok_def split: prod.split sum.split option.split
        dest: replayCaptured_fails commitLive_fails [where f = "Some f" for f, simplified])
  with Read show ?thesis by simp
qed (auto simp: on_keep_def give_up_def fails_ok_def Let_def split: prod.split option.split
    dest: commitLive_fails [where f = "Some f" for f, simplified])

lemma capture_fails:
  assumes "g_wire G = W" "captureSSECore G m w st inputs = Inl (wrote, f, s)"
  shows "no_success f"
proof -
  have "fails_ok (capture_run G is t)" for "is" t
  proof (induction "is" arbitrary: t)
    case (Cons i "is")
    with capture_step_fails [OF assms(1), of i t] show ?case by (auto split: sum.split)
  qed (simp add: fails_ok_def)
  from this [of inputs "engine0 G m w st"] assms(2) show ?thesis
    by (simp add: captureSSECore_def fails_ok_def)
qed

end

section \<open>The wires\<close>

interpretation an_fails: failing_wire "anthropic_wire renum cfg rd" for renum and cfg :: config and rd :: spool_rd
proof
  have v: "toolVal_accept cfg v ev = (v', Some f) \<Longrightarrow> unsuccessful f" for v ev v' f
    using no_success_toolVal [of cfg v ev] by simp
  have s: "checked_shape cfg ev = Some f \<Longrightarrow> unsuccessful f" for ev f
    using no_success_shape [of cfg ev] by simp
  show "no_success f" if "wm_buffered (anthropic_wire renum cfg rd) m ev st = (m', st', dn, f)" for m ev st m' st' dn f
    using that
    by (auto simp: anthropic_wire_def anthropic_buffered_def checked_tools_def Let_def unsuccessful_sse no_success_shape
        dest: v s split: option.splits prod.splits if_splits)
  show "no_success f" if "wm_live (anthropic_wire renum cfg rd) m ev raw st = (m', st', out, dn, f)"
    for m ev raw st m' st' out dn f
    using that
    by (auto simp: anthropic_wire_def anthropic_live_def checked_tools_def Let_def unsuccessful_sse no_success_shape
        dest: v s split: option.splits prod.splits if_splits sum.splits)
qed

interpretation oa_fails: failing_wire "openai_wire rd" for rd :: spool_rd
  by unfold_locales
    (auto simp: openai_wire_def openai_buffered_def openai_live_def classifyResponsesFrame_def Let_def
      unsuccessful_responses split: prod.splits if_splits)

interpretation gm_fails: failing_wire "gemini_wire E rd" for E :: env and rd :: spool_rd
proof
  have c: "accept_chunk k g st = (g', st', f) \<Longrightarrow> no_success f" for k g st g' st' f
    using no_success_candidates [of "gk_candidates k" "g\<lparr>gw_chunk := (gw_chunk g + 1) mod 18446744073709551616\<rparr>" st]
    by (auto simp: accept_chunk_def Let_def split: prod.splits option.splits if_splits)
  have a: "gemini_accept E g ev st = (g', st', f) \<Longrightarrow> no_success f" for g ev st g' st' f
    by (auto simp: gemini_accept_def Let_def unsuccessful_gemini dest: c split: option.splits if_splits)
  show "no_success f" if "wm_buffered (gemini_wire E rd) m ev st = (m', st', dn, f)" for m ev st m' st' dn f
    using that by (auto simp: gemini_wire_def gemini_buffered_def dest: a split: prod.splits)
  show "no_success f" if "wm_live (gemini_wire E rd) m ev raw st = (m', st', out, dn, f)" for m ev raw st m' st' out dn f
    using that by (auto simp: gemini_wire_def gemini_live_def Let_def dest: a split: prod.splits option.splits if_splits)
qed

lemma run_wire_fails:
  assumes "failing_wire W" "run_wire H resp W m w inputs = Some c"
  shows "no_success (cp_fail c)"
  using assms(2)
  by (auto simp: run_wire_def dest: failing_wire.capture_fails [OF assms(1), rotated] split: sum.splits prod.splits)

lemma capture_with_wire_fails: "capture_with_wire H body resp w inputs = Some c \<Longrightarrow> no_success (cp_fail c)"
  by (auto simp: capture_with_wire_def split: if_splits intro: run_wire_fails oa_fails.failing_wire_axioms
      gm_fails.failing_wire_axioms an_fails.failing_wire_axioms)

section \<open>The loop\<close>

definition fails_only :: "hstate \<Rightarrow> bool" where
  "fails_only s = (unsuccessful (hs_last s) \<and> no_success (hs_safeguard s))"

definition verdict_fails :: "verdict \<Rightarrow> bool" where
  "verdict_fails v = (case v of Again s \<Rightarrow> fails_only s | Leave s \<Rightarrow> fails_only s | _ \<Rightarrow> True)"

lemma fails_only_local: "fails_only s \<Longrightarrow> tryLocalRetry H ck f s = (b, t) \<Longrightarrow> fails_only t"
  by (auto simp: tryLocalRetry_def Let_def fails_only_def split: if_splits)

lemma fails_only_swap: "fails_only s \<Longrightarrow> swapToFallback H ck s = (b, t) \<Longrightarrow> fails_only t"
  by (auto simp: swapToFallback_def Let_def fails_only_def split: if_splits prod.splits option.splits)

lemma fails_only_advance: "fails_only s \<Longrightarrow> advanceFallback H ck f s = (b, t) \<Longrightarrow> fails_only t"
  by (auto simp: advanceFallback_def dest: fails_only_swap split: if_splits)

lemma fails_only_last: "fails_only s \<Longrightarrow> unsuccessful f \<Longrightarrow> fails_only (s\<lparr>hs_last := f\<rparr>)"
  by (simp add: fails_only_def)

lemma verdict_or_leave: "fails_only (snd r) \<Longrightarrow> verdict_fails (or_leave r)"
  by (cases r) (simp add: or_leave_def verdict_fails_def)

lemma verdict_legacy: "fails_only s \<Longrightarrow> verdict_fails (legacy_retry rn s)"
  by (simp add: legacy_retry_def verdict_fails_def fails_only_def Let_def)

lemma verdict_advance_or_retry: "fails_only s \<Longrightarrow> verdict_fails (advance_or_retry H rn s)"
  by (auto simp: advance_or_retry_def verdict_fails_def or_leave_def
      dest: fails_only_advance fails_only_local split: prod.split bool.split)

lemma attempt_fails:
  assumes "fails_only s"
  shows "verdict_fails (attempt H rn s)"
proof (cases "rn_reply rn")
  case (Inl e)
  define u where "u = s\<lparr>hs_last := classifyTransport e (rn_ctx rn)\<rparr>"
  have u: "fails_only u" using assms by (simp add: u_def fails_only_def)
  obtain b t where a: "tryLocalRetry H (rn_local rn) (hs_last u) u = (b, t)" by (rule prod.exhaust)
  have t: "fails_only t" by (rule fails_only_local [OF u a])
  have "verdict_fails (or_leave (advanceFallback H (rn_swap rn) (hs_last t) t))"
    by (rule verdict_or_leave) (metis fails_only_advance prod.collapse t)
  with verdict_legacy [OF t] t Inl show ?thesis
    by (cases b) (auto simp: attempt_def on_transport_error_def u_def [symmetric] a Let_def verdict_fails_def)
next
  case (Inr resp)
  have h: "verdict_fails (on_http_error H rn resp s)" if st: "rs_status resp < 200 \<or> 300 \<le> rs_status resp"
  proof -
    define f where "f = classifyUpstreamHTTPError (hd_env H) (rn_ctx rn) (hd_path H) (hd_recorded H) resp (fallbackActive s)"
    have f: "unsuccessful f" unfolding f_def by (rule unsuccessful_upstream [OF st])
    have u: "fails_only (s\<lparr>hs_last := f\<rparr>)" by (rule fails_only_last [OF assms f])
    have "fails_only (hold_safeguard f (s\<lparr>hs_last := f\<rparr>))" using u f by (simp add: hold_safeguard_def fails_only_def)
    then have "verdict_fails (or_leave (swapToFallback H (rn_swap rn) (hold_safeguard f (s\<lparr>hs_last := f\<rparr>))))"
      by (intro verdict_or_leave) (metis fails_only_swap prod.collapse)
    then show ?thesis unfolding on_http_error_def f_def [symmetric] Let_def
      by (auto simp: verdict_fails_def dest!: fails_only_advance [OF u] dest: fails_only_local
          intro: verdict_legacy [unfolded verdict_fails_def] split: prod.split bool.split)
  qed
  have p: "verdict_fails (on_plain_body H rn resp s)"
  proof -
    have "bufferNonSSE (hd_cfg H) (hd_io H) (rn_ctx rn) (rn_timedOut rn) resp = Inl f \<Longrightarrow> unsuccessful f" for f
      by (auto simp: bufferNonSSE_def split: prod.splits option.splits if_splits)
    with fails_only_last [OF assms] verdict_advance_or_retry show ?thesis
      by (auto simp: on_plain_body_def Let_def split: sum.split prod.split option.split)
        (simp_all add: verdict_fails_def)
  qed
  have "verdict_fails (on_stream H rn resp s)"
  proof (cases "capture_with_wire H (hs_body s) resp (hs_w s) (rn_inputs rn)")
    case (Some c)
    note n = capture_with_wire_fails [OF Some]
    define u where "u = s\<lparr>hs_w := cp_w c\<rparr>"
    have u: "fails_only u" using assms by (simp add: u_def fails_only_def)
    show ?thesis
    proof (cases "cp_fail c")
      case (Some f)
      with n have f: "unsuccessful f" by simp
      have "fails_only ((hold_refusal resp c sp u)\<lparr>hs_last := f\<rparr>)" for sp
        using u f by (simp add: hold_refusal_def fails_only_def)
      then have r: "verdict_fails (or_leave (swapToFallback H (rn_swap rn) ((hold_refusal resp c sp u)\<lparr>hs_last := f\<rparr>)))" for sp
        by (intro verdict_or_leave) (metis fails_only_swap prod.collapse)
      have g: "fails_only (hold_safeguard f u)" using u f by (simp add: hold_safeguard_def fails_only_def)
      have "verdict_fails (case swapToFallback H (rn_swap rn) (hold_safeguard f u) of
          (True, s1) \<Rightarrow> Again s1 | (False, s1) \<Rightarrow> Leave (s1\<lparr>hs_last := f\<rparr>))"
        using fails_only_last f by (auto simp: verdict_fails_def dest!: fails_only_swap [OF g] split: prod.split bool.split)
      with r verdict_advance_or_retry [OF fails_only_last [OF u f]] Some \<open>capture_with_wire H _ _ _ _ = Some c\<close>
      show ?thesis
        by (simp add: on_stream_def u_def [symmetric] Let_def split: option.split) (simp add: verdict_fails_def)
    qed (simp add: on_stream_def Some verdict_fails_def)
  qed (simp add: on_stream_def verdict_fails_def)
  with h p Inr show ?thesis by (simp add: attempt_def)
qed

end
