(* ===== verification/Redact.thy ===== *)
theory Redact
  imports Request
begin

text \<open>
  What the request archive withholds (requestlog.go: \<open>maskHeaders\<close>, \<open>maskHeader\<close>,
  \<open>redactQueryWithNames\<close>, \<open>redactedRequestURI\<close>, \<open>redactedUpstreamURL\<close>) and the name of its
  file (\<open>sanitizeForFilename\<close>, \<open>requestLogName\<close>, \<open>newReqID\<close>).

  A header map that is written out is a list of its entries with distinct keys, in the
  order Go's \<open>range\<close> happens to give; \<open>url.Parse\<close> is a parameter.
\<close>

section \<open>Secret headers\<close>

type_synonym header_entries = "(bytes \<times> bytes list) list"

definition apiSecretHeaders :: "bytes list" where
  "apiSecretHeaders =
     [''authorization'', ''x-api-key'', ''api-key'', ''x-stainless-api-key'', ''anthropic-api-key'',
      ''openai-api-key'', ''x-goog-api-key'', ''proxy-authorization'']"

definition secretHeader :: "bytes \<Rightarrow> bool" where
  "secretHeader name = (to_lower name \<in> set apiSecretHeaders)"

definition maskHeader :: "bytes \<Rightarrow> bytes \<Rightarrow> bytes" where
  "maskHeader name value =
     (if \<not> secretHeader name then value
      else if 8 \<le> length value then ''***redacted (...'' @ drop (length value - 4) value @ '')***''
      else ''***redacted***'')"

text \<open>\<open>Header.Add\<close>.\<close>

definition header_add :: "bytes \<Rightarrow> bytes \<Rightarrow> header_entries \<Rightarrow> header_entries" where
  "header_add k v h =
     (let key = canonical_key k
      in AList.update key ((case map_of h key of None \<Rightarrow> [] | Some vs \<Rightarrow> vs) @ [v]) h)"

fun mask_entries :: "header_entries \<Rightarrow> header_entries \<times> bytes list \<Rightarrow> header_entries \<times> bytes list" where
  "mask_entries [] r = r"
| "mask_entries ((k, vv) # h) (out, redacted) =
     mask_entries h
       (if secretHeader k then (fold (\<lambda>v. header_add k (maskHeader k v)) vv out, redacted @ [k])
        else (AList.update k vv out, redacted))"

definition maskHeadersWithNames :: "header_entries \<Rightarrow> header_entries \<times> bytes list" where
  "maskHeadersWithNames h = mask_entries h ([], [])"

definition maskHeaders :: "header_entries \<Rightarrow> header_entries" where
  "maskHeaders h = fst (maskHeadersWithNames h)"

section \<open>Secret query parameters\<close>

definition apiSecretQueryNames :: "bytes list" where
  "apiSecretQueryNames =
     [''api_key'', ''apikey'', ''api-key'', ''api_secret'', ''apisecret'', ''api-secret'', ''api_token'',
      ''apitoken'', ''api-token'', ''key'', ''x-api-key'', ''x_api_key'', ''anthropic_api_key'',
      ''anthropic-api-key'', ''openai_api_key'', ''openai-api-key'', ''x-goog-api-key'', ''x_goog_api_key'',
      ''access_token'', ''accesstoken'', ''access-token'', ''refresh_token'', ''refreshtoken'',
      ''refresh-token'', ''id_token'', ''idtoken'', ''id-token'', ''auth_token'', ''authtoken'', ''auth-token'',
      ''bearer_token'', ''bearertoken'', ''bearer-token'', ''client_secret'', ''clientsecret'',
      ''client-secret'', ''authorization'']"

definition secretQueryName :: "bytes \<Rightarrow> bool" where
  "secretQueryName name = (to_lower name \<in> set apiSecretQueryNames)"

text \<open>\<open>url.QueryUnescape\<close>.\<close>

fun query_unescape :: "bytes \<Rightarrow> bytes option" where
  "query_unescape [] = Some []"
| "query_unescape (c # s) =
     (if c = CHR ''%'' then
        (case s of
           a # b # t \<Rightarrow>
             if hex_digit a \<and> hex_digit b
             then map_option (\<lambda>u. char_of (16 * hex_val a + hex_val b) # u) (query_unescape t)
             else None
         | _ \<Rightarrow> None)
      else map_option (\<lambda>u. (if c = CHR ''+'' then CHR '' '' else c) # u) (query_unescape s))"

definition redacted_value :: bytes where
  "redacted_value = ''REDACTED''"

text \<open>A parameter as written, its name with the value withheld; \<open>None\<close>: its name is not readable.\<close>

definition redact_part :: "bytes \<Rightarrow> (bytes \<times> bytes list) option" where
  "redact_part part =
     (let namePart = (case str_cut part ''='' of None \<Rightarrow> part | Some (n, v) \<Rightarrow> n)
      in case query_unescape namePart of
           None \<Rightarrow> None
         | Some name \<Rightarrow>
             if secretQueryName name then Some (namePart @ ''='' @ redacted_value, [name]) else Some (part, []))"

fun redact_parts :: "bytes list \<Rightarrow> (bytes list \<times> bytes list) option" where
  "redact_parts [] = Some ([], [])"
| "redact_parts (part # parts) =
     (case redact_part part of
        None \<Rightarrow> None
      | Some (p, n) \<Rightarrow> map_option (\<lambda>(ps, ns). (p # ps, n @ ns)) (redact_parts parts))"

definition redactQueryWithNames :: "bytes \<Rightarrow> bytes \<times> bytes list" where
  "redactQueryWithNames raw =
     (if raw = [] then ([], [])
      else case redact_parts (split_on CHR ''&'' raw) of
             None \<Rightarrow> (''[redacted: unparseable query]'', [''*''])
           | Some (parts, redacted) \<Rightarrow>
               if redacted = [] then (raw, []) else (join_with ''&'' parts, redacted))"

text \<open>The text before the first \<open>?\<close> of a request URI is kept with it: \<open>rawURI[:i+1]\<close>.\<close>

definition redactedRequestURI :: "bytes \<Rightarrow> bytes \<Rightarrow> bytes \<Rightarrow> bytes" where
  "redactedRequestURI rawURI path rawQuery =
     (if rawURI = [] then
        (if rawQuery = [] then path else path @ ''?'' @ fst (redactQueryWithNames rawQuery))
      else if rawQuery = [] then rawURI
      else case redactQueryWithNames rawQuery of
             (query, redacted) \<Rightarrow>
               if redacted = [] then rawURI
               else (case str_cut rawURI ''?'' of
                       Some (before, after) \<Rightarrow> before @ ''?'' @ query
                     | None \<Rightarrow> path @ ''?'' @ query))"

text \<open>
  \<open>(&url.URL{Path: path}).EscapedPath ()\<close>: every byte but the unreserved ones and those
  allowed in a path is escaped.
\<close>

definition path_byte :: "char \<Rightarrow> bool" where
  "path_byte c =
     (let b = byte_val c
      in (48 \<le> b \<and> b \<le> 57) \<or> (65 \<le> b \<and> b \<le> 90) \<or> (97 \<le> b \<and> b \<le> 122) \<or> c \<in> set ''-_.~$&+,/:;=@'')"

definition upper_hex :: "int \<Rightarrow> char" where
  "upper_hex n = (if n < 10 then char_of (48 + n) else char_of (55 + n))"

definition escaped_path :: "bytes \<Rightarrow> bytes" where
  "escaped_path path =
     (if path = ''*'' then ''*''
      else concat (map (\<lambda>c. if path_byte c then [c]
                            else [CHR ''%'', upper_hex (byte_val c div 16), upper_hex (byte_val c mod 16)]) path))"

text \<open>
  \<open>url.Parse\<close> of the configured upstream: its user information, if it has any, and the URL
  printed with given user information.
\<close>

type_synonym url_parser = "bytes \<Rightarrow> (bytes option \<times> (bytes option \<Rightarrow> bytes)) option"

definition redactedUpstreamURL :: "url_parser \<Rightarrow> bytes \<Rightarrow> bytes \<Rightarrow> bytes \<Rightarrow> bytes" where
  "redactedUpstreamURL parse upstream_url path rawQuery =
     (case parse upstream_url of
        None \<Rightarrow> ''[redacted: invalid upstream URL]''
      | Some (user, print) \<Rightarrow>
          let printed = print (if user \<noteq> None then Some ''***redacted***'' else None);
              target = trim_right_char (CHR ''/'') printed @ escaped_path path
          in if rawQuery \<noteq> [] then target @ ''?'' @ fst (redactQueryWithNames rawQuery) else target)"

section \<open>The file name\<close>

text \<open>\<open>range\<close> over a string yields one rune at a time, an invalid byte being a rune of its own.\<close>

definition alphanumeric :: "char \<Rightarrow> bool" where
  "alphanumeric c =
     (let b = byte_val c in (48 \<le> b \<and> b \<le> 57) \<or> (65 \<le> b \<and> b \<le> 90) \<or> (97 \<le> b \<and> b \<le> 122))"

function dashed :: "bytes \<Rightarrow> bytes" where
  "dashed [] = []"
| "dashed (c # s) =
     (if alphanumeric c then c # dashed s
      else CHR ''-'' # dashed (drop (max 1 (rune_len (c # s))) (c # s)))"
  by pat_completeness auto
termination
  by (relation "measure length") auto

definition trim_char :: "char \<Rightarrow> bytes \<Rightarrow> bytes" where
  "trim_char d s = trim_right_char d (dropWhile (\<lambda>c. c = d) s)"

definition sanitizeForFilename :: "bytes \<Rightarrow> bytes" where
  "sanitizeForFilename p =
     (let out = trim_char CHR ''-'' (dashed (trim_prefix p ''/''))
      in if out = [] then ''root''
         else if 64 < length out then trim_char CHR ''-'' (take 64 out) else out)"

text \<open>\<open>when\<close> is the time already formatted as \<open>20060102t150405\<close>.\<close>

definition requestLogName :: "bytes \<Rightarrow> bytes \<Rightarrow> bytes \<Rightarrow> bytes" where
  "requestLogName urlPath rid when = sanitizeForFilename urlPath @ ''-'' @ when @ ''-'' @ rid @ ''.json''"

definition hex_encode :: "bytes \<Rightarrow> bytes" where
  "hex_encode b = concat (map (\<lambda>c. [hex_char (byte_val c div 16), hex_char (byte_val c mod 16)]) b)"

text \<open>\<open>%08x\<close>: at least eight hexadecimal digits.\<close>

fun hex_digits :: "nat \<Rightarrow> int \<Rightarrow> bytes" where
  "hex_digits 0 n = []"
| "hex_digits (Suc k) n = hex_digits k (n div 16) @ [hex_char (n mod 16)]"

text \<open>
  Four random bytes, or the next value of a process-wide 64-bit counter when there is no
  randomness. A counter below 2 to the 32 needs eight digits.
\<close>

definition newReqID :: "bytes option \<Rightarrow> int \<Rightarrow> bytes" where
  "newReqID random counter =
     (case random of
        Some b \<Rightarrow> hex_encode b
      | None \<Rightarrow> if counter < 4294967296 then hex_digits 8 counter else dropWhile (\<lambda>c. c = CHR ''0'') (hex_digits 16 counter))"

section \<open>Secrets do not reach the archive\<close>

text \<open>
  Two requests an observer of the archive must not tell apart: the same headers but for the
  values of secret ones, of which the mask shows a hint; the same query but for the values
  of secret parameters.
\<close>

definition same_hint :: "bytes \<Rightarrow> bytes \<Rightarrow> bool" where
  "same_hint v v' =
     (if 8 \<le> length v then 8 \<le> length v' \<and> drop (length v - 4) v = drop (length v' - 4) v' else length v' < 8)"

definition same_entry :: "bytes \<times> bytes list \<Rightarrow> bytes \<times> bytes list \<Rightarrow> bool" where
  "same_entry e e' =
     (fst e = fst e' \<and> (if secretHeader (fst e) then list_all2 same_hint (snd e) (snd e') else snd e = snd e'))"

definition same_part :: "bytes \<Rightarrow> bytes \<Rightarrow> bool" where
  "same_part p p' =
     (p = p' \<or>
      (\<exists>n v v' name. p = n @ ''='' @ v \<and> p' = n @ ''='' @ v' \<and> CHR ''='' \<notin> set n \<and>
                     query_unescape n = Some name \<and> secretQueryName name))"

definition same_query :: "bytes \<Rightarrow> bytes \<Rightarrow> bool" where
  "same_query q q' = list_all2 same_part (split_on CHR ''&'' q) (split_on CHR ''&'' q')"

lemma maskHeader_hint: "secretHeader k \<Longrightarrow> same_hint v v' \<Longrightarrow> maskHeader k v = maskHeader k v'"
  by (auto simp: maskHeader_def same_hint_def split: if_splits)

lemma mask_values_hint:
  assumes "secretHeader k" "list_all2 same_hint vv vv'"
  shows "fold (\<lambda>v. header_add k (maskHeader k v)) vv out = fold (\<lambda>v. header_add k (maskHeader k v)) vv' out"
  using assms(2) by (induction arbitrary: out rule: list_all2_induct) (simp_all add: maskHeader_hint [OF assms(1)])

lemma mask_entries_hint: "list_all2 same_entry h h' \<Longrightarrow> mask_entries h r = mask_entries h' r"
proof (induction arbitrary: r rule: list_all2_induct)
  case (Cons e h e' h')
  then show ?case
    by (cases e; cases e'; cases r) (auto simp: same_entry_def mask_values_hint split: if_splits)
qed simp

text \<open>
  The masked headers of the archive depend on a secret header only through the last four
  bytes of a value that has at least eight, and on no byte of a shorter one: two requests
  that agree on everything else leave the same headers and the same list of redacted names.
\<close>

theorem headers_hide_secrets:
  assumes "list_all2 same_entry h h'"
  shows "maskHeadersWithNames h = maskHeadersWithNames h'"
  using mask_entries_hint [OF assms] by (simp add: maskHeadersWithNames_def)

theorem headers_hide_secrets_witness:
  "maskHeadersWithNames [(''X-Api-Key'', [''sk-aaaa-1234'', ''short'']), (''Accept'', [''a''])]
    = maskHeadersWithNames [(''X-Api-Key'', [''sk-bbbbbbb-1234'', ''other'']), (''Accept'', [''a''])]"
  by (rule headers_hide_secrets) code_simp

lemma str_cut_first:
  "CHR ''='' \<notin> set n \<Longrightarrow> str_cut (n @ ''='' @ v) ''='' = Some (n, v)"
  by (induction n) auto

lemma redact_part_same: "same_part p p' \<Longrightarrow> redact_part p = redact_part p'"
  by (auto simp: same_part_def redact_part_def Let_def str_cut_first [simplified])

lemma redact_parts_same: "list_all2 same_part ps ps' \<Longrightarrow> redact_parts ps = redact_parts ps'"
proof (induction rule: list_all2_induct)
  case (Cons p ps p' ps')
  with redact_part_same [of p p'] show ?case by (simp cong: option.case_cong)
qed simp

lemma redact_part_unnamed: "redact_part p = Some (q, []) \<Longrightarrow> q = p"
  by (auto simp: redact_part_def Let_def split: option.splits if_splits)

lemma redact_parts_unnamed: "redact_parts ps = Some (qs, []) \<Longrightarrow> qs = ps"
  by (induction ps arbitrary: qs) (auto dest: redact_part_unnamed split: option.splits)

lemma split_on_nonempty: "split_on d s \<noteq> []"
  by (cases s) (auto split: list.split)

lemma join_split: "join_with [d] (split_on d s) = s"
proof (induction s)
  case (Cons c s)
  obtain w ws where w: "split_on d s = w # ws" by (cases "split_on d s") (simp add: split_on_nonempty)
  then show ?case using Cons.IH by (cases ws) auto
qed simp

lemma redactQuery_join:
  assumes "redact_parts (split_on CHR ''&'' raw) = Some (parts, redacted)"
  shows "redactQueryWithNames raw = (join_with ''&'' parts, redacted)"
proof (cases "raw = []")
  case True
  with assms show ?thesis
    by (auto simp: redactQueryWithNames_def redact_part_def secretQueryName_def apiSecretQueryNames_def)
next
  case False
  with assms redact_parts_unnamed [of "split_on CHR ''&'' raw" parts] show ?thesis
    by (auto simp: redactQueryWithNames_def join_split)
qed

lemma redact_parts_identical:
  assumes "redact_parts ps = Some (qs, [])" "list_all2 same_part ps ps'"
  shows "ps' = ps"
  using redact_parts_unnamed [OF assms(1)] redact_parts_unnamed [of ps' qs] redact_parts_same [OF assms(2)] assms(1)
  by simp

lemma redactQuery_same:
  assumes "same_query q q'"
  shows "redactQueryWithNames q = redactQueryWithNames q'"
    and "snd (redactQueryWithNames q) = [] \<Longrightarrow> q' = q"
proof -
  note r = redact_parts_same [OF assms [unfolded same_query_def]]
  have ne: "redact_parts (split_on d []) \<noteq> None" for d
    by (simp add: redact_part_def)
  show eq: "redactQueryWithNames q = redactQueryWithNames q'"
  proof (cases "redact_parts (split_on CHR ''&'' q)")
    case None
    with r ne have "q \<noteq> []" "q' \<noteq> []" by metis+
    with None r show ?thesis by (simp add: redactQueryWithNames_def)
  next
    case (Some x)
    with r have "redact_parts (split_on CHR ''&'' q') = Some x" by simp
    with Some show ?thesis by (cases x) (simp add: redactQuery_join)
  qed
  show "q' = q" if n: "snd (redactQueryWithNames q) = []"
  proof (cases "redact_parts (split_on CHR ''&'' q)")
    case None
    with n ne show ?thesis by (cases "q = []") (auto simp: redactQueryWithNames_def)
  next
    case (Some x)
    with n obtain ps where "redact_parts (split_on CHR ''&'' q) = Some (ps, [])" by (cases x) (simp add: redactQuery_join)
    from redact_parts_identical [OF this assms [unfolded same_query_def]] show ?thesis
      by (metis join_split)
  qed
qed

lemma str_cut_query: "CHR ''?'' \<notin> set b \<Longrightarrow> str_cut (b @ ''?'' @ q) ''?'' = Some (b, q)"
  by (induction b) auto

lemma redactQuery_empty: "redactQueryWithNames [] = ([], [])"
  by (simp add: redactQueryWithNames_def)

lemma same_query_empty:
  assumes "same_query q q'"
  shows "q = [] \<longleftrightarrow> q' = []"
proof
  note r = redactQuery_same [OF assms]
  show "q' = []" if "q = []" using r(2) that by (simp add: redactQuery_empty)
  show "q = []" if "q' = []"
  proof -
    from r(1) that have "snd (redactQueryWithNames q) = []" by (simp add: redactQuery_empty)
    with r(2) that show ?thesis by simp
  qed
qed

lemma redacted_uri_same:
  assumes "same_query q q'" "CHR ''?'' \<notin> set b"
  shows "redactedRequestURI (b @ ''?'' @ q) path q = redactedRequestURI (b @ ''?'' @ q') path q'"
proof -
  note r = redactQuery_same [OF assms(1)]
  obtain x names where x: "redactQueryWithNames q' = (x, names)" by (metis surj_pair)
  show ?thesis
  proof (cases "names = []")
    case True
    with r x have "q' = q" by simp
    then show ?thesis by simp
  next
    case False
    with x r(1) same_query_empty [OF assms(1)] str_cut_query [OF assms(2)] show ?thesis
      by (simp add: redactedRequestURI_def)
  qed
qed

lemma redacted_upstream_same:
  "same_query q q' \<Longrightarrow> redactedUpstreamURL parse url path q = redactedUpstreamURL parse url path q'"
  using redactQuery_same(1) [of q q'] same_query_empty [of q q']
  by (simp add: redactedUpstreamURL_def Let_def del: trim_right_char.simps split: option.split)

lemma redacted_user:
  assumes "parse url = Some (user, print)" "parse' url = Some (user', print)" "(user = None) = (user' = None)"
  shows "redactedUpstreamURL parse url path q = redactedUpstreamURL parse' url path q"
  using assms by (cases "user = None"; cases "user' = None")
    (simp_all add: redactedUpstreamURL_def Let_def del: trim_right_char.simps)

text \<open>
  Neither the query nor the request line of the archive depends on the value of a secret
  parameter, however its name is escaped: two requests that differ only there leave the same
  query, the same request URI, and the same upstream URL, whose own user information is
  never shown either.
\<close>

theorem urls_hide_secrets:
  assumes "same_query q q'" "CHR ''?'' \<notin> set b"
    and "parse url = Some (user, print)" "parse' url = Some (user', print)" "(user = None) = (user' = None)"
  shows "redactQueryWithNames q = redactQueryWithNames q' \<and>
    redactedRequestURI (b @ ''?'' @ q) path q = redactedRequestURI (b @ ''?'' @ q') path q' \<and>
    redactedUpstreamURL parse url path q = redactedUpstreamURL parse' url path q'"
  using redactQuery_same(1) [OF assms(1)] redacted_uri_same [OF assms(1,2)] redacted_upstream_same [OF assms(1)]
    redacted_user [of parse url user print parse' user', OF assms(3-5)] by simp

theorem urls_hide_secrets_witness:
  "redactedRequestURI ''/v1/m?a=1&%6Bey=s3cret'' ''/v1/m'' ''a=1&%6Bey=s3cret''
    = redactedRequestURI ''/v1/m?a=1&%6Bey=other'' ''/v1/m'' ''a=1&%6Bey=other''"
proof -
  have s: "split_on CHR ''&'' ''a=1&%6Bey=s3cret'' = [''a=1'', ''%6Bey=s3cret'']"
      "split_on CHR ''&'' ''a=1&%6Bey=other'' = [''a=1'', ''%6Bey=other'']"
      "query_unescape ''%6Bey'' = Some ''key''" "secretQueryName ''key''"
    by code_simp+
  have p: "same_part ''%6Bey=s3cret'' ''%6Bey=other''"
    unfolding same_part_def using s(3,4)
    by (intro disjI2 exI [of _ "''%6Bey''"] exI [of _ "''s3cret''"] exI [of _ "''other''"] exI [of _ "''key''"]) simp
  have "same_query ''a=1&%6Bey=s3cret'' ''a=1&%6Bey=other''"
    using p by (simp add: same_query_def s) (simp add: same_part_def)
  from urls_hide_secrets [OF this, of "''/v1/m''" "\<lambda>_. Some (None, \<lambda>_. ''u'')" "[]" None "\<lambda>_. ''u''"
      "\<lambda>_. Some (None, \<lambda>_. ''u'')" None "''/v1/m''"]
  show ?thesis by simp
qed

section \<open>File names\<close>

lemma dashed_bytes: "c \<in> set (dashed s) \<Longrightarrow> alphanumeric c \<or> c = CHR ''-''"
  by (induction s rule: dashed.induct) (auto split: if_splits)

lemma trim_right_ends: "trim_right_char d s \<noteq> [] \<Longrightarrow> last (trim_right_char d s) \<noteq> d"
  using hd_dropWhile [of "\<lambda>c. c = d" "rev s"] by (auto simp: last_rev)

lemma trim_right_prefix: "\<exists>t. s = trim_right_char d s @ t"
proof -
  have "s = rev (takeWhile (\<lambda>c. c = d) (rev s) @ dropWhile (\<lambda>c. c = d) (rev s))" by simp
  also have "\<dots> = trim_right_char d s @ rev (takeWhile (\<lambda>c. c = d) (rev s))"
    by (simp only: rev_append trim_right_char.simps)
  finally show ?thesis by blast
qed

lemma trim_right_hd: "trim_right_char d s \<noteq> [] \<Longrightarrow> hd (trim_right_char d s) = hd s"
  by (metis hd_append2 trim_right_prefix)

lemma trim_right_keeps: "s \<noteq> [] \<Longrightarrow> hd s \<noteq> d \<Longrightarrow> trim_right_char d s \<noteq> []"
  by (cases s) (auto simp: dropWhile_eq_Nil_conv)

lemma trim_char_ends:
  assumes "trim_char d s \<noteq> []"
  shows "hd (trim_char d s) \<noteq> d" "last (trim_char d s) \<noteq> d"
proof -
  let ?t = "dropWhile (\<lambda>c. c = d) s"
  from assms have t: "trim_right_char d ?t \<noteq> []" by (simp add: trim_char_def)
  have "?t \<noteq> []" using t by (cases ?t) simp_all
  then show "hd (trim_char d s) \<noteq> d" using trim_right_hd [OF t] hd_dropWhile [of "\<lambda>c. c = d" s]
    by (simp add: trim_char_def del: trim_right_char.simps)
  show "last (trim_char d s) \<noteq> d" using trim_right_ends [OF t] by (simp add: trim_char_def del: trim_right_char.simps)
qed

lemma trim_char_sub: "set (trim_char d s) \<subseteq> set s" "length (trim_char d s) \<le> length s"
proof -
  obtain t where t: "dropWhile (\<lambda>c. c = d) s = trim_char d s @ t"
    using trim_right_prefix [of "dropWhile (\<lambda>c. c = d) s" d] by (auto simp: trim_char_def)
  have "set (dropWhile (\<lambda>c. c = d) s) \<subseteq> set s" by (auto dest: set_dropWhileD)
  then show "set (trim_char d s) \<subseteq> set s" using t by auto
  have "length (dropWhile (\<lambda>c. c = d) s) \<le> length s" by (rule length_dropWhile_le)
  then show "length (trim_char d s) \<le> length s" using t by simp
qed

text \<open>
  The file name of an archive is one path component, whatever the client asked for: its
  stem is not empty, has at most 64 bytes, contains only ASCII letters, digits and dashes,
  and neither starts nor ends with a dash, so no request path can leave the directory of the
  archive or name a hidden file.
\<close>

theorem file_stem_safe:
  "sanitizeForFilename p \<noteq> [] \<and> length (sanitizeForFilename p) \<le> 64 \<and>
   set (sanitizeForFilename p) \<subseteq> {c. alphanumeric c \<or> c = CHR ''-''} \<and>
   hd (sanitizeForFilename p) \<noteq> CHR ''-'' \<and> last (sanitizeForFilename p) \<noteq> CHR ''-''"
proof -
  define out where "out = trim_char CHR ''-'' (dashed (trim_prefix p ''/''))"
  define cut where "cut = trim_char CHR ''-'' (take 64 out)"
  have s: "set out \<subseteq> {c. alphanumeric c \<or> c = CHR ''-''}"
    using trim_char_sub(1) [of "CHR ''-''" "dashed (trim_prefix p ''/'')"] dashed_bytes by (auto simp: out_def)
  have c: "set cut \<subseteq> set out" "length cut \<le> 64"
    using trim_char_sub [of "CHR ''-''" "take 64 out"] set_take_subset [of 64 out] by (auto simp: cut_def)
  have e: "out \<noteq> [] \<Longrightarrow> hd out \<noteq> CHR ''-'' \<and> last out \<noteq> CHR ''-''"
    using trim_char_ends [of "CHR ''-''"] by (simp add: out_def)
  have n: "cut \<noteq> []" if "out \<noteq> []"
  proof -
    from that e have "take 64 out \<noteq> []" "hd (take 64 out) \<noteq> CHR ''-''" by simp_all
    then have "dropWhile (\<lambda>c. c = CHR ''-'') (take 64 out) = take 64 out" by (cases "take 64 out") auto
    with trim_right_keeps [of "take 64 out" "CHR ''-''"] \<open>take 64 out \<noteq> []\<close> \<open>hd (take 64 out) \<noteq> CHR ''-''\<close>
    show ?thesis by (simp add: cut_def trim_char_def del: trim_right_char.simps)
  qed
  have d: "cut \<noteq> [] \<Longrightarrow> hd cut \<noteq> CHR ''-'' \<and> last cut \<noteq> CHR ''-''"
    using trim_char_ends [of "CHR ''-''"] by (simp add: cut_def)
  have r: "sanitizeForFilename p = (if out = [] then ''root'' else if 64 < length out then cut else out)"
    by (simp add: sanitizeForFilename_def out_def cut_def)
  have root: "set ''root'' \<subseteq> {c. alphanumeric c \<or> c = CHR ''-''}" by (simp add: alphanumeric_def)
  show ?thesis using s c e n d root unfolding r by (auto simp del: set_simps)
qed

end
