(* ===== verification/Version.thy ===== *)
theory Version
  imports Surfacing
begin

text \<open>
  The version of the program (version.go): the values stamped at link time, the fallback to
  the build information of the Go toolchain, the renderings for the log and the command line,
  and the \<open>/__version\<close> endpoint.
\<close>

section \<open>The version record\<close>

record versionInfo =
  vi_program :: bytes
  vi_version :: bytes
  vi_commit :: bytes
  vi_buildDate :: bytes
  vi_dirty :: bool
  vi_dirtyKnown :: bool

text \<open>
  What a build leaves in the binary: the four link-time variables and the settings
  \<open>debug.ReadBuildInfo\<close> reports, if it reports any.
\<close>

record build =
  bd_version :: bytes
  bd_commit :: bytes
  bd_buildDate :: bytes
  bd_dirty :: bytes
  bd_settings :: "(bytes \<times> bytes) list option"

text \<open>\<open>parseDirty\<close>: \<open>None\<close> when the text says neither.\<close>

definition parseDirty :: "bytes \<Rightarrow> bool option" where
  "parseDirty s =
     (let t = to_lower (trim_space s)
      in if t \<in> {''1'', ''true'', ''yes''} then Some True
         else if t \<in> {''0'', ''false'', ''no''} then Some False else None)"

definition defaultString :: "bytes \<Rightarrow> bytes \<Rightarrow> bytes" where
  "defaultString s fallback = (let t = trim_space s in if t \<noteq> [] then t else fallback)"

definition apply_setting :: "bytes \<times> bytes \<Rightarrow> versionInfo \<Rightarrow> versionInfo" where
  "apply_setting kv vi =
     (case kv of (k, v) \<Rightarrow>
        if k = ''vcs.revision'' then (if vi_commit vi = [] then vi\<lparr>vi_commit := trim_space v\<rparr> else vi)
        else if k = ''vcs.time'' then (if vi_buildDate vi = [] then vi\<lparr>vi_buildDate := trim_space v\<rparr> else vi)
        else if k = ''vcs.modified'' then
          (if vi_dirtyKnown vi then vi
           else case parseDirty v of
                  Some d \<Rightarrow> vi\<lparr>vi_dirty := d, vi_dirtyKnown := True\<rparr>
                | None \<Rightarrow> vi)
        else vi)"

definition applyVCSBuildSettings :: "(bytes \<times> bytes) list \<Rightarrow> versionInfo \<Rightarrow> versionInfo" where
  "applyVCSBuildSettings settings vi = fold apply_setting settings vi"

definition stamped_version :: "build \<Rightarrow> versionInfo" where
  "stamped_version B =
     \<lparr>vi_program = programName, vi_version = defaultString (bd_version B) ''dev'',
      vi_commit = trim_space (bd_commit B), vi_buildDate = trim_space (bd_buildDate B),
      vi_dirty = (parseDirty (bd_dirty B) = Some True), vi_dirtyKnown = (parseDirty (bd_dirty B) \<noteq> None)\<rparr>"

definition currentVersion :: "build \<Rightarrow> versionInfo" where
  "currentVersion B =
     (case bd_settings B of
        None \<Rightarrow> stamped_version B
      | Some settings \<Rightarrow> applyVCSBuildSettings settings (stamped_version B))"

section \<open>Renderings\<close>

definition shortCommit :: "bytes \<Rightarrow> bytes" where
  "shortCommit c0 =
     (let c = trim_space c0 in if c = [] \<or> c = ''unknown'' then [] else take 12 c)"

text \<open>\<open>strings.Map\<close> takes a rune at a time; an invalid byte is a rune of its own.\<close>

definition token_byte :: "char \<Rightarrow> bool" where
  "token_byte c =
     (let b = byte_val c
      in (97 \<le> b \<and> b \<le> 122) \<or> (65 \<le> b \<and> b \<le> 90) \<or> (48 \<le> b \<and> b \<le> 57) \<or> c \<in> {CHR ''.'', CHR ''-'', CHR ''_''})"

function map_token :: "bytes \<Rightarrow> bytes" where
  "map_token [] = []"
| "map_token (c # s) =
     (if token_byte c then c # map_token s
      else CHR ''_'' # map_token (drop (max 1 (rune_len (c # s))) (c # s)))"
  by pat_completeness auto
termination
  by (relation "measure length") auto

definition tokenPart :: "bytes \<Rightarrow> bytes" where
  "tokenPart s = (let t = trim_space s in if t = [] then ''unknown'' else map_token t)"

definition token :: "versionInfo \<Rightarrow> bytes" where
  "token vi =
     (let tok = tokenPart (defaultString (vi_version vi) ''dev''); c = shortCommit (vi_commit vi)
      in tok @ (if c \<noteq> [] then ''+'' @ c else [])
         @ (if vi_dirtyKnown vi \<and> vi_dirty vi then ''.dirty'' else []))"

definition version_line :: "versionInfo \<Rightarrow> bytes" where
  "version_line vi =
     join_with '' ''
       ([defaultString (vi_program vi) programName, ''version='' @ defaultString (vi_version vi) ''dev'']
        @ (if vi_commit vi \<noteq> [] then [''commit='' @ vi_commit vi] else [])
        @ (if vi_buildDate vi \<noteq> [] then [''build_date='' @ vi_buildDate vi] else [])
        @ [if vi_dirtyKnown vi then ''dirty='' @ (if vi_dirty vi then ''true'' else ''false'') else ''dirty=unknown''])"

definition versionCLIOutput :: "build \<Rightarrow> bytes list \<Rightarrow> bytes option" where
  "versionCLIOutput B args =
     (case args of
        [a] \<Rightarrow> if a \<in> {''--version'', ''-version'', ''version''} then Some (version_line (currentVersion B)) else None
      | _ \<Rightarrow> None)"

text \<open>\<open>json.Marshal\<close> of the record: the empty commit and date are omitted.\<close>

definition version_json :: "versionInfo \<Rightarrow> json" where
  "version_json vi =
     JObj ([(''program'', html_string (vi_program vi)), (''version'', html_string (vi_version vi))]
       @ (if vi_commit vi \<noteq> [] then [(''commit'', html_string (vi_commit vi))] else [])
       @ (if vi_buildDate vi \<noteq> [] then [(''build_date'', html_string (vi_buildDate vi))] else [])
       @ [(''dirty'', JBool (vi_dirty vi)), (''dirty_known'', JBool (vi_dirtyKnown vi))])"

section \<open>The endpoint\<close>

text \<open>\<open>http.Error\<close>: a plain text body; a declared length would be wrong.\<close>

definition http_error :: "bytes \<Rightarrow> int \<Rightarrow> downstream \<Rightarrow> downstream" where
  "http_error msg code w =
     w_send (w\<lparr>ds_header := header_set (header_set (header_del (ds_header w) ''Content-Length'')
                  ''Content-Type'' ''text/plain; charset=utf-8'') ''X-Content-Type-Options'' ''nosniff'',
               ds_status := Some code\<rparr>) [msg @ [LF]]"

text \<open>\<open>None\<close>: the request is not for this endpoint. Writing a body sends status 200.\<close>

definition handleVersionRequest :: "build \<Rightarrow> bytes \<Rightarrow> bytes \<Rightarrow> downstream \<Rightarrow> downstream option" where
  "handleVersionRequest B meth path w =
     (if path \<noteq> ''/__version'' then None
      else if meth \<noteq> ''GET'' \<and> meth \<noteq> ''HEAD'' then
        Some (http_error ''method not allowed'' 405 (w\<lparr>ds_header := header_set (ds_header w) ''Allow'' ''GET, HEAD''\<rparr>))
      else let w1 = w\<lparr>ds_header := header_set (header_set (ds_header w) ''Content-Type'' ''application/json'')
                                       ''Cache-Control'' ''no-store'',
                      ds_status := Some 200\<rparr>
           in if meth = ''HEAD'' then Some w1 else Some (encode_to (version_json (currentVersion B)) w1))"

section \<open>What is stamped wins\<close>

text \<open>The first setting of a key that has a value, the first readable dirty flag.\<close>

definition first_setting :: "bytes \<Rightarrow> (bytes \<times> bytes) list \<Rightarrow> bytes" where
  "first_setting key settings =
     (case filter (\<lambda>v. v \<noteq> []) (map (trim_space \<circ> snd) (filter (\<lambda>kv. fst kv = key) settings)) of
        [] \<Rightarrow> [] | v # _ \<Rightarrow> v)"

definition first_dirty :: "(bytes \<times> bytes) list \<Rightarrow> bool option" where
  "first_dirty settings =
     (case List.map_filter (\<lambda>kv. if fst kv = ''vcs.modified'' then parseDirty (snd kv) else None) settings of
        [] \<Rightarrow> None | d # _ \<Rightarrow> Some d)"

lemma apply_setting_fields:
  "vi_commit (apply_setting kv vi) =
     (if vi_commit vi = [] \<and> fst kv = ''vcs.revision'' then trim_space (snd kv) else vi_commit vi)"
  "vi_buildDate (apply_setting kv vi) =
     (if vi_buildDate vi = [] \<and> fst kv = ''vcs.time'' then trim_space (snd kv) else vi_buildDate vi)"
  "vi_dirtyKnown (apply_setting kv vi) =
     (vi_dirtyKnown vi \<or> fst kv = ''vcs.modified'' \<and> parseDirty (snd kv) \<noteq> None)"
  "vi_dirty (apply_setting kv vi) =
     (if \<not> vi_dirtyKnown vi \<and> fst kv = ''vcs.modified'' then (case parseDirty (snd kv) of Some d \<Rightarrow> d | None \<Rightarrow> vi_dirty vi)
      else vi_dirty vi)"
  "vi_program (apply_setting kv vi) = vi_program vi" "vi_version (apply_setting kv vi) = vi_version vi"
  by (cases kv; simp add: apply_setting_def split: option.split)+

lemma settings_fields:
  "vi_commit (fold apply_setting settings vi) =
     (if vi_commit vi \<noteq> [] then vi_commit vi else first_setting ''vcs.revision'' settings)"
  "vi_buildDate (fold apply_setting settings vi) =
     (if vi_buildDate vi \<noteq> [] then vi_buildDate vi else first_setting ''vcs.time'' settings)"
  "vi_program (fold apply_setting settings vi) = vi_program vi"
  "vi_version (fold apply_setting settings vi) = vi_version vi"
  by (induction settings arbitrary: vi) (simp_all add: first_setting_def apply_setting_fields)

lemma settings_dirty:
  "vi_dirtyKnown (fold apply_setting settings vi) = (vi_dirtyKnown vi \<or> first_dirty settings \<noteq> None)"
  "vi_dirty (fold apply_setting settings vi) =
     (if vi_dirtyKnown vi then vi_dirty vi
      else case first_dirty settings of Some d \<Rightarrow> d | None \<Rightarrow> vi_dirty vi)"
  by (induction settings arbitrary: vi)
    (auto simp: first_dirty_def apply_setting_fields List.map_filter_simps split: option.splits)

text \<open>
  A value stamped at link time is never replaced by what the toolchain recorded, and a
  recorded value is used only where nothing was stamped: the commit, the date and the dirty
  flag of the version are the first known ones.
\<close>

theorem stamped_wins:
  assumes "bd_settings B = Some settings"
  shows "currentVersion B =
    \<lparr>vi_program = programName, vi_version = defaultString (bd_version B) ''dev'',
     vi_commit = (if trim_space (bd_commit B) \<noteq> [] then trim_space (bd_commit B) else first_setting ''vcs.revision'' settings),
     vi_buildDate = (if trim_space (bd_buildDate B) \<noteq> [] then trim_space (bd_buildDate B) else first_setting ''vcs.time'' settings),
     vi_dirty = (case parseDirty (bd_dirty B) of
        Some d \<Rightarrow> d | None \<Rightarrow> (case first_dirty settings of Some d \<Rightarrow> d | None \<Rightarrow> False)),
     vi_dirtyKnown = (parseDirty (bd_dirty B) \<noteq> None \<or> first_dirty settings \<noteq> None)\<rparr>"
  using assms
  by (auto intro!: versionInfo.equality
      simp: currentVersion_def applyVCSBuildSettings_def settings_fields settings_dirty stamped_version_def split: option.split)

theorem stamped_wins_witness:
  "currentVersion \<lparr>bd_version = ''1.2'', bd_commit = ''abc'', bd_buildDate = [], bd_dirty = [],
      bd_settings = Some [(''vcs.revision'', ''def''), (''vcs.time'', ''t''), (''vcs.modified'', ''true'')]\<rparr>
    = \<lparr>vi_program = ''steady-proxy'', vi_version = ''1.2'', vi_commit = ''abc'', vi_buildDate = ''t'',
       vi_dirty = True, vi_dirtyKnown = True\<rparr>"
proof -
  let ?ss = "[(''vcs.revision'', ''def''), (''vcs.time'', ''t''), (''vcs.modified'', ''true'')]"
  have e: "trim_space ''abc'' = ''abc''" "trim_space [] = []" "first_setting ''vcs.time'' ?ss = ''t''"
      "defaultString ''1.2'' ''dev'' = ''1.2''" "parseDirty [] = None" "first_dirty ?ss = Some True"
      "programName = ''steady-proxy''"
    by code_simp+
  show ?thesis by (subst stamped_wins [where settings = ?ss]) (simp_all add: e)
qed

section \<open>The endpoint's answer can be read back\<close>

lemma version_keys_ok: "list_all str_ok [''program'', ''version'', ''commit'', ''build_date'', ''dirty'', ''dirty_known'']"
  by code_simp

lemma version_json_wf: "wf_json (Suc d) (version_json vi)"
  using version_keys_ok by (auto simp: version_json_def html_string_def str_ok_quote)

end
