(* ===== verification/Base64.thy ===== *)
theory Base64
  imports Prelude
begin

text \<open>
  \<open>base64.StdEncoding\<close>: the encoder the archive writes bodies with, and a decoder as the
  statement that the bytes can be restored.
\<close>

definition b64_char :: "int \<Rightarrow> char" where
  "b64_char n =
     (if n < 26 then char_of (65 + n) else if n < 52 then char_of (71 + n)
      else if n < 62 then char_of (n - 4) else if n = 62 then CHR ''+'' else CHR ''/'')"

definition b64_val :: "char \<Rightarrow> int option" where
  "b64_val c =
     (let b = byte_val c
      in if 65 \<le> b \<and> b \<le> 90 then Some (b - 65) else if 97 \<le> b \<and> b \<le> 122 then Some (b - 71)
         else if 48 \<le> b \<and> b \<le> 57 then Some (b + 4)
         else if b = 43 then Some 62 else if b = 47 then Some 63 else None)"

text \<open>Three bytes make four characters, a shorter rest is padded.\<close>

fun base64_encode :: "bytes \<Rightarrow> bytes" where
  "base64_encode [] = []"
| "base64_encode [a] =
     [b64_char (byte_val a div 4), b64_char (byte_val a mod 4 * 16), CHR ''='', CHR ''='']"
| "base64_encode [a, b] =
     [b64_char (byte_val a div 4), b64_char (byte_val a mod 4 * 16 + byte_val b div 16),
      b64_char (byte_val b mod 16 * 4), CHR ''='']"
| "base64_encode (a # b # c # s) =
     b64_char (byte_val a div 4) # b64_char (byte_val a mod 4 * 16 + byte_val b div 16)
     # b64_char (byte_val b mod 16 * 4 + byte_val c div 64) # b64_char (byte_val c mod 64) # base64_encode s"

fun base64_decode :: "bytes \<Rightarrow> bytes option" where
  "base64_decode [] = Some []"
| "base64_decode (p # q # r # s # rest) =
     (case (b64_val p, b64_val q) of
        (Some x, Some y) \<Rightarrow>
          let a = char_of (x * 4 + y div 16) in
          (case b64_val r of
             None \<Rightarrow> if r = CHR ''='' \<and> s = CHR ''='' \<and> rest = [] then Some [a] else None
           | Some z \<Rightarrow>
               let b = char_of (y mod 16 * 16 + z div 4) in
               (case b64_val s of
                  None \<Rightarrow> if s = CHR ''='' \<and> rest = [] then Some [a, b] else None
                | Some v \<Rightarrow>
                    map_option (\<lambda>t. a # b # char_of (z mod 4 * 64 + v) # t) (base64_decode rest)))
      | _ \<Rightarrow> None)"
| "base64_decode _ = None"

lemma byte_of_int: "0 \<le> n \<Longrightarrow> n < 256 \<Longrightarrow> byte_val (char_of (n :: int)) = n"
  by (simp add: of_char_of)

lemma b64_val_char: "0 \<le> n \<Longrightarrow> n < 64 \<Longrightarrow> b64_val (b64_char n) = Some n"
  by (auto simp: b64_char_def b64_val_def Let_def byte_of_int)

lemma b64_val_pad: "b64_val (CHR ''='') = None"
  by (simp add: b64_val_def)

lemma char_of_byte: "n = byte_val c \<Longrightarrow> char_of n = c"
  by simp

text \<open>How the bits of a byte are dealt out and put together again.\<close>

lemma glue:
  fixes a b k :: int
  assumes "0 \<le> b" "b < k"
  shows "(a * k + b) div k = a" "(a * k + b) mod k = b"
  using assms by (simp_all add: div_mult_self3)

lemma div_range:
  fixes x k n :: int
  assumes "0 \<le> x" "x < k * n" "0 < k"
  shows "0 \<le> x div k" "x div k < n"
proof -
  show "0 \<le> x div k" using assms by (simp add: pos_imp_zdiv_nonneg_iff)
  show "x div k < n"
  proof (rule ccontr)
    assume "\<not> x div k < n"
    then have "n * k \<le> x div k * k" using assms(3) by (intro mult_right_mono) simp_all
    also have "\<dots> \<le> x" using div_mult_mod_eq [of x k] pos_mod_sign [of k x] assms(3) by linarith
    finally show False using assms(2) by (simp add: mult.commute)
  qed
qed

lemma byte_div:
  "0 \<le> byte_val c div 4" "byte_val c div 4 < 64" "0 \<le> byte_val c div 16" "byte_val c div 16 < 16"
  "0 \<le> byte_val c div 64" "byte_val c div 64 < 4"
  using div_range [of "byte_val c" 4 64] div_range [of "byte_val c" 16 16] div_range [of "byte_val c" 64 4]
  by simp_all

lemma byte_mod:
  "0 \<le> byte_val c mod 4" "byte_val c mod 4 < 4" "0 \<le> byte_val c mod 16" "byte_val c mod 16 < 16"
  "0 \<le> byte_val c mod 64" "byte_val c mod 64 < 64"
  by simp_all

lemma byte_join:
  "byte_val c div 4 * 4 + byte_val c mod 4 = byte_val c" "byte_val c div 16 * 16 + byte_val c mod 16 = byte_val c"
  "byte_val c div 64 * 64 + byte_val c mod 64 = byte_val c"
  by (rule div_mult_mod_eq)+

lemma b64_val_two:
  assumes "0 \<le> x" "x < m" "0 \<le> y" "y < k" "m * k = 64"
  shows "b64_val (b64_char (x * k + y)) = Some (x * k + y)"
proof (rule b64_val_char)
  have "0 \<le> x * k" using assms by (intro mult_nonneg_nonneg) linarith+
  then show "0 \<le> x * k + y" using assms by linarith
  have "x + 1 \<le> m" using assms(2) by linarith
  then have "(x + 1) * k \<le> m * k" using assms(3,4) by (intro mult_right_mono) linarith+
  then have "x * k + k \<le> 64" by (simp add: assms(5) distrib_right)
  then show "x * k + y < 64" using assms(4) by linarith
qed

lemma sextet_vals:
  "b64_val (b64_char (byte_val a div 4)) = Some (byte_val a div 4)"
  "b64_val (b64_char (byte_val a mod 4 * 16 + byte_val b div 16)) = Some (byte_val a mod 4 * 16 + byte_val b div 16)"
  "b64_val (b64_char (byte_val b mod 16 * 4 + byte_val c div 64)) = Some (byte_val b mod 16 * 4 + byte_val c div 64)"
  "b64_val (b64_char (byte_val c mod 64)) = Some (byte_val c mod 64)"
  "b64_val (b64_char (byte_val a mod 4 * 16)) = Some (byte_val a mod 4 * 16)"
  "b64_val (b64_char (byte_val b mod 16 * 4)) = Some (byte_val b mod 16 * 4)"
  using b64_val_char byte_div byte_mod
    b64_val_two [of "byte_val a mod 4" 4 "byte_val b div 16" 16] b64_val_two [of "byte_val b mod 16" 16 "byte_val c div 64" 4]
    b64_val_two [of "byte_val a mod 4" 4 0 16] b64_val_two [of "byte_val b mod 16" 16 0 4]
  by simp_all

lemma sextet_bytes:
  "(byte_val a mod 4 * 16 + byte_val b div 16) div 16 = byte_val a mod 4"
  "(byte_val a mod 4 * 16 + byte_val b div 16) mod 16 = byte_val b div 16"
  "(byte_val b mod 16 * 4 + byte_val c div 64) div 4 = byte_val b mod 16"
  "(byte_val b mod 16 * 4 + byte_val c div 64) mod 4 = byte_val c div 64"
  using byte_div by (simp_all only: glue)

lemma sextet_alone: "byte_val b mod 16 * 4 div 4 = byte_val b mod 16"
  by simp

theorem base64_roundtrip: "base64_decode (base64_encode s) = Some s"
proof (induction s rule: base64_encode.induct)
  case (4 a b c s)
  then show ?case
    unfolding base64_encode.simps base64_decode.simps sextet_vals
    by (simp only: sextet_bytes byte_join Let_def option.case prod.case char_of_char option.map)
next
  case (3 a b)
  show ?case
    unfolding base64_encode.simps base64_decode.simps sextet_vals b64_val_pad
    by (simp only: sextet_bytes sextet_alone byte_join Let_def option.case prod.case char_of_char simp_thms if_True)
next
  case (2 a)
  show ?case
    unfolding base64_encode.simps base64_decode.simps sextet_vals b64_val_pad
    by (simp add: byte_join Let_def)
qed simp

end
