(* ===== verification/Archive.thy ===== *)
theory Archive
  imports Redact Version Base64
begin

text \<open>
  The request archive (requestlog.go): the capture of a body in memory or in an unlinked
  file, the records of the archive, and the writer that streams them as one JSON object.

  SHA-256 is a parameter \<open>sha\<close>; a time is written as a string the environment formatted.
  A write to the archive file is a write to a \<open>downstream\<close> that breaks when the disk is full.
\<close>

section \<open>Capturing a body\<close>

text \<open>\<open>bc_hashed\<close> is what the running hash has seen.\<close>

record bodyCapture =
  bc_buf :: bytes
  bc_file :: "bytes option"
  bc_hashed :: bytes
  bc_size :: int
  bc_err :: "go_error option"

definition newBodyCapture :: bodyCapture where
  "newBodyCapture = \<lparr>bc_buf = [], bc_file = None, bc_hashed = [], bc_size = 0, bc_err = None\<rparr>"

definition requestArchiveMemoryLimit :: "config \<Rightarrow> int" where
  "requestArchiveMemoryLimit cfg = (if 0 < maxBufferMem cfg then maxBufferMem cfg else 1048576)"

definition file_write :: "spool_io \<Rightarrow> bytes \<Rightarrow> bytes \<Rightarrow> bodyCapture \<Rightarrow> bodyCapture" where
  "file_write io f p c =
     (case io_write io of
        None \<Rightarrow> c\<lparr>bc_file := Some (f @ p)\<rparr>
      | Some (n, e) \<Rightarrow> c\<lparr>bc_file := Some (f @ take n p), bc_err := Some e\<rparr>)"

definition bodyCapture_write :: "config \<Rightarrow> spool_io \<Rightarrow> bytes \<Rightarrow> bodyCapture \<Rightarrow> bodyCapture" where
  "bodyCapture_write cfg io p c0 =
     (let c = c0\<lparr>bc_hashed := bc_hashed c0 @ p, bc_size := bc_size c0 + int (length p)\<rparr>
      in if bc_err c \<noteq> None then c
         else case bc_file c of
                Some f \<Rightarrow> file_write io f p c
              | None \<Rightarrow>
                  if int (length (bc_buf c)) + int (length p) \<le> requestArchiveMemoryLimit cfg
                  then c\<lparr>bc_buf := bc_buf c @ p\<rparr>
                  else (case io_create io of
                          Some e \<Rightarrow> c\<lparr>bc_err := Some e\<rparr>
                        | None \<Rightarrow>
                            (case io_copy io of
                               Some e \<Rightarrow> c\<lparr>bc_err := Some e\<rparr>
                             | None \<Rightarrow> file_write io (bc_buf c) p (c\<lparr>bc_buf := []\<rparr>))))"

record archiveBody =
  ab_encoding :: bytes
  ab_size :: int
  ab_sha :: bytes
  ab_data :: bytes
  ab_captureError :: bytes
  ab_file :: "bytes option"

text \<open>The zero value, which has no encoding.\<close>

definition archiveBody0 :: archiveBody where
  "archiveBody0 = \<lparr>ab_encoding = [], ab_size = 0, ab_sha = [], ab_data = [], ab_captureError = [], ab_file = None\<rparr>"

definition makeArchiveBody :: "(bytes \<Rightarrow> bytes) \<Rightarrow> bytes \<Rightarrow> archiveBody" where
  "makeArchiveBody sha p =
     \<lparr>ab_encoding = ''base64'', ab_size = int (length p), ab_sha = hex_encode (sha p), ab_data = p,
      ab_captureError = [], ab_file = None\<rparr>"

definition archive_body :: "(bytes \<Rightarrow> bytes) \<Rightarrow> bodyCapture option \<Rightarrow> archiveBody" where
  "archive_body sha co =
     (case co of
        None \<Rightarrow> makeArchiveBody sha []
      | Some c \<Rightarrow>
          \<lparr>ab_encoding = ''base64'', ab_size = bc_size c, ab_sha = hex_encode (sha (bc_hashed c)),
           ab_data = (if bc_file c = None then bc_buf c else []),
           ab_captureError = (case bc_err c of None \<Rightarrow> [] | Some e \<Rightarrow> error_text e), ab_file = bc_file c\<rparr>)"

definition body_contents :: "archiveBody \<Rightarrow> bytes" where
  "body_contents b = (case ab_file b of Some f \<Rightarrow> f | None \<Rightarrow> ab_data b)"

section \<open>The records\<close>

record archiveResponse =
  as_status :: int
  as_headers :: "header_entries option"
  as_body :: archiveBody

record archiveFailure =
  af_code :: bytes
  af_type :: bytes
  af_message :: bytes
  af_transient :: bool
  af_fastRetry :: bool
  af_status :: int
  af_origStatus :: int
  af_retryAfter :: int

record archiveStats =
  ax_mode :: bytes
  ax_bytes :: int
  ax_input :: int
  ax_cacheCreation :: int
  ax_cacheRead :: int
  ax_totalInput :: int
  ax_output :: int
  ax_stop :: bytes
  ax_model :: bytes
  ax_maxPingRun :: int

record archiveModelSwap =
  ms_reason :: bytes
  ms_from :: bytes
  ms_to :: bytes

text \<open>An attempt; \<open>at_capture\<close> is the sink of its response body, \<open>at_startedNs\<close> its start.\<close>

record archiveAttempt =
  at_index :: int
  at_startedAt :: bytes
  at_durationMS :: int
  at_who :: bytes
  at_model :: bytes
  at_proxyRetry :: int
  at_bodyRef :: bytes
  at_bodySize :: int
  at_bodySHA :: bytes
  at_requestBody :: "archiveBody option"
  at_response :: "archiveResponse option"
  at_failure :: "archiveFailure option"
  at_stats :: "archiveStats option"
  at_modelSwap :: "archiveModelSwap option"
  at_result :: bytes
  at_retryWaitMS :: int
  at_startedNs :: int
  at_capture :: "bodyCapture option"

record archiveClientRequest =
  cr_method :: bytes
  cr_requestURI :: bytes
  cr_path :: bytes
  cr_query :: bytes
  cr_host :: bytes
  cr_proto :: bytes
  cr_contentLength :: int
  cr_transferEncoding :: "bytes list"
  cr_who :: bytes
  cr_headers :: header_entries
  cr_body :: archiveBody
  cr_bodyReference :: bytes

record archiveOutcome =
  ao_result :: bytes
  ao_who :: bytes
  ao_origStatus :: int
  ao_status :: int
  ao_code :: bytes
  ao_proxyRetries :: int
  ao_modelSwaps :: "archiveModelSwap list"
  ao_stats :: "archiveStats option"
  ao_durationMS :: int

record archiveRedactions =
  rd_headerNames :: "bytes list"
  rd_queryParams :: "bytes list"

record requestArchive =
  ra_schema :: bytes
  ra_id :: bytes
  ra_startedAt :: bytes
  ra_finishedAt :: bytes
  ra_durationMS :: int
  ra_version :: versionInfo
  ra_upstreamURL :: bytes
  ra_client :: archiveClientRequest
  ra_attempts :: "archiveAttempt list"
  ra_outcome :: archiveOutcome
  ra_redactions :: archiveRedactions

section \<open>Values as \<open>json.Marshal\<close> writes them\<close>

text \<open>Members with \<open>omitempty\<close> are left out when they are empty.\<close>

definition jint :: "int \<Rightarrow> json" where
  "jint n = JNum (append_int n)"

definition opt_member :: "bool \<Rightarrow> bytes \<Rightarrow> json \<Rightarrow> (bytes \<times> json) list" where
  "opt_member present k v = (if present then [(k, v)] else [])"

text \<open>A nil slice is written as \<open>null\<close>; a map's keys are sorted.\<close>

definition strings_json :: "bytes list \<Rightarrow> json" where
  "strings_json vs = (if vs = [] then JNull else JArr (map html_string vs))"

definition headers_json :: "header_entries \<Rightarrow> json" where
  "headers_json h = JObj (map (\<lambda>(k, vs). (quote True k, strings_json vs)) (sort_key fst h))"

definition failure_json :: "archiveFailure \<Rightarrow> json" where
  "failure_json f =
     JObj (opt_member (af_code f \<noteq> []) ''code'' (html_string (af_code f))
       @ opt_member (af_type f \<noteq> []) ''type'' (html_string (af_type f))
       @ opt_member (af_message f \<noteq> []) ''message'' (html_string (af_message f))
       @ [(''transient'', JBool (af_transient f))]
       @ opt_member (af_fastRetry f) ''fast_retry'' (JBool True)
       @ opt_member (af_status f \<noteq> 0) ''status'' (jint (af_status f))
       @ opt_member (af_origStatus f \<noteq> 0) ''orig_status'' (jint (af_origStatus f))
       @ opt_member (af_retryAfter f \<noteq> 0) ''retry_after'' (jint (af_retryAfter f)))"

definition stats_json :: "archiveStats \<Rightarrow> json" where
  "stats_json s =
     JObj (opt_member (ax_mode s \<noteq> []) ''mode'' (html_string (ax_mode s))
       @ [(''bytes'', jint (ax_bytes s)), (''input_tokens'', jint (ax_input s)),
          (''cache_creation_input_tokens'', jint (ax_cacheCreation s)),
          (''cache_read_input_tokens'', jint (ax_cacheRead s)), (''total_input_tokens'', jint (ax_totalInput s)),
          (''output_tokens'', jint (ax_output s))]
       @ opt_member (ax_stop s \<noteq> []) ''stop_reason'' (html_string (ax_stop s))
       @ opt_member (ax_model s \<noteq> []) ''model'' (html_string (ax_model s))
       @ [(''max_ping_run'', jint (ax_maxPingRun s))])"

definition swap_json :: "archiveModelSwap \<Rightarrow> json" where
  "swap_json m = JObj [(''reason'', html_string (ms_reason m)), (''from'', html_string (ms_from m)),
                       (''to'', html_string (ms_to m))]"

definition outcome_json :: "archiveOutcome \<Rightarrow> json" where
  "outcome_json oc =
     JObj ([(''result'', html_string (ao_result oc))]
       @ opt_member (ao_who oc \<noteq> []) ''who'' (html_string (ao_who oc))
       @ opt_member (ao_origStatus oc \<noteq> 0) ''orig_status'' (jint (ao_origStatus oc))
       @ opt_member (ao_status oc \<noteq> 0) ''status'' (jint (ao_status oc))
       @ opt_member (ao_code oc \<noteq> []) ''code'' (html_string (ao_code oc))
       @ [(''proxy_retries'', jint (ao_proxyRetries oc))]
       @ opt_member (ao_modelSwaps oc \<noteq> []) ''model_swaps'' (JArr (map swap_json (ao_modelSwaps oc)))
       @ (case ao_stats oc of None \<Rightarrow> [] | Some s \<Rightarrow> [(''stats'', stats_json s)])
       @ [(''duration_ms'', jint (ao_durationMS oc))])"

definition redactions_json :: "archiveRedactions \<Rightarrow> json" where
  "redactions_json r =
     JObj (opt_member (rd_headerNames r \<noteq> []) ''header_names'' (JArr (map html_string (rd_headerNames r)))
       @ opt_member (rd_queryParams r \<noteq> []) ''query_params'' (JArr (map html_string (rd_queryParams r))))"

section \<open>The streaming writer\<close>

type_synonym emitter = "downstream \<Rightarrow> downstream \<times> go_error option"

definition put_bytes :: "bytes \<Rightarrow> emitter" where
  "put_bytes b w = w_write w b"

text \<open>Two writes, the second only if the first succeeded.\<close>

definition and_then :: "emitter \<Rightarrow> emitter \<Rightarrow> emitter" where
  "and_then e e' w = (case e w of (w', Some x) \<Rightarrow> (w', Some x) | (w', None) \<Rightarrow> e' w')"

record jsonObjectWriter =
  jo_first :: bool
  jo_err :: "go_error option"

definition newJSONObject :: "downstream \<Rightarrow> jsonObjectWriter \<times> downstream" where
  "newJSONObject w = (case put_bytes ''{'' w of (w', e) \<Rightarrow> (\<lparr>jo_first = True, jo_err = e\<rparr>, w'))"

definition rawField :: "bytes \<Rightarrow> emitter \<Rightarrow> jsonObjectWriter \<Rightarrow> downstream \<Rightarrow> jsonObjectWriter \<times> downstream \<times> go_error option" where
  "rawField name write jo w =
     (case jo_err jo of
        Some e \<Rightarrow> (jo, w, Some e)
      | None \<Rightarrow>
          (case (if jo_first jo then (w, None) else put_bytes '','' w) of
             (w1, Some e) \<Rightarrow> (jo, w1, Some e)
           | (w1, None) \<Rightarrow>
               (jo\<lparr>jo_first := False\<rparr>,
                and_then (put_bytes (str_lit (quote True name))) (and_then (put_bytes '':'') write) w1)))"

definition jo_end :: "jsonObjectWriter \<Rightarrow> emitter" where
  "jo_end jo w = (case jo_err jo of Some e \<Rightarrow> (w, Some e) | None \<Rightarrow> put_bytes ''}'' w)"

text \<open>The fields of an object in order, each followed by \<open>if err != nil \<dots> return err\<close>.\<close>

fun object_fields :: "(bytes \<times> emitter) list \<Rightarrow> jsonObjectWriter \<Rightarrow> emitter" where
  "object_fields [] jo w = jo_end jo w"
| "object_fields ((name, write) # fs) jo w =
     (case rawField name write jo w of
        (jo2, w', Some e) \<Rightarrow> (w', Some e)
      | (jo2, w', None) \<Rightarrow> object_fields fs jo2 w')"

definition write_object :: "(bytes \<times> emitter) list \<Rightarrow> emitter" where
  "write_object fs w = (case newJSONObject w of (jo, w') \<Rightarrow> object_fields fs jo w')"

definition value_field :: "bytes \<Rightarrow> json \<Rightarrow> bytes \<times> emitter" where
  "value_field name v = (name, put_bytes (render v))"

definition opt_field :: "bool \<Rightarrow> bytes \<times> emitter \<Rightarrow> (bytes \<times> emitter) list" where
  "opt_field present f = (if present then [f] else [])"

text \<open>
  The body in base64: from memory, or copied from its file, of which a seek or a read can
  fail; then what was read is still encoded and flushed before the error is returned.
\<close>

definition write_data :: "spool_rd \<Rightarrow> archiveBody \<Rightarrow> emitter" where
  "write_data rd b =
     and_then (put_bytes [CHR 0x22])
       (case ab_file b of
          None \<Rightarrow> and_then (put_bytes (base64_encode (ab_data b))) (put_bytes [CHR 0x22])
        | Some f \<Rightarrow>
            (case rd_seek rd of
               Some e \<Rightarrow> (\<lambda>w. (w, Some e))
             | None \<Rightarrow>
                 (case rd_read rd of
                    None \<Rightarrow> and_then (put_bytes (base64_encode f)) (put_bytes [CHR 0x22])
                  | Some (n, e) \<Rightarrow> and_then (put_bytes (base64_encode (take n f))) (\<lambda>w. (w, Some e)))))"

definition writeArchiveBody :: "spool_rd \<Rightarrow> archiveBody \<Rightarrow> emitter" where
  "writeArchiveBody rd b =
     write_object
       ([value_field ''encoding'' (html_string (defaultString (ab_encoding b) ''base64'')),
         value_field ''size'' (jint (ab_size b)), value_field ''sha256'' (html_string (ab_sha b))]
        @ opt_field (ab_captureError b \<noteq> []) (value_field ''capture_error'' (html_string (ab_captureError b)))
        @ [(''data_base64'', write_data rd b)])"

definition writeArchiveResponse :: "spool_rd \<Rightarrow> archiveResponse \<Rightarrow> emitter" where
  "writeArchiveResponse rd r =
     write_object
       (opt_field (as_status r \<noteq> 0) (value_field ''status'' (jint (as_status r)))
        @ (case as_headers r of
             Some h \<Rightarrow> opt_field (h \<noteq> []) (value_field ''headers'' (headers_json h))
           | None \<Rightarrow> [])
        @ [(''body'', writeArchiveBody rd (as_body r))])"

definition writeArchiveAttempt :: "spool_rd \<Rightarrow> archiveAttempt \<Rightarrow> emitter" where
  "writeArchiveAttempt rd a =
     write_object
       ([value_field ''index'' (jint (at_index a)), value_field ''started_at'' (html_string (at_startedAt a)),
         value_field ''duration_ms'' (jint (at_durationMS a)), value_field ''who'' (html_string (at_who a)),
         value_field ''model'' (html_string (at_model a)), value_field ''proxy_retry'' (jint (at_proxyRetry a)),
         value_field ''request_body_ref'' (html_string (at_bodyRef a)),
         value_field ''request_body_size'' (jint (at_bodySize a)),
         value_field ''request_body_sha256'' (html_string (at_bodySHA a))]
        @ (case at_requestBody a of None \<Rightarrow> [] | Some b \<Rightarrow> [(''request_body'', writeArchiveBody rd b)])
        @ (case at_response a of None \<Rightarrow> [] | Some r \<Rightarrow> [(''response'', writeArchiveResponse rd r)])
        @ (case at_failure a of None \<Rightarrow> [] | Some f \<Rightarrow> [value_field ''failure'' (failure_json f)])
        @ (case at_stats a of None \<Rightarrow> [] | Some s \<Rightarrow> [value_field ''stats'' (stats_json s)])
        @ (case at_modelSwap a of None \<Rightarrow> [] | Some m \<Rightarrow> [value_field ''model_swap'' (swap_json m)])
        @ opt_field (at_result a \<noteq> []) (value_field ''result'' (html_string (at_result a)))
        @ opt_field (at_retryWaitMS a \<noteq> 0) (value_field ''retry_wait_ms'' (jint (at_retryWaitMS a))))"

fun attempts_loop :: "spool_rd \<Rightarrow> bool \<Rightarrow> archiveAttempt list \<Rightarrow> emitter" where
  "attempts_loop rd first [] = put_bytes '']''"
| "attempts_loop rd first (a # ats) =
     (let rest = and_then (writeArchiveAttempt rd a) (attempts_loop rd False ats)
      in if first then rest else and_then (put_bytes '','') rest)"

definition writeArchiveAttempts :: "spool_rd \<Rightarrow> archiveAttempt list \<Rightarrow> emitter" where
  "writeArchiveAttempts rd ats = and_then (put_bytes ''['') (attempts_loop rd True ats)"

definition writeArchiveClientRequest :: "spool_rd \<Rightarrow> archiveClientRequest \<Rightarrow> emitter" where
  "writeArchiveClientRequest rd cr =
     write_object
       ([value_field ''method'' (html_string (cr_method cr))]
        @ opt_field (cr_requestURI cr \<noteq> []) (value_field ''request_uri'' (html_string (cr_requestURI cr)))
        @ [value_field ''path'' (html_string (cr_path cr))]
        @ opt_field (cr_query cr \<noteq> []) (value_field ''query'' (html_string (cr_query cr)))
        @ opt_field (cr_host cr \<noteq> []) (value_field ''host'' (html_string (cr_host cr)))
        @ opt_field (cr_proto cr \<noteq> []) (value_field ''proto'' (html_string (cr_proto cr)))
        @ [value_field ''content_length'' (jint (cr_contentLength cr))]
        @ opt_field (cr_transferEncoding cr \<noteq> []) (value_field ''transfer_encoding'' (strings_json (cr_transferEncoding cr)))
        @ [value_field ''who'' (html_string (cr_who cr)), value_field ''headers'' (headers_json (cr_headers cr)),
           (''body'', writeArchiveBody rd (cr_body cr)),
           value_field ''body_reference'' (html_string (cr_bodyReference cr))])"

definition writeArchive :: "spool_rd \<Rightarrow> requestArchive \<Rightarrow> emitter" where
  "writeArchive rd ar =
     and_then
       (write_object
         ([value_field ''schema'' (html_string (ra_schema ar)), value_field ''id'' (html_string (ra_id ar)),
           value_field ''started_at'' (html_string (ra_startedAt ar)),
           value_field ''finished_at'' (html_string (ra_finishedAt ar)),
           value_field ''duration_ms'' (jint (ra_durationMS ar)),
           value_field ''proxy_version'' (version_json (ra_version ar))]
          @ opt_field (ra_upstreamURL ar \<noteq> []) (value_field ''upstream_url'' (html_string (ra_upstreamURL ar)))
          @ [(''client_request'', writeArchiveClientRequest rd (ra_client ar)),
             (''attempts'', writeArchiveAttempts rd (ra_attempts ar)),
             value_field ''outcome'' (outcome_json (ra_outcome ar)),
             value_field ''redactions'' (redactions_json (ra_redactions ar))]))
       (put_bytes [LF])"

section \<open>The document the writer streams\<close>

definition body_json :: "archiveBody \<Rightarrow> json" where
  "body_json b =
     JObj ([(''encoding'', html_string (defaultString (ab_encoding b) ''base64'')), (''size'', jint (ab_size b)),
            (''sha256'', html_string (ab_sha b))]
       @ opt_member (ab_captureError b \<noteq> []) ''capture_error'' (html_string (ab_captureError b))
       @ [(''data_base64'', JStr (base64_encode (body_contents b)))])"

definition response_json :: "archiveResponse \<Rightarrow> json" where
  "response_json r =
     JObj (opt_member (as_status r \<noteq> 0) ''status'' (jint (as_status r))
       @ (case as_headers r of Some h \<Rightarrow> opt_member (h \<noteq> []) ''headers'' (headers_json h) | None \<Rightarrow> [])
       @ [(''body'', body_json (as_body r))])"

definition attempt_json :: "archiveAttempt \<Rightarrow> json" where
  "attempt_json a =
     JObj ([(''index'', jint (at_index a)), (''started_at'', html_string (at_startedAt a)),
            (''duration_ms'', jint (at_durationMS a)), (''who'', html_string (at_who a)),
            (''model'', html_string (at_model a)), (''proxy_retry'', jint (at_proxyRetry a)),
            (''request_body_ref'', html_string (at_bodyRef a)), (''request_body_size'', jint (at_bodySize a)),
            (''request_body_sha256'', html_string (at_bodySHA a))]
       @ (case at_requestBody a of None \<Rightarrow> [] | Some b \<Rightarrow> [(''request_body'', body_json b)])
       @ (case at_response a of None \<Rightarrow> [] | Some r \<Rightarrow> [(''response'', response_json r)])
       @ (case at_failure a of None \<Rightarrow> [] | Some f \<Rightarrow> [(''failure'', failure_json f)])
       @ (case at_stats a of None \<Rightarrow> [] | Some s \<Rightarrow> [(''stats'', stats_json s)])
       @ (case at_modelSwap a of None \<Rightarrow> [] | Some m \<Rightarrow> [(''model_swap'', swap_json m)])
       @ opt_member (at_result a \<noteq> []) ''result'' (html_string (at_result a))
       @ opt_member (at_retryWaitMS a \<noteq> 0) ''retry_wait_ms'' (jint (at_retryWaitMS a)))"

definition client_json :: "archiveClientRequest \<Rightarrow> json" where
  "client_json cr =
     JObj ([(''method'', html_string (cr_method cr))]
       @ opt_member (cr_requestURI cr \<noteq> []) ''request_uri'' (html_string (cr_requestURI cr))
       @ [(''path'', html_string (cr_path cr))]
       @ opt_member (cr_query cr \<noteq> []) ''query'' (html_string (cr_query cr))
       @ opt_member (cr_host cr \<noteq> []) ''host'' (html_string (cr_host cr))
       @ opt_member (cr_proto cr \<noteq> []) ''proto'' (html_string (cr_proto cr))
       @ [(''content_length'', jint (cr_contentLength cr))]
       @ opt_member (cr_transferEncoding cr \<noteq> []) ''transfer_encoding'' (strings_json (cr_transferEncoding cr))
       @ [(''who'', html_string (cr_who cr)), (''headers'', headers_json (cr_headers cr)),
          (''body'', body_json (cr_body cr)), (''body_reference'', html_string (cr_bodyReference cr))])"

definition archive_json :: "requestArchive \<Rightarrow> json" where
  "archive_json ar =
     JObj ([(''schema'', html_string (ra_schema ar)), (''id'', html_string (ra_id ar)),
            (''started_at'', html_string (ra_startedAt ar)), (''finished_at'', html_string (ra_finishedAt ar)),
            (''duration_ms'', jint (ra_durationMS ar)), (''proxy_version'', version_json (ra_version ar))]
       @ opt_member (ra_upstreamURL ar \<noteq> []) ''upstream_url'' (html_string (ra_upstreamURL ar))
       @ [(''client_request'', client_json (ra_client ar)),
          (''attempts'', JArr (map attempt_json (ra_attempts ar))),
          (''outcome'', outcome_json (ra_outcome ar)), (''redactions'', redactions_json (ra_redactions ar))])"

text \<open>A failing write stops the writer, so a sequence of writes is one write of their concatenation.\<close>

lemma and_then_emit: "and_then (put_bytes a) (put_bytes b) = put_bytes (a @ b)"
proof
  fix w
  show "and_then (put_bytes a) (put_bytes b) w = put_bytes (a @ b) w"
    by (cases "ds_limit w") (auto simp: and_then_def put_bytes_def w_write_def take_append nat_diff_distrib nat_int_add)
qed

lemma and_then_assoc: "and_then (and_then e1 e2) e3 = and_then e1 (and_then e2 e3)"
  by (auto simp: and_then_def fun_eq_iff split: prod.split option.split)

lemma and_then_emits: "and_then (put_bytes a) (and_then (put_bytes b) e) = and_then (put_bytes (a @ b)) e"
  by (simp add: and_then_assoc [symmetric] and_then_emit)

definition member_field :: "bytes \<times> json \<Rightarrow> bytes \<times> emitter" where
  "member_field m = (fst m, put_bytes (render (snd m)))"

lemma object_fields_failed: "object_fields fs \<lparr>jo_first = f, jo_err = Some e\<rparr> w = (w, Some e)"
  by (cases fs) (auto simp: jo_end_def rawField_def)

lemma object_fields_emit:
  assumes "list_all (\<lambda>m. quote True (fst m) = fst m) ms"
  shows "object_fields (map member_field ms) \<lparr>jo_first = f, jo_err = None\<rparr> =
    put_bytes ((if f \<or> ms = [] then [] else '','') @ join_with '','' (map render_member ms) @ ''}'')"
  using assms
proof (induction ms arbitrary: f)
  case Nil
  then show ?case by (simp add: jo_end_def fun_eq_iff)
next
  case (Cons m ms)
  define p where "p = render_member m"
  define r where "r = put_bytes ((if ms = [] then [] else '','') @ join_with '','' (map render_member ms) @ ''}'')"
  have r: "object_fields (map member_field ms) \<lparr>jo_first = False, jo_err = None\<rparr> = r"
    using Cons by (simp add: r_def)
  have q: "quote True (fst m) = fst m" using Cons.prems by simp
  have p: "and_then (put_bytes (str_lit (fst m))) (and_then (put_bytes '':'') (put_bytes (render (snd m)))) = put_bytes p"
    by (cases m) (simp add: and_then_emit and_then_emits p_def render_member_def)
  have "object_fields (map member_field (m # ms)) \<lparr>jo_first = f, jo_err = None\<rparr> =
      (if f then and_then (put_bytes p) r else and_then (put_bytes '','') (and_then (put_bytes p) r))"
    by (rule ext) (auto simp: rawField_def q p r member_field_def and_then_def split: prod.split option.split)
  then show ?case
    by (cases ms) (auto simp: r_def and_then_emit and_then_emits p_def)
qed

lemma write_object_emit:
  assumes "list_all (\<lambda>m. quote True (fst m) = fst m) ms"
  shows "write_object (map member_field ms) = put_bytes (render (JObj ms))"
proof -
  have "write_object fs = and_then (put_bytes ''{'') (object_fields fs \<lparr>jo_first = True, jo_err = None\<rparr>)" for fs
    by (auto simp: write_object_def newJSONObject_def and_then_def object_fields_failed fun_eq_iff
        split: prod.split option.split)
  then show ?thesis by (simp add: object_fields_emit [OF assms] and_then_emit render_JObj del: render.simps)
qed

section \<open>The writer streams the document\<close>

lemma archive_keys:
  "list_all (\<lambda>k. quote True k = k \<and> str_ok k)
     [''encoding'', ''size'', ''sha256'', ''capture_error'', ''data_base64'', ''status'', ''headers'', ''body'',
      ''index'', ''started_at'', ''duration_ms'', ''who'', ''model'', ''proxy_retry'', ''request_body_ref'',
      ''request_body_size'', ''request_body_sha256'', ''request_body'', ''response'', ''failure'', ''stats'',
      ''model_swap'', ''result'', ''retry_wait_ms'', ''method'', ''request_uri'', ''path'', ''query'', ''host'',
      ''proto'', ''content_length'', ''transfer_encoding'', ''body_reference'', ''schema'', ''id'', ''finished_at'',
      ''proxy_version'', ''upstream_url'', ''client_request'', ''attempts'', ''outcome'', ''redactions'',
      ''code'', ''type'', ''message'', ''transient'', ''fast_retry'', ''orig_status'', ''retry_after'', ''mode'',
      ''bytes'', ''input_tokens'', ''cache_creation_input_tokens'', ''cache_read_input_tokens'',
      ''total_input_tokens'', ''output_tokens'', ''stop_reason'', ''max_ping_run'', ''reason'', ''from'', ''to'',
      ''proxy_retries'', ''model_swaps'', ''header_names'', ''query_params'']"
  by code_simp

lemmas key_facts = archive_keys [unfolded list.pred_inject]

text \<open>The fields of an object, as members of the document.\<close>

lemma field_member:
  "value_field k v = member_field (k, v)" "opt_field p (member_field (k, v)) = map member_field (opt_member p k v)"
  "e = put_bytes (render v) \<Longrightarrow> (k, e) = member_field (k, v)"
  by (simp_all add: value_field_def member_field_def opt_field_def opt_member_def)

lemma list_all_opt_member: "list_all P (opt_member p k v) = (p \<longrightarrow> P (k, v))"
  by (simp add: opt_member_def)

definition readable :: "spool_rd \<Rightarrow> bool" where
  "readable rd = (rd_seek rd = None \<and> rd_read rd = None)"

lemma write_data_put:
  "readable rd \<Longrightarrow> write_data rd b = put_bytes (render (JStr (base64_encode (body_contents b))))"
  by (auto simp: write_data_def readable_def body_contents_def and_then_emit str_lit_def split: option.split)

lemma object_members:
  assumes "fs = map member_field ms" "list_all (\<lambda>m. quote True (fst m) = fst m) ms"
  shows "write_object fs = put_bytes (render (JObj ms))"
  using write_object_emit [OF assms(2)] assms(1) by simp

lemma body_put: "readable rd \<Longrightarrow> writeArchiveBody rd b = put_bytes (render (body_json b))"
  unfolding writeArchiveBody_def body_json_def
  by (rule object_members) (simp_all add: field_member(1,2) field_member(3) [OF write_data_put] list_all_opt_member key_facts del: quote.simps)

lemma response_put: "readable rd \<Longrightarrow> writeArchiveResponse rd r = put_bytes (render (response_json r))"
  unfolding writeArchiveResponse_def response_json_def
  by (rule object_members)
    (simp_all add: field_member(1,2) field_member(3) [OF body_put] list_all_opt_member key_facts split: option.split del: quote.simps)

lemma attempt_put: "readable rd \<Longrightarrow> writeArchiveAttempt rd a = put_bytes (render (attempt_json a))"
  unfolding writeArchiveAttempt_def attempt_json_def
  by (rule object_members)
    (simp_all add: field_member(1,2) field_member(3) [OF body_put] field_member(3) [OF response_put] list_all_opt_member
      key_facts split: option.split del: quote.simps)

lemma attempts_loop_put:
  assumes "readable rd"
  shows "attempts_loop rd first ats =
    put_bytes ((if first \<or> ats = [] then [] else '','') @ join_with '','' (map (render \<circ> attempt_json) ats) @ '']'')"
proof (induction ats arbitrary: first)
  case (Cons a ats)
  show ?case
    unfolding attempts_loop.simps Let_def Cons.IH attempt_put [OF assms] and_then_emit
    by (cases ats) (simp_all add: comp_def)
qed simp

lemma attempts_put: "readable rd \<Longrightarrow> writeArchiveAttempts rd ats = put_bytes (render (JArr (map attempt_json ats)))"
  by (simp add: writeArchiveAttempts_def attempts_loop_put and_then_emit)

lemma client_put: "readable rd \<Longrightarrow> writeArchiveClientRequest rd cr = put_bytes (render (client_json cr))"
  unfolding writeArchiveClientRequest_def client_json_def
  by (rule object_members)
    (simp_all add: field_member(1,2) field_member(3) [OF body_put] list_all_opt_member key_facts del: quote.simps)

lemma archive_streams_lemma:
  assumes "readable rd"
  shows "writeArchive rd ar w = w_write w (render (archive_json ar) @ [LF])"
proof -
  have "write_object
         ([value_field ''schema'' (html_string (ra_schema ar)), value_field ''id'' (html_string (ra_id ar)),
           value_field ''started_at'' (html_string (ra_startedAt ar)),
           value_field ''finished_at'' (html_string (ra_finishedAt ar)),
           value_field ''duration_ms'' (jint (ra_durationMS ar)),
           value_field ''proxy_version'' (version_json (ra_version ar))]
          @ opt_field (ra_upstreamURL ar \<noteq> []) (value_field ''upstream_url'' (html_string (ra_upstreamURL ar)))
          @ [(''client_request'', writeArchiveClientRequest rd (ra_client ar)),
             (''attempts'', writeArchiveAttempts rd (ra_attempts ar)),
             value_field ''outcome'' (outcome_json (ra_outcome ar)),
             value_field ''redactions'' (redactions_json (ra_redactions ar))])
      = put_bytes (render (archive_json ar))"
    unfolding archive_json_def
    by (rule object_members)
      (simp_all add: field_member(1,2) field_member(3) [OF client_put [OF assms]] field_member(3) [OF attempts_put [OF assms]]
        list_all_opt_member key_facts del: quote.simps)
  then show ?thesis by (simp add: writeArchive_def and_then_emit) (simp add: put_bytes_def)
qed

text \<open>
  C12. The archive file is one JSON document: streaming it field by field, bodies in base64
  pieces, writes exactly the rendering of the archive as a JSON value and a newline. A disk
  that fills up leaves a prefix of that text and the error is reported.
\<close>

theorem archive_streams_document:
  assumes "readable rd"
  shows "writeArchive rd ar w = w_write w (render (archive_json ar) @ [LF])"
  by (rule archive_streams_lemma [OF assms])

section \<open>The document is well formed\<close>

lemma append_int_ok: "num_ok (append_int n)"
proof -
  have pos: "num_ok (itoa_loop m []) \<and> num_ok (CHR ''-'' # itoa_loop m [])" if p: "0 < m" for m
  proof -
    obtain c s where c: "itoa_loop m [] = c # s" "is_digit c" "c \<noteq> CHR ''0''"
      using itoa_digits [OF p] by blast
    have d: "list_all is_digit (itoa_loop m [])" using itoa_loop_spec [of m "[]"] p by simp
    have m: "c \<noteq> CHR ''-''" using c(2) by (auto simp: is_digit_def)
    show ?thesis using c m d num_steps_digits [of s] by (simp add: num_start_def num_accept_def)
  qed
  have "num_ok ''0''" by code_simp
  with pos [of n] pos [of "- n"] show ?thesis by (auto simp: append_int_def)
qed

lemma base64_str_ok: "str_ok (base64_encode s)"
proof -
  have c: "0x20 \<le> byte_val (b64_char n) \<and> b64_char n \<noteq> CHR 0x5C \<and> b64_char n \<noteq> CHR 0x22" if "0 \<le> n" "n < 64" for n
  proof -
    have b: "b64_val (b64_char n) = Some n" using that by (rule b64_val_char)
    have "b64_val (CHR 0x5C) = None" "b64_val (CHR 0x22) = None" by (simp_all add: b64_val_def)
    moreover have "0x20 \<le> byte_val (b64_char n)" using that by (auto simp: b64_char_def byte_of_int)
    ultimately show ?thesis using b by auto
  qed
  have p: "str_ok (b64_char n # t)" if "0 \<le> n" "n < 64" "str_ok t" for n t
    using c [OF that(1,2)] str_ok_append [OF str_ok_plain [of "b64_char n"] that(3)] by simp
  have e: "str_ok [] \<and> str_ok ''='' \<and> str_ok ''==''" by code_simp
  have two: "0 \<le> x * k + y \<and> x * k + y < 64" if "0 \<le> x" "x < m" "0 \<le> y" "y < k" "m * k = 64" for x k y m :: int
  proof -
    have "0 \<le> x * k" using that by (intro mult_nonneg_nonneg) linarith+
    moreover have "(x + 1) * k \<le> m * k" using that by (intro mult_right_mono) linarith+
    ultimately show ?thesis using that by (simp add: distrib_right)
  qed
  note t = two [of "byte_val a mod 4" 4 "byte_val b div 16" 16 for a b, simplified]
    two [of "byte_val a mod 16" 16 "byte_val b div 64" 4 for a b, simplified]
    two [of "byte_val a mod 4" 4 0 16 for a, simplified] two [of "byte_val a mod 16" 16 0 4 for a, simplified]
  show ?thesis
    by (induction s rule: base64_encode.induct) (simp_all del: str_ok.simps add: p e byte_div byte_mod t)
qed

lemma wf_leaf [simp]: "wf_json d (jint n)" "wf_json d (html_string s)"
  by (simp_all add: jint_def append_int_ok html_string_def str_ok_quote)

lemma wf_object: "wf_json (Suc d) (JObj ms) = list_all (\<lambda>m. str_ok (fst m) \<and> wf_json d (snd m)) ms"
  by (auto simp: list_all_iff)

lemma wf_array: "wf_json (Suc d) (JArr vs) = list_all (wf_json d) vs"
  by (auto simp: list_all_iff)

lemma wf_array_map: "(\<And>x. wf_json d (f x)) \<Longrightarrow> wf_json (Suc d) (JArr (map f xs))"
  by (simp add: list_all_iff wf_array del: wf_json.simps)

lemma list_all_map_all: "list_all P (map f xs) = list_all (P \<circ> f) xs"
  by (simp add: list_all_iff)

lemmas wf_member = wf_object wf_array list_all_map_all list_all_opt_member key_facts

lemma wf_null: "wf_json d JNull" "wf_json d (JBool b)"
  by simp_all

lemma wf_strings: "wf_json (Suc d) (strings_json vs)"
  by (simp add: strings_json_def)

lemma wf_headers: "wf_json (Suc (Suc d)) (headers_json h)"
  unfolding headers_json_def wf_object list_all_map_all by (simp add: list_all_iff case_prod_beta wf_strings str_ok_quote)

lemma wf_body: "wf_json (Suc d) (body_json b)"
  unfolding body_json_def wf_object by (simp add: list_all_opt_member key_facts base64_str_ok del: str_ok.simps)

lemma wf_values:
  "wf_json (Suc d) (failure_json f)" "wf_json (Suc d) (stats_json st)" "wf_json (Suc d) (swap_json m)"
  unfolding failure_json_def stats_json_def swap_json_def wf_object
  by (simp_all add: list_all_opt_member key_facts wf_null del: str_ok.simps)

lemma wf_redactions: "wf_json (Suc (Suc d)) (redactions_json r)"
  unfolding redactions_json_def wf_object
  by (simp add: list_all_opt_member key_facts wf_array_map del: str_ok.simps wf_json.simps)

lemma wf_outcome: "wf_json (Suc (Suc (Suc d))) (outcome_json oc)"
  unfolding outcome_json_def wf_object
  by (simp add: list_all_opt_member key_facts wf_array_map wf_values split: option.split
      del: str_ok.simps wf_json.simps)

lemma wf_response: "wf_json (Suc (Suc (Suc d))) (response_json r)"
  unfolding response_json_def wf_object
  by (simp add: list_all_opt_member key_facts wf_body wf_headers split: option.split del: str_ok.simps wf_json.simps)

lemma wf_attempt: "wf_json (Suc (Suc (Suc (Suc d)))) (attempt_json a)"
  unfolding attempt_json_def wf_object
  by (simp add: list_all_opt_member key_facts wf_body wf_response wf_values split: option.split
      del: str_ok.simps wf_json.simps)

lemma wf_client: "wf_json (Suc (Suc (Suc d))) (client_json cr)"
  unfolding client_json_def wf_object
  by (simp add: list_all_opt_member key_facts wf_body wf_headers wf_strings del: str_ok.simps wf_json.simps)

lemma wf_archive: "wf_json max_depth (archive_json ar)"
proof (rule wf_json_mono)
  show "wf_json (Suc (Suc (Suc (Suc (Suc (Suc 0)))))) (archive_json ar)"
    unfolding archive_json_def wf_object
    by (simp add: list_all_opt_member key_facts wf_client wf_outcome wf_redactions wf_attempt version_json_wf
        wf_array_map del: str_ok.simps wf_json.simps)
qed (simp add: max_depth_def)

section \<open>Reading an archive back\<close>

definition json_member :: "bytes \<Rightarrow> json \<Rightarrow> json option" where
  "json_member k v = (case v of JObj ms \<Rightarrow> map_of ms k | _ \<Rightarrow> None)"

definition body_bytes :: "json \<Rightarrow> bytes option" where
  "body_bytes v = (case json_member ''data_base64'' v of Some (JStr s) \<Rightarrow> base64_decode s | _ \<Rightarrow> None)"

definition archived_request :: "bytes \<Rightarrow> bytes option" where
  "archived_request file =
     Option.bind (json_parse file) (\<lambda>v. Option.bind (json_member ''client_request'' v)
       (\<lambda>c. Option.bind (json_member ''body'' c) body_bytes))"

lemma body_bytes_json: "body_bytes (body_json b) = Some (body_contents b)"
  by (simp add: body_bytes_def json_member_def body_json_def opt_member_def base64_roundtrip)

text \<open>
  An archive file that was written without an error parses as JSON, as the archive it was
  written from, and the bytes of the request body it was given are restored from it.
\<close>

lemma archive_file_reads:
  assumes "readable rd" "writeArchive rd ar (w_new\<lparr>ds_limit := limit\<rparr>) = (w, None)"
  shows "json_parse (ds_body w) = Some (archive_json ar) \<and>
    archived_request (ds_body w) = Some (body_contents (cr_body (ra_client ar)))"
proof -
  have "w_write (w_new\<lparr>ds_limit := limit\<rparr>) (render (archive_json ar) @ [LF]) = (w, None)"
    using assms archive_streams_lemma by simp
  from w_write_ok [OF this] have p: "json_parse (ds_body w) = Some (archive_json ar)"
    using json_parse_line [OF wf_archive] by (simp add: w_new_def)
  have "archived_request (ds_body w) = body_bytes (body_json (cr_body (ra_client ar)))"
    unfolding archived_request_def p
    by (simp add: json_member_def archive_json_def client_json_def opt_member_def)
  with p show ?thesis by (simp add: body_bytes_json)
qed

section \<open>What a capture keeps\<close>

text \<open>
  The bytes kept: a prefix of the body, all of it unless an error was noted; in memory no
  more than the limit.
\<close>

definition capture_contents :: "bodyCapture \<Rightarrow> bytes" where
  "capture_contents c = (case bc_file c of Some f \<Rightarrow> f | None \<Rightarrow> bc_buf c)"

definition capture_inv :: "config \<Rightarrow> bodyCapture \<Rightarrow> bool" where
  "capture_inv cfg c =
     (bc_size c = int (length (bc_hashed c)) \<and> prefix (capture_contents c) (bc_hashed c) \<and>
      (bc_err c = None \<longrightarrow> capture_contents c = bc_hashed c) \<and>
      int (length (bc_buf c)) \<le> requestArchiveMemoryLimit cfg \<and> (bc_file c \<noteq> None \<longrightarrow> bc_buf c = []))"

lemma capture_new: "capture_inv cfg newBodyCapture"
  by (simp add: capture_inv_def newBodyCapture_def capture_contents_def requestArchiveMemoryLimit_def)

lemma file_write_inv:
  assumes "bc_size c = int (length (bc_hashed c))" "bc_hashed c = f @ p" "bc_buf c = []" "bc_err c = None"
  shows "capture_inv cfg (file_write io f p c)"
  using assms take_is_prefix
  by (auto simp: capture_inv_def file_write_def capture_contents_def requestArchiveMemoryLimit_def same_prefix_prefix
      split: option.split)

lemma bodyCapture_write_inv: "capture_inv cfg c \<Longrightarrow> capture_inv cfg (bodyCapture_write cfg io p c)"
proof -
  assume c: "capture_inv cfg c"
  show ?thesis
  proof (cases "bc_err c = None")
    case False
    with c show ?thesis
      by (auto simp: capture_inv_def bodyCapture_write_def Let_def capture_contents_def intro: prefix_prefix
          split: option.splits)
  next
    case True
    note fw = file_write_inv [where cfg = cfg]
    show ?thesis
    proof (cases "bc_file c")
      case (Some f)
      with c True show ?thesis
        by (simp add: bodyCapture_write_def Let_def) (rule fw; simp add: capture_inv_def capture_contents_def)
    next
      case None
      with c True have h: "bc_hashed c = bc_buf c" "bc_size c = int (length (bc_buf c))"
        by (simp_all add: capture_inv_def capture_contents_def)
      define d where "d = c\<lparr>bc_hashed := bc_buf c @ p, bc_size := int (length (bc_buf c)) + int (length p)\<rparr>"
      have "capture_inv cfg (file_write io (bc_buf c) p (d\<lparr>bc_buf := []\<rparr>))"
        by (rule fw) (simp_all add: d_def True)
      moreover have "capture_inv cfg (d\<lparr>bc_err := Some e\<rparr>)" for e
        using c None by (simp add: d_def capture_inv_def capture_contents_def)
      moreover have "int (length (bc_buf c)) + int (length p) \<le> requestArchiveMemoryLimit cfg \<Longrightarrow>
          capture_inv cfg (d\<lparr>bc_buf := bc_buf c @ p\<rparr>)"
        using c None by (simp add: d_def capture_inv_def capture_contents_def)
      ultimately show ?thesis
        using None True by (simp add: bodyCapture_write_def Let_def h d_def split: option.split)
    qed
  qed
qed

text \<open>
  C29. A captured body is never silently short: what the archive holds is a prefix of the
  bytes that passed, the recorded size and digest are those of all of them, and it is all of
  them unless an error was noted; memory use stays within the configured bound.
\<close>

theorem capture_complete:
  assumes "c = fold (\<lambda>(io, p). bodyCapture_write cfg io p) writes newBodyCapture" "b = archive_body sha (Some c)"
  shows "prefix (body_contents b) (concat (map snd writes)) \<and>
    ab_size b = int (length (concat (map snd writes))) \<and> ab_sha b = hex_encode (sha (concat (map snd writes))) \<and>
    (bc_err c = None \<longrightarrow> body_contents b = concat (map snd writes)) \<and>
    int (length (ab_data b)) \<le> requestArchiveMemoryLimit cfg"
proof -
  have h: "bc_hashed (fold (\<lambda>(io, p). bodyCapture_write cfg io p) ws c0) = bc_hashed c0 @ concat (map snd ws)" for ws c0
    by (induction ws arbitrary: c0)
      (auto simp: bodyCapture_write_def Let_def file_write_def split: option.split)
  have "capture_inv cfg (fold (\<lambda>(io, p). bodyCapture_write cfg io p) ws c0)" if "capture_inv cfg c0" for ws c0
    using that by (induction ws arbitrary: c0) (auto simp: bodyCapture_write_inv)
  from this [OF capture_new, of writes] assms(1) have "capture_inv cfg c" by simp
  moreover have "bc_hashed c = concat (map snd writes)" using h assms(1) by (simp add: newBodyCapture_def)
  ultimately show ?thesis
    by (auto simp: assms(2) capture_inv_def archive_body_def body_contents_def capture_contents_def
        requestArchiveMemoryLimit_def split: option.splits)
qed

section \<open>Examples\<close>

definition example_archive :: requestArchive where
  "example_archive =
     \<lparr>ra_schema = ''steady-proxy.payload.v3'', ra_id = ''0a1b2c3d'', ra_startedAt = ''t0'', ra_finishedAt = ''t1'',
      ra_durationMS = 7, ra_version = stamped_version \<lparr>bd_version = ''1'', bd_commit = [], bd_buildDate = [], bd_dirty = [],
      bd_settings = None\<rparr>, ra_upstreamURL = ''http://u/'',
      ra_client =
        \<lparr>cr_method = ''POST'', cr_requestURI = ''/v1/messages'', cr_path = ''/v1/messages'', cr_query = [], cr_host = ''h'',
         cr_proto = ''HTTP/1.1'', cr_contentLength = 4, cr_transferEncoding = [], cr_who = ''?/main'',
         cr_headers = [(''Accept'', [''*/*''])], cr_body = makeArchiveBody id ''body'', cr_bodyReference = ''client_request.body''\<rparr>,
      ra_attempts = [],
      ra_outcome =
        \<lparr>ao_result = ''OK'', ao_who = ''?/main'', ao_origStatus = 200, ao_status = 200, ao_code = [], ao_proxyRetries = 0,
         ao_modelSwaps = [], ao_stats = None, ao_durationMS = 7\<rparr>,
      ra_redactions = \<lparr>rd_headerNames = [], rd_queryParams = []\<rparr>\<rparr>"

theorem archive_streams_document_witness:
  "writeArchive rd_fine example_archive w_new = w_write w_new (render (archive_json example_archive) @ [LF])"
  by (rule archive_streams_document) (simp add: readable_def rd_fine_def)

theorem capture_complete_witness:
  "body_contents (archive_body id (Some (fold (\<lambda>(io, p). bodyCapture_write example_config io p)
     [(io_fine, ''ab''), (io_fine, ''c'')] newBodyCapture))) = ''abc''"
proof -
  have e: "bc_err (fold (\<lambda>(io, p). bodyCapture_write example_config io p) [(io_fine, ''ab''), (io_fine, ''c'')] newBodyCapture) = None"
    by code_simp
  from capture_complete [OF refl refl, where cfg = example_config and writes = "[(io_fine, ''ab''), (io_fine, ''c'')]" and sha = id] e show ?thesis by simp
qed

end
