(* ===== verification/Recorder.thy ===== *)
theory Recorder
  imports Archive
begin

text \<open>
  The recorder of one request (requestlog.go: \<open>reqRecorder\<close>): it collects the client's
  request, every upstream attempt and the outcome, and is turned into an archive at the end.

  The attempts are a list and \<open>rec.cur\<close> an index into it, so an operation through the pointer
  is an update at that index. A method on a nil recorder does nothing; the methods here are
  those of a recorder that exists. The time of a call and its printed form are arguments;
  \<open>Format\<close> is the parameter \<open>fmt\<close>. Statistics are archived with the values they have when the
  archive is written.
\<close>

section \<open>The recorder\<close>

text \<open>What the recorder reads from the client's request.\<close>

record client =
  cl_method :: bytes
  cl_rawURI :: bytes
  cl_path :: bytes
  cl_rawQuery :: bytes
  cl_host :: bytes
  cl_proto :: bytes
  cl_contentLength :: int
  cl_transferEncoding :: "bytes list"
  cl_header :: header_entries

record reqRecorder =
  rc_id :: bytes
  rc_when :: int
  rc_method :: bytes
  rc_requestURI :: bytes
  rc_path :: bytes
  rc_query :: bytes
  rc_host :: bytes
  rc_proto :: bytes
  rc_contentLen :: int
  rc_transferEnc :: "bytes list"
  rc_who :: bytes
  rc_outcomeWho :: bytes
  rc_reqHeaders :: header_entries
  rc_reqBody :: bytes
  rc_attempts :: "archiveAttempt list"
  rc_cur :: "nat option"
  rc_bodyRefs :: "bytes \<rightharpoonup> bytes"
  rc_stats :: "captureStats option"
  rc_proxyRetries :: int
  rc_outcome :: bytes
  rc_origStatus :: int
  rc_status :: int
  rc_code :: bytes

definition bodyKey :: "(bytes \<Rightarrow> bytes) \<Rightarrow> bytes \<Rightarrow> bytes" where
  "bodyKey sha p = append_int (int (length p)) @ '':'' @ hex_encode (sha p)"

definition client_body_ref :: bytes where
  "client_body_ref = ''client_request.body''"

definition attempt_body_ref :: "nat \<Rightarrow> bytes" where
  "attempt_body_ref idx = ''attempts.'' @ append_int (int idx) @ ''.request_body''"

definition newReqRecorder :: "(bytes \<Rightarrow> bytes) \<Rightarrow> bytes \<Rightarrow> int \<Rightarrow> client \<Rightarrow> bytes \<Rightarrow> reqRecorder" where
  "newReqRecorder sha rid start r body =
     (let w = who (cl_path r) (map_of (cl_header r)) body
      in \<lparr>rc_id = rid, rc_when = start, rc_method = cl_method r,
          rc_requestURI = redactedRequestURI (cl_rawURI r) (cl_path r) (cl_rawQuery r), rc_path = cl_path r,
          rc_query = cl_rawQuery r, rc_host = cl_host r, rc_proto = cl_proto r,
          rc_contentLen = cl_contentLength r, rc_transferEnc = cl_transferEncoding r, rc_who = w,
          rc_outcomeWho = w, rc_reqHeaders = cl_header r, rc_reqBody = body, rc_attempts = [], rc_cur = None,
          rc_bodyRefs = [bodyKey sha body \<mapsto> client_body_ref], rc_stats = None, rc_proxyRetries = 0,
          rc_outcome = [], rc_origStatus = 0, rc_status = 0, rc_code = []\<rparr>)"

section \<open>Operations\<close>

definition millis :: "int \<Rightarrow> int" where
  "millis d = go_div d 1000000"

definition update_cur :: "(archiveAttempt \<Rightarrow> archiveAttempt) \<Rightarrow> reqRecorder \<Rightarrow> reqRecorder" where
  "update_cur f rec =
     (case rc_cur rec of
        None \<Rightarrow> rec
      | Some i \<Rightarrow> rec\<lparr>rc_attempts := (rc_attempts rec)[i := f (rc_attempts rec ! i)]\<rparr>)"

text \<open>Closing an attempt: its duration, and the body of its response from the capture.\<close>

definition finish_attempt :: "(bytes \<Rightarrow> bytes) \<Rightarrow> int \<Rightarrow> archiveAttempt \<Rightarrow> archiveAttempt" where
  "finish_attempt sha now a0 =
     (let a = (if at_durationMS a0 = 0 then a0\<lparr>at_durationMS := millis (now - at_startedNs a0)\<rparr> else a0)
      in case at_response a of
           None \<Rightarrow> a
         | Some r \<Rightarrow>
             if ab_encoding (as_body r) = []
             then a\<lparr>at_response := Some (r\<lparr>as_body := archive_body sha (at_capture a)\<rparr>)\<rparr> else a)"

definition finishCurrentAttempt :: "(bytes \<Rightarrow> bytes) \<Rightarrow> int \<Rightarrow> reqRecorder \<Rightarrow> reqRecorder" where
  "finishCurrentAttempt sha now rec = update_cur (finish_attempt sha now) rec"

definition bodyReference ::
    "(bytes \<Rightarrow> bytes) \<Rightarrow> bytes \<Rightarrow> bytes \<Rightarrow> reqRecorder \<Rightarrow> bytes \<times> archiveBody option \<times> reqRecorder" where
  "bodyReference sha body newRef rec =
     (let key = bodyKey sha body; ref = (case rc_bodyRefs rec key of Some r \<Rightarrow> r | None \<Rightarrow> [])
      in if ref \<noteq> [] then (ref, None, rec)
         else (newRef, Some (makeArchiveBody sha body), rec\<lparr>rc_bodyRefs := (rc_bodyRefs rec)(key \<mapsto> newRef)\<rparr>))"

definition beginAttempt ::
    "(bytes \<Rightarrow> bytes) \<Rightarrow> (int \<Rightarrow> bytes) \<Rightarrow> int \<Rightarrow> bytes \<Rightarrow> bytes \<Rightarrow> int \<Rightarrow> reqRecorder \<Rightarrow> reqRecorder" where
  "beginAttempt sha fmt now body reqWho proxyRetries rec0 =
     (let rec1 = (finishCurrentAttempt sha now rec0)\<lparr>rc_stats := None, rc_outcomeWho := reqWho\<rparr>;
          idx = length (rc_attempts rec1) + 1
      in case bodyReference sha body (attempt_body_ref idx) rec1 of
           (ref, archived, rec2) \<Rightarrow>
             let a = \<lparr>at_index = int idx, at_startedAt = fmt now, at_durationMS = 0, at_who = reqWho,
                      at_model = requestModelOf (rc_path rec2) body, at_proxyRetry = proxyRetries, at_bodyRef = ref,
                      at_bodySize = int (length body), at_bodySHA = hex_encode (sha body), at_requestBody = archived,
                      at_response = None, at_failure = None, at_stats = None, at_modelSwap = None, at_result = [],
                      at_retryWaitMS = 0, at_startedNs = now, at_capture = None\<rparr>
             in rec2\<lparr>rc_attempts := rc_attempts rec2 @ [a], rc_cur := Some (length (rc_attempts rec2))\<rparr>)"

definition ensureAttemptResponse :: "int \<Rightarrow> header_entries option \<Rightarrow> archiveAttempt \<Rightarrow> archiveAttempt" where
  "ensureAttemptResponse status h a =
     (let r0 = (case at_response a of Some r \<Rightarrow> r
                | None \<Rightarrow> \<lparr>as_status = 0, as_headers = None, as_body = archiveBody0\<rparr>);
          r1 = (if status \<noteq> 0 then r0\<lparr>as_status := status\<rparr> else r0);
          r2 = (case h of Some h \<Rightarrow> r1\<lparr>as_headers := Some (maskHeaders h)\<rparr> | None \<Rightarrow> r1)
      in a\<lparr>at_response := Some r2\<rparr>)"

definition respWriter :: "reqRecorder \<Rightarrow> reqRecorder" where
  "respWriter rec =
     update_cur
       (\<lambda>a0. let a = ensureAttemptResponse 0 None a0
             in if at_capture a = None then a\<lparr>at_capture := Some newBodyCapture\<rparr> else a) rec"

text \<open>A write to the sink \<open>respWriter\<close> returned.\<close>

definition respWrite :: "config \<Rightarrow> spool_io \<Rightarrow> bytes \<Rightarrow> reqRecorder \<Rightarrow> reqRecorder" where
  "respWrite cfg io p rec = update_cur (\<lambda>a. a\<lparr>at_capture := map_option (bodyCapture_write cfg io p) (at_capture a)\<rparr>) rec"

definition noteResponseReadError :: "go_error option \<Rightarrow> reqRecorder \<Rightarrow> reqRecorder" where
  "noteResponseReadError err rec =
     (case err of
        None \<Rightarrow> rec
      | Some e \<Rightarrow>
          update_cur
            (\<lambda>a. a\<lparr>at_capture :=
               map_option (\<lambda>c. if bc_err c = None then c\<lparr>bc_err := Some e\<rparr> else c) (at_capture a)\<rparr>) rec)"

definition noteAttemptResponseHeaders :: "int \<Rightarrow> header_entries \<Rightarrow> reqRecorder \<Rightarrow> reqRecorder" where
  "noteAttemptResponseHeaders status h rec = update_cur (ensureAttemptResponse status (Some h)) rec"

definition noteAttemptFailure :: "failure \<Rightarrow> bytes \<Rightarrow> reqRecorder \<Rightarrow> reqRecorder" where
  "noteAttemptFailure f result rec =
     update_cur
       (\<lambda>a0. let a = a0\<lparr>at_failure :=
               Some \<lparr>af_code = f_code f, af_type = f_atype f, af_message = f_message f, af_transient = f_transient f,
                     af_fastRetry = f_fastRetry f, af_status = f_status f, af_origStatus = f_origStatus f,
                     af_retryAfter = f_retryAfter f\<rparr>\<rparr>
             in if result \<noteq> [] then a\<lparr>at_result := result\<rparr> else a) rec"

definition noteAttemptResult :: "bytes \<Rightarrow> reqRecorder \<Rightarrow> reqRecorder" where
  "noteAttemptResult result rec = update_cur (\<lambda>a. a\<lparr>at_result := result\<rparr>) rec"

definition noteAttemptRetry :: "bytes \<Rightarrow> int \<Rightarrow> reqRecorder \<Rightarrow> reqRecorder" where
  "noteAttemptRetry result wait rec = update_cur (\<lambda>a. a\<lparr>at_result := result, at_retryWaitMS := millis wait\<rparr>) rec"

definition statsArchive :: "captureStats \<Rightarrow> archiveStats" where
  "statsArchive st =
     \<lparr>ax_mode = st_mode st, ax_bytes = st_bytes st, ax_input = st_inputTok st,
      ax_cacheCreation = st_cacheCreationTok st, ax_cacheRead = st_cacheReadTok st, ax_totalInput = st_inTok st,
      ax_output = st_outTok st, ax_stop = st_stop st, ax_model = st_model st, ax_maxPingRun = st_maxPingRun st\<rparr>"

definition noteAttemptStats :: "captureStats \<Rightarrow> reqRecorder \<Rightarrow> reqRecorder" where
  "noteAttemptStats st rec =
     (if rc_cur rec = None then rec
      else noteResponseReadError (st_readErr st)
             ((update_cur (\<lambda>a. a\<lparr>at_stats := Some (statsArchive st)\<rparr>) rec)\<lparr>rc_stats := Some st\<rparr>))"

definition noteDeliveredAnswer :: "bytes \<Rightarrow> captureStats option \<Rightarrow> reqRecorder \<Rightarrow> reqRecorder" where
  "noteDeliveredAnswer reqWho st rec = rec\<lparr>rc_outcomeWho := reqWho, rc_stats := st\<rparr>"

definition noteProxyRetries :: "int \<Rightarrow> reqRecorder \<Rightarrow> reqRecorder" where
  "noteProxyRetries n rec = rec\<lparr>rc_proxyRetries := n\<rparr>"

definition noteModelSwap :: "bytes \<Rightarrow> bytes \<Rightarrow> bytes \<Rightarrow> reqRecorder \<Rightarrow> reqRecorder" where
  "noteModelSwap reason from to rec =
     update_cur
       (\<lambda>a. a\<lparr>at_modelSwap := Some \<lparr>ms_reason = reason, ms_from = from, ms_to = to\<rparr>, at_result := ''model_swap''\<rparr>) rec"

definition note_outcome :: "bytes \<Rightarrow> int \<Rightarrow> int \<Rightarrow> bytes \<Rightarrow> reqRecorder \<Rightarrow> reqRecorder" where
  "note_outcome outcome orig surfaced code rec =
     rec\<lparr>rc_outcome := outcome, rc_origStatus := orig, rc_status := surfaced, rc_code := code\<rparr>"

section \<open>The archive of a recorder\<close>

definition displayWho :: "reqRecorder \<Rightarrow> bytes" where
  "displayWho rec =
     (let w = (if rc_outcomeWho rec = [] then rc_who rec else rc_outcomeWho rec)
      in case rc_stats rec of None \<Rightarrow> w | Some st \<Rightarrow> whoWithResolvedModel w (st_model st))"

definition modelSwaps :: "reqRecorder \<Rightarrow> archiveModelSwap list" where
  "modelSwaps rec = List.map_filter at_modelSwap (rc_attempts rec)"

definition dash :: "bytes \<Rightarrow> bytes" where
  "dash s = (if s = [] then ''-'' else s)"

text \<open>What the process contributes to an archive.\<close>

record archive_env =
  en_fmt :: "int \<Rightarrow> bytes"
  en_build :: build
  en_parse :: url_parser
  en_upstream :: bytes

definition archive :: "(bytes \<Rightarrow> bytes) \<Rightarrow> archive_env \<Rightarrow> int \<Rightarrow> reqRecorder \<Rightarrow> requestArchive" where
  "archive sha E finished rec =
     (case maskHeadersWithNames (rc_reqHeaders rec) of (headers, headerNames) \<Rightarrow>
      case redactQueryWithNames (rc_query rec) of (query, queryNames) \<Rightarrow>
        \<lparr>ra_schema = ''steady-proxy.payload.v3'', ra_id = rc_id rec, ra_startedAt = en_fmt E (rc_when rec),
         ra_finishedAt = en_fmt E finished, ra_durationMS = millis (finished - rc_when rec),
         ra_version = currentVersion (en_build E),
         ra_upstreamURL = redactedUpstreamURL (en_parse E) (en_upstream E) (rc_path rec) (rc_query rec),
         ra_client =
           \<lparr>cr_method = rc_method rec, cr_requestURI = rc_requestURI rec, cr_path = rc_path rec, cr_query = query,
            cr_host = rc_host rec, cr_proto = rc_proto rec, cr_contentLength = rc_contentLen rec,
            cr_transferEncoding = rc_transferEnc rec, cr_who = rc_who rec, cr_headers = headers,
            cr_body = makeArchiveBody sha (rc_reqBody rec), cr_bodyReference = client_body_ref\<rparr>,
         ra_attempts = rc_attempts rec,
         ra_outcome =
           \<lparr>ao_result = dash (rc_outcome rec), ao_who = displayWho rec, ao_origStatus = rc_origStatus rec,
            ao_status = rc_status rec, ao_code = rc_code rec, ao_proxyRetries = rc_proxyRetries rec,
            ao_modelSwaps = modelSwaps rec, ao_stats = map_option statsArchive (rc_stats rec),
            ao_durationMS = millis (finished - rc_when rec)\<rparr>,
         ra_redactions = \<lparr>rd_headerNames = sort headerNames, rd_queryParams = sort queryNames\<rparr>\<rparr>)"

text \<open>
  \<open>finish\<close>: \<open>Inl\<close> when the directory or the file cannot be made, else the file and the error
  of writing it; either error is only logged.
\<close>

definition finish ::
    "(bytes \<Rightarrow> bytes) \<Rightarrow> archive_env \<Rightarrow> int \<Rightarrow> int \<Rightarrow> go_error option \<Rightarrow> spool_rd \<Rightarrow> reqRecorder \<Rightarrow> downstream
     \<Rightarrow> go_error + downstream \<times> go_error option" where
  "finish sha E closedAt finished openErr rd rec0 file =
     (let rec = finishCurrentAttempt sha closedAt rec0
      in case openErr of Some e \<Rightarrow> Inl e | None \<Rightarrow> Inr (writeArchive rd (archive sha E finished rec) file))"

text \<open>\<open>cleanup\<close>, deferred by \<open>finish\<close>: the unlinked files of the captures are closed.\<close>

definition capture_cleanup :: "bodyCapture \<Rightarrow> bodyCapture" where
  "capture_cleanup c = c\<lparr>bc_file := None\<rparr>"

definition recorder_cleanup :: "reqRecorder \<Rightarrow> reqRecorder" where
  "recorder_cleanup rec =
     rec\<lparr>rc_attempts := map (\<lambda>a. a\<lparr>at_capture := map_option capture_cleanup (at_capture a)\<rparr>) (rc_attempts rec)\<rparr>"

section \<open>Histories of a recorder\<close>

text \<open>The calls a request makes on its recorder, in any order.\<close>

datatype rec_op =
    BeginAttempt int bytes bytes int
  | RespWriter
  | RespWrite spool_io bytes
  | ResponseReadError "go_error option"
  | ResponseHeaders int header_entries
  | AttemptFailure failure bytes
  | AttemptResult bytes
  | AttemptRetry bytes int
  | AttemptStats captureStats
  | DeliveredAnswer bytes "captureStats option"
  | ProxyRetries int
  | ModelSwap bytes bytes bytes
  | Outcome bytes int int bytes
  | FinishCurrent int

fun rec_step :: "(bytes \<Rightarrow> bytes) \<Rightarrow> (int \<Rightarrow> bytes) \<Rightarrow> config \<Rightarrow> rec_op \<Rightarrow> reqRecorder \<Rightarrow> reqRecorder" where
  "rec_step sha fmt cfg (BeginAttempt now body reqWho n) = beginAttempt sha fmt now body reqWho n"
| "rec_step sha fmt cfg RespWriter = respWriter"
| "rec_step sha fmt cfg (RespWrite io p) = respWrite cfg io p"
| "rec_step sha fmt cfg (ResponseReadError e) = noteResponseReadError e"
| "rec_step sha fmt cfg (ResponseHeaders status h) = noteAttemptResponseHeaders status h"
| "rec_step sha fmt cfg (AttemptFailure f result) = noteAttemptFailure f result"
| "rec_step sha fmt cfg (AttemptResult result) = noteAttemptResult result"
| "rec_step sha fmt cfg (AttemptRetry result wait) = noteAttemptRetry result wait"
| "rec_step sha fmt cfg (AttemptStats st) = noteAttemptStats st"
| "rec_step sha fmt cfg (DeliveredAnswer reqWho st) = noteDeliveredAnswer reqWho st"
| "rec_step sha fmt cfg (ProxyRetries n) = noteProxyRetries n"
| "rec_step sha fmt cfg (ModelSwap reason from to) = noteModelSwap reason from to"
| "rec_step sha fmt cfg (Outcome outcome orig surfaced code) = note_outcome outcome orig surfaced code"
| "rec_step sha fmt cfg (FinishCurrent now) = finishCurrentAttempt sha now"

definition rec_run :: "(bytes \<Rightarrow> bytes) \<Rightarrow> (int \<Rightarrow> bytes) \<Rightarrow> config \<Rightarrow> rec_op list \<Rightarrow> reqRecorder \<Rightarrow> reqRecorder" where
  "rec_run sha fmt cfg ops rec = fold (rec_step sha fmt cfg) ops rec"

section \<open>Every body reference resolves\<close>

text \<open>The reference names the client's body or an attempt's, and these are the bytes \<open>p\<close>.\<close>

definition refers :: "(bytes \<Rightarrow> bytes) \<Rightarrow> bytes \<Rightarrow> archiveAttempt list \<Rightarrow> bytes \<Rightarrow> bytes \<Rightarrow> bool" where
  "refers sha body ats ref p =
     (ref = client_body_ref \<and> p = body \<or>
      (\<exists>i < length ats. ref = attempt_body_ref (Suc i) \<and> at_requestBody (ats ! i) = Some (makeArchiveBody sha p)))"

definition attempt_key :: "archiveAttempt \<Rightarrow> bytes" where
  "attempt_key a = append_int (at_bodySize a) @ '':'' @ at_bodySHA a"

definition rec_inv :: "(bytes \<Rightarrow> bytes) \<Rightarrow> reqRecorder \<Rightarrow> bool" where
  "rec_inv sha rec =
     (rc_cur rec = (if rc_attempts rec = [] then None else Some (length (rc_attempts rec) - 1)) \<and>
      map at_index (rc_attempts rec) = map int [1..<Suc (length (rc_attempts rec))] \<and>
      (\<forall>key ref. rc_bodyRefs rec key = Some ref \<longrightarrow>
         (\<exists>p. key = bodyKey sha p \<and> refers sha (rc_reqBody rec) (rc_attempts rec) ref p)) \<and>
      list_all (\<lambda>a. rc_bodyRefs rec (attempt_key a) = Some (at_bodyRef a)) (rc_attempts rec))"

text \<open>What identifies an attempt and its request body; every operation through the pointer keeps it.\<close>

definition at_request :: "archiveAttempt \<Rightarrow> int \<times> bytes \<times> int \<times> bytes \<times> archiveBody option" where
  "at_request a = (at_index a, at_bodyRef a, at_bodySize a, at_bodySHA a, at_requestBody a)"

lemma rec_inv_cong:
  assumes "map at_request (rc_attempts rec') = map at_request (rc_attempts rec)"
    and "rc_cur rec' = rc_cur rec" "rc_bodyRefs rec' = rc_bodyRefs rec" "rc_reqBody rec' = rc_reqBody rec"
  shows "rec_inv sha rec' = rec_inv sha rec"
proof -
  have l: "length (rc_attempts rec') = length (rc_attempts rec)" using assms(1) by (metis length_map)
  have i: "map at_index (rc_attempts rec') = map at_index (rc_attempts rec)"
    using arg_cong [OF assms(1), of "map fst"] by (simp add: at_request_def comp_def)
  have n: "at_request (rc_attempts rec' ! i) = at_request (rc_attempts rec ! i)" if "i < length (rc_attempts rec)" for i
    using that l arg_cong [OF assms(1), of "\<lambda>xs. xs ! i"] by simp
  have r: "refers sha b (rc_attempts rec') ref p = refers sha b (rc_attempts rec) ref p" for b ref p
    using n l by (auto simp: refers_def at_request_def)
  have k: "list_all (\<lambda>a. m (attempt_key a) = Some (at_bodyRef a)) (rc_attempts rec') =
      list_all (\<lambda>a. m (attempt_key a) = Some (at_bodyRef a)) (rc_attempts rec)" for m
    using n l by (auto simp: list_all_length at_request_def attempt_key_def)
  have e: "rc_attempts rec' = [] \<longleftrightarrow> rc_attempts rec = []" using l by auto
  show ?thesis using l i r k e assms(2-4) by (simp add: rec_inv_def)
qed

lemma update_cur_fields [simp]:
  "rc_cur (update_cur f rec) = rc_cur rec" "rc_bodyRefs (update_cur f rec) = rc_bodyRefs rec"
  "rc_reqBody (update_cur f rec) = rc_reqBody rec" "rc_path (update_cur f rec) = rc_path rec"
  "rc_stats (update_cur f rec) = rc_stats rec" "length (rc_attempts (update_cur f rec)) = length (rc_attempts rec)"
  by (simp_all add: update_cur_def split: option.split)

lemma update_cur_request:
  assumes "\<And>a. at_request (f a) = at_request a"
  shows "map at_request (rc_attempts (update_cur f rec)) = map at_request (rc_attempts rec)"
  by (auto simp: update_cur_def assms map_update intro: list_update_id split: option.split)
    (metis assms list_update_beyond list_update_id map_update not_le nth_map length_map)

lemma update_cur_inv:
  assumes "\<And>a. at_request (f a) = at_request a"
  shows "rec_inv sha (update_cur f rec) = rec_inv sha rec"
  by (rule rec_inv_cong [OF update_cur_request [of f]]) (simp_all add: assms)

lemma ensure_request [simp]: "at_request (ensureAttemptResponse status h a) = at_request a"
  by (simp add: ensureAttemptResponse_def at_request_def Let_def)

lemma finish_attempt_request [simp]: "at_request (finish_attempt sha now a) = at_request a"
  by (simp add: finish_attempt_def at_request_def Let_def split: option.split)

lemma rec_inv_simple [simp]:
  "rec_inv sha (rec\<lparr>rc_stats := st\<rparr>) = rec_inv sha rec" "rec_inv sha (rec\<lparr>rc_outcomeWho := ow\<rparr>) = rec_inv sha rec"
  "rec_inv sha (rec\<lparr>rc_proxyRetries := n\<rparr>) = rec_inv sha rec" "rec_inv sha (rec\<lparr>rc_outcome := oc\<rparr>) = rec_inv sha rec"
  "rec_inv sha (rec\<lparr>rc_origStatus := n\<rparr>) = rec_inv sha rec" "rec_inv sha (rec\<lparr>rc_status := n\<rparr>) = rec_inv sha rec"
  "rec_inv sha (rec\<lparr>rc_code := c\<rparr>) = rec_inv sha rec"
  by (simp_all add: rec_inv_def)

lemma append_int_digits: "0 \<le> n \<Longrightarrow> list_all is_digit (append_int n) \<and> digits_val 0 (append_int n) = n"
  using itoa_loop_spec [of n "[]"] by (auto simp: append_int_def is_digit_def digit_val_def)

lemma append_int_negative: "n < 0 \<Longrightarrow> \<exists>s. append_int n = CHR ''-'' # s \<and> list_all is_digit s \<and> digits_val 0 s = - n"
  using itoa_loop_spec [of "- n" "[]"] by (auto simp: append_int_def)

lemma append_int_inj:
  assumes "append_int a = append_int b"
  shows "a = b"
proof -
  have minus: "\<not> list_all is_digit (CHR ''-'' # s)" for s by (simp add: is_digit_def)
  consider "0 \<le> a" "0 \<le> b" | "0 \<le> a" "b < 0" | "a < 0" "0 \<le> b" | "a < 0" "b < 0" by linarith
  then show ?thesis
  proof cases
    case 1 then show ?thesis using append_int_digits assms by metis
  next
    case 2 then show ?thesis using append_int_digits append_int_negative minus assms by metis
  next
    case 3 then show ?thesis using append_int_digits append_int_negative minus assms by metis
  next
    case 4 then show ?thesis using append_int_negative assms by (metis list.inject minus_equation_iff)
  qed
qed

lemma append_int_no_colon: "CHR '':'' \<notin> set (append_int n)"
proof -
  have d: "\<not> is_digit (CHR '':'')" by (simp add: is_digit_def)
  show ?thesis
    using append_int_digits [of n] append_int_negative [of n] d by (cases "0 \<le> n") (auto simp: list_all_iff)
qed

lemma key_parts:
  assumes "append_int a @ '':'' @ s = append_int b @ '':'' @ t"
  shows "a = b \<and> s = t"
proof -
  have cut: "takeWhile (\<lambda>c. c \<noteq> CHR '':'') (append_int n @ '':'' @ u) = append_int n" for n u
  proof -
    have "takeWhile (\<lambda>c. c \<noteq> CHR '':'') (append_int n) = append_int n"
      using append_int_no_colon [of n] by (auto simp: takeWhile_eq_all_conv)
    then show ?thesis using append_int_no_colon [of n] by (subst takeWhile_append2) (auto simp del: takeWhile_eq_all_conv)
  qed
  have "append_int a = append_int b"
    using arg_cong [OF assms, of "takeWhile (\<lambda>c. c \<noteq> CHR '':'')"] unfolding cut .
  with append_int_inj assms show ?thesis by auto
qed

lemma refers_mono: "refers sha body ats ref p \<Longrightarrow> refers sha body (ats @ [a]) ref p"
  by (auto simp: refers_def nth_append)

lemma refs_not_empty: "refers sha body ats ref p \<Longrightarrow> ref \<noteq> []"
  by (auto simp: refers_def client_body_ref_def attempt_body_ref_def)

lemma rec_inv_new: "rec_inv sha (newReqRecorder sha rid start r body)"
  by (auto simp: rec_inv_def newReqRecorder_def Let_def refers_def)

lemma finishCurrent_inv [simp]: "rec_inv sha (finishCurrentAttempt sha now rec) = rec_inv sha rec"
  by (simp add: finishCurrentAttempt_def update_cur_inv)

lemma beginAttempt_inv:
  assumes "rec_inv sha rec0"
  shows "rec_inv sha (beginAttempt sha fmt now body reqWho n rec0)"
proof -
  define rec1 where "rec1 = (finishCurrentAttempt sha now rec0)\<lparr>rc_stats := None, rc_outcomeWho := reqWho\<rparr>"
  define idx where "idx = length (rc_attempts rec1) + 1"
  define key where "key = bodyKey sha body"
  obtain ref archived rec2 where b: "bodyReference sha body (attempt_body_ref idx) rec1 = (ref, archived, rec2)"
    by (metis prod_cases3)
  have i1: "rec_inv sha rec1" using assms by (simp add: rec1_def)
  have f: "rc_attempts rec2 = rc_attempts rec1" "rc_reqBody rec2 = rc_reqBody rec1"
    using b by (auto simp: bodyReference_def Let_def split: if_splits)
  define a where "a = \<lparr>at_index = int idx, at_startedAt = fmt now, at_durationMS = 0, at_who = reqWho,
      at_model = requestModelOf (rc_path rec2) body, at_proxyRetry = n, at_bodyRef = ref,
      at_bodySize = int (length body), at_bodySHA = hex_encode (sha body), at_requestBody = archived,
      at_response = None, at_failure = None, at_stats = None, at_modelSwap = None, at_result = [],
      at_retryWaitMS = 0, at_startedNs = now, at_capture = None\<rparr>"
  have out: "beginAttempt sha fmt now body reqWho n rec0 =
      rec2\<lparr>rc_attempts := rc_attempts rec1 @ [a], rc_cur := Some (length (rc_attempts rec1))\<rparr>"
    using b f by (simp add: beginAttempt_def Let_def rec1_def [symmetric] idx_def a_def)
  have ak: "attempt_key a = key" by (simp add: attempt_key_def a_def key_def bodyKey_def)
  have refs: "rc_bodyRefs rec2 k = Some r \<Longrightarrow>
      \<exists>p. k = bodyKey sha p \<and> refers sha (rc_reqBody rec1) (rc_attempts rec1 @ [a]) r p" for k r
  proof (cases "archived = None")
    case True
    then have "rc_bodyRefs rec2 = rc_bodyRefs rec1" using b by (auto simp: bodyReference_def Let_def split: if_splits)
    then show "rc_bodyRefs rec2 k = Some r \<Longrightarrow> ?thesis" using i1 refers_mono by (fastforce simp: rec_inv_def)
  next
    case False
    then have new: "rc_bodyRefs rec2 = (rc_bodyRefs rec1)(key \<mapsto> attempt_body_ref idx)"
        "archived = Some (makeArchiveBody sha body)"
      using b by (auto simp: bodyReference_def Let_def key_def split: if_splits)
    have "refers sha (rc_reqBody rec1) (rc_attempts rec1 @ [a]) (attempt_body_ref idx) body"
      by (auto simp: refers_def idx_def a_def new(2) nth_append intro!: disjI2 exI [of _ "length (rc_attempts rec1)"])
    then show "rc_bodyRefs rec2 k = Some r \<Longrightarrow> ?thesis"
      using i1 refers_mono new(1) by (fastforce simp: rec_inv_def key_def split: if_splits)
  qed
  have ka: "rc_bodyRefs rec2 key = Some ref"
    using b by (auto simp: bodyReference_def Let_def key_def split: if_splits option.splits)
  have ko: "rc_bodyRefs rec2 (attempt_key x) = Some (at_bodyRef x)" if "x \<in> set (rc_attempts rec1)" for x
  proof -
    have x: "rc_bodyRefs rec1 (attempt_key x) = Some (at_bodyRef x)" using i1 that by (simp add: rec_inv_def list_all_iff)
    then have "at_bodyRef x \<noteq> []" using i1 refs_not_empty by (fastforce simp: rec_inv_def)
    with x b show ?thesis by (auto simp: bodyReference_def Let_def split: if_splits)
  qed
  show ?thesis
    using i1 refs ka ko ak unfolding out
    by (auto simp: rec_inv_def f list_all_iff idx_def a_def)
qed

lemma pointer_request:
  "at_request (a\<lparr>at_result := r\<rparr>) = at_request a" "at_request (a\<lparr>at_failure := f\<rparr>) = at_request a"
  "at_request (a\<lparr>at_stats := s\<rparr>) = at_request a" "at_request (a\<lparr>at_modelSwap := m\<rparr>) = at_request a"
  "at_request (a\<lparr>at_retryWaitMS := w\<rparr>) = at_request a" "at_request (a\<lparr>at_capture := c\<rparr>) = at_request a"
  by (simp_all add: at_request_def)

lemmas recorder_ops = respWriter_def respWrite_def noteResponseReadError_def noteAttemptResponseHeaders_def
  noteAttemptFailure_def noteAttemptResult_def noteAttemptRetry_def noteAttemptStats_def noteDeliveredAnswer_def
  noteProxyRetries_def noteModelSwap_def note_outcome_def

lemma rec_step_inv: "rec_inv sha rec \<Longrightarrow> rec_inv sha (rec_step sha fmt cfg op rec)"
  by (cases op) (simp_all add: beginAttempt_inv recorder_ops update_cur_inv pointer_request Let_def split: option.split)

lemma rec_run_inv: "rec_inv sha rec \<Longrightarrow> rec_inv sha (rec_run sha fmt cfg ops rec)"
  unfolding rec_run_def by (induction ops arbitrary: rec) (simp_all add: rec_step_inv)

lemma rec_run_body: "rc_reqBody (rec_run sha fmt cfg ops rec) = rc_reqBody rec"
proof -
  have "rc_reqBody (rec_step sha fmt cfg op q) = rc_reqBody q" for op q
    by (cases op) (auto simp: beginAttempt_def bodyReference_def recorder_ops finishCurrentAttempt_def Let_def
        split: option.split prod.split)
  then show ?thesis unfolding rec_run_def by (induction ops arbitrary: rec) simp_all
qed

lemma attempt_refers:
  assumes "rec = rec_run sha fmt cfg ops (newReqRecorder sha rid start r body)" "a \<in> set (rc_attempts rec)"
  shows "\<exists>p. refers sha body (rc_attempts rec) (at_bodyRef a) p \<and> int (length p) = at_bodySize a \<and> hex_encode (sha p) = at_bodySHA a"
proof -
  have i: "rec_inv sha rec" unfolding assms(1) by (rule rec_run_inv [OF rec_inv_new])
  have b: "rc_reqBody rec = body" unfolding assms(1) by (simp add: rec_run_body newReqRecorder_def Let_def)
  have "rc_bodyRefs rec (attempt_key a) = Some (at_bodyRef a)" using i assms(2) by (simp add: rec_inv_def list_all_iff)
  with i obtain p where p: "attempt_key a = bodyKey sha p" "refers sha body (rc_attempts rec) (at_bodyRef a) p"
    by (auto simp: rec_inv_def b)
  from key_parts [OF p(1) [unfolded attempt_key_def bodyKey_def]] p(2) show ?thesis by auto
qed

text \<open>
  C28. Whatever the order of the calls, an archive is well formed: its attempts are numbered
  1, 2, ... in the order they were begun, calls are attributed to the last one, and the body
  reference of each attempt names a body that is in the archive, of exactly the size and
  digest the attempt records.
\<close>

theorem recorder_well_formed:
  assumes "rec = rec_run sha fmt cfg ops (newReqRecorder sha rid start r body)" "ats = rc_attempts rec"
  shows "map at_index ats = map int [1..<Suc (length ats)] \<and>
    rc_cur rec = (if ats = [] then None else Some (length ats - 1)) \<and>
    list_all (\<lambda>a. \<exists>p. refers sha body ats (at_bodyRef a) p \<and> int (length p) = at_bodySize a \<and>
                      hex_encode (sha p) = at_bodySHA a) ats"
proof -
  have i: "rec_inv sha rec" unfolding assms(1) by (rule rec_run_inv [OF rec_inv_new])
  from attempt_refers [OF assms(1)] i show ?thesis by (simp add: rec_inv_def assms(2) list_all_iff)
qed

section \<open>What the archive restores\<close>

text \<open>
  C13. Whatever calls a request makes on its recorder, if its archive file is written without
  an error then the file parses as JSON, as the archive of the recorder, and the body member
  of its client request decodes to exactly the request body the recorder was made with,
  whatever its bytes.
\<close>

theorem archive_restores:
  assumes "rec = rec_run sha fmt cfg ops (newReqRecorder sha rid start r body)" "readable rd"
    and "finish sha E closedAt finished None rd rec (w_new\<lparr>ds_limit := limit\<rparr>) = Inr (w, None)"
  shows "json_parse (ds_body w) = Some (archive_json (archive sha E finished (finishCurrentAttempt sha closedAt rec))) \<and>
    archived_request (ds_body w) = Some body"
proof -
  let ?rec = "finishCurrentAttempt sha closedAt rec"
  have "writeArchive rd (archive sha E finished ?rec) (w_new\<lparr>ds_limit := limit\<rparr>) = (w, None)"
    using assms(3) by (simp add: finish_def Let_def)
  note a = archive_file_reads [OF assms(2) this]
  have "rc_reqBody ?rec = body"
    by (simp add: finishCurrentAttempt_def assms(1) rec_run_body newReqRecorder_def Let_def)
  then have "body_contents (cr_body (ra_client (archive sha E finished ?rec))) = body"
    by (simp add: archive_def makeArchiveBody_def body_contents_def split: prod.split)
  with a show ?thesis by simp
qed

section \<open>Secrets do not reach the file\<close>

text \<open>
  Two requests that differ only in secrets: in the values of secret headers beyond the hint
  the mask shows, and in the values of secret query parameters. The same for the headers of
  the upstream's replies.
\<close>

definition same_uri :: "client \<Rightarrow> client \<Rightarrow> bool" where
  "same_uri c c' =
     (cl_rawURI c = cl_rawURI c' \<and> cl_rawQuery c = cl_rawQuery c' \<or>
      same_query (cl_rawQuery c) (cl_rawQuery c') \<and>
      (\<exists>b. CHR ''?'' \<notin> set b \<and> cl_rawURI c = b @ ''?'' @ cl_rawQuery c \<and> cl_rawURI c' = b @ ''?'' @ cl_rawQuery c'))"

definition same_client :: "client \<Rightarrow> client \<Rightarrow> bool" where
  "same_client c c' =
     (list_all2 same_entry (cl_header c) (cl_header c') \<and> same_uri c c' \<and>
      c' = c\<lparr>cl_header := cl_header c', cl_rawQuery := cl_rawQuery c', cl_rawURI := cl_rawURI c'\<rparr>)"

fun same_op :: "rec_op \<Rightarrow> rec_op \<Rightarrow> bool" where
  "same_op (ResponseHeaders st h) (ResponseHeaders st' h') = (st = st' \<and> list_all2 same_entry h h')"
| "same_op op op' = (op = op')"

lemma same_op_step: "same_op op op' \<Longrightarrow> rec_step sha fmt cfg op = rec_step sha fmt cfg op'"
proof (cases "(op, op')" rule: same_op.cases)
  case (1 st h st' h')
  assume "same_op op op'"
  with 1 have "maskHeaders h = maskHeaders h'" "st = st'"
    by (auto simp: maskHeaders_def maskHeadersWithNames_def mask_entries_hint)
  moreover from this have "ensureAttemptResponse st (Some h) = ensureAttemptResponse st (Some h')"
    by (intro ext) (simp add: ensureAttemptResponse_def)
  ultimately show ?thesis using 1 by (intro ext) (simp only: noteAttemptResponseHeaders_def rec_step.simps prod.inject)
qed auto

lemma same_ops_run: "list_all2 same_op ops ops' \<Longrightarrow> rec_run sha fmt cfg ops rec = rec_run sha fmt cfg ops' rec"
  unfolding rec_run_def
  by (induction arbitrary: rec rule: list_all2_induct) (simp_all add: same_op_step)

lemma update_cur_commutes:
  "update_cur f (rec\<lparr>rc_reqHeaders := h, rc_query := q\<rparr>) = (update_cur f rec)\<lparr>rc_reqHeaders := h, rc_query := q\<rparr>"
  by (simp add: update_cur_def split: option.split)

lemma rec_step_commutes:
  "rec_step sha fmt cfg op (rec\<lparr>rc_reqHeaders := h, rc_query := q\<rparr>) =
     (rec_step sha fmt cfg op rec)\<lparr>rc_reqHeaders := h, rc_query := q\<rparr>"
proof -
  note ops = respWriter_def respWrite_def noteResponseReadError_def noteAttemptResponseHeaders_def
    noteAttemptFailure_def noteAttemptResult_def noteAttemptRetry_def noteDeliveredAnswer_def
    noteProxyRetries_def noteModelSwap_def note_outcome_def finishCurrentAttempt_def update_cur_commutes
  have stats: "noteAttemptStats st (rec\<lparr>rc_reqHeaders := h, rc_query := q\<rparr>) =
      (noteAttemptStats st rec)\<lparr>rc_reqHeaders := h, rc_query := q\<rparr>" for st
    using update_cur_commutes [where rec = "rec\<lparr>rc_stats := Some st\<rparr>"]
    by (auto simp: noteAttemptStats_def noteResponseReadError_def update_cur_def split: option.split)
  have begin_attempt: "beginAttempt sha fmt now body w n (rec\<lparr>rc_reqHeaders := h, rc_query := q\<rparr>) =
      (beginAttempt sha fmt now body w n rec)\<lparr>rc_reqHeaders := h, rc_query := q\<rparr>" for now body w n
    by (auto simp: beginAttempt_def bodyReference_def Let_def finishCurrentAttempt_def update_cur_commutes split: prod.split)
  show ?thesis by (cases op) (simp_all add: ops stats begin_attempt split: option.split)
qed

lemma rec_run_commutes:
  "rec_run sha fmt cfg ops (rec\<lparr>rc_reqHeaders := h, rc_query := q\<rparr>) =
     (rec_run sha fmt cfg ops rec)\<lparr>rc_reqHeaders := h, rc_query := q\<rparr>"
  unfolding rec_run_def by (induction ops arbitrary: rec) (simp_all add: rec_step_commutes)

lemma same_entry_lookup:
  "list_all2 same_entry h h' \<Longrightarrow> \<not> secretHeader k \<Longrightarrow> map_of h k = map_of h' k"
  by (induction rule: list_all2_induct) (auto simp: same_entry_def split: if_splits)

lemma who_same: "list_all2 same_entry h h' \<Longrightarrow> who path (map_of h) body = who path (map_of h') body"
proof -
  assume h: "list_all2 same_entry h h'"
  have k: "\<not> secretHeader (canonical_key ''X-Claude-Code-Parent-Agent-Id'')" "\<not> secretHeader (canonical_key ''User-Agent'')"
    by code_simp+
  show ?thesis
    using same_entry_lookup [OF h k(1)] same_entry_lookup [OF h k(2)]
    by (simp add: who_def agentKindFull_def agentKind_def header_get_def header_values_def)
qed

lemma split_same: "same_query q q \<longleftrightarrow> True"
  by (simp add: same_query_def same_part_def list_all2_same)

lemma same_client_recorder:
  assumes "same_client c c'"
  shows "newReqRecorder sha rid start c' body =
    (newReqRecorder sha rid start c body)\<lparr>rc_reqHeaders := cl_header c', rc_query := cl_rawQuery c'\<rparr>"
proof -
  obtain h q u where c': "c' = c\<lparr>cl_header := h, cl_rawQuery := q, cl_rawURI := u\<rparr>"
    using assms by (auto simp: same_client_def)
  have h: "list_all2 same_entry (cl_header c) h" and su: "same_uri c c'" using assms c' by (simp_all add: same_client_def)
  have "redactedRequestURI (cl_rawURI c) (cl_path c) (cl_rawQuery c) = redactedRequestURI u (cl_path c) q"
    using su redacted_uri_same [of "cl_rawQuery c" q] by (auto simp: same_uri_def c')
  with who_same [OF h] show ?thesis by (simp add: newReqRecorder_def Let_def c')
qed

text \<open>
  C6. The archive does not depend on a secret: two requests that differ only in API secrets,
  and whose upstream replies differ only in API secrets, leave byte for byte the same file,
  through every attempt, retry and model swap. What it shows of a secret header is at most
  its last four bytes.
\<close>

theorem archive_hides_secrets:
  assumes "same_client c c'" "list_all2 same_op ops ops'"
  shows "finish sha E t t' openErr rd (rec_run sha fmt cfg ops (newReqRecorder sha rid start c body)) file =
    finish sha E t t' openErr rd (rec_run sha fmt cfg ops' (newReqRecorder sha rid start c' body)) file"
proof -
  define rec where "rec = rec_run sha fmt cfg ops (newReqRecorder sha rid start c body)"
  have r: "rec_run sha fmt cfg ops' (newReqRecorder sha rid start c' body) =
      rec\<lparr>rc_reqHeaders := cl_header c', rc_query := cl_rawQuery c'\<rparr>"
    by (simp add: same_client_recorder [OF assms(1)] rec_run_commutes same_ops_run [OF assms(2)] rec_def)
  have hq: "rc_reqHeaders rec = cl_header c \<and> rc_query rec = cl_rawQuery c"
  proof -
    define n where "n = newReqRecorder sha rid start c body"
    have "n = n\<lparr>rc_reqHeaders := cl_header c, rc_query := cl_rawQuery c\<rparr>" by (simp add: n_def newReqRecorder_def Let_def)
    then have "rec = (rec_run sha fmt cfg ops n)\<lparr>rc_reqHeaders := cl_header c, rc_query := cl_rawQuery c\<rparr>"
      by (metis rec_def n_def rec_run_commutes)
    then show ?thesis by (metis reqRecorder.select_convs(13,6) reqRecorder.surjective reqRecorder.update_convs(13,6))
  qed
  have q: "same_query (cl_rawQuery c) (cl_rawQuery c')"
    using assms(1) split_same by (auto simp: same_client_def same_uri_def)
  have "archive sha E t' (finishCurrentAttempt sha t rec) =
      archive sha E t' (finishCurrentAttempt sha t (rec\<lparr>rc_reqHeaders := cl_header c', rc_query := cl_rawQuery c'\<rparr>))"
    using assms(1) hq redacted_upstream_same [OF q] redactQuery_same(1) [OF q]
      mask_entries_hint [of "cl_header c" "cl_header c'"]
    by (simp add: archive_def finishCurrentAttempt_def update_cur_commutes displayWho_def modelSwaps_def
        same_client_def maskHeadersWithNames_def)
      (simp add: update_cur_def split: option.split)
  then show ?thesis by (simp add: finish_def Let_def r rec_def [symmetric] split: option.split)
qed

section \<open>Examples\<close>

definition example_client :: "bytes \<Rightarrow> client" where
  "example_client key =
     \<lparr>cl_method = ''POST'', cl_rawURI = ''/v1/messages'', cl_path = ''/v1/messages'', cl_rawQuery = [], cl_host = ''h'',
      cl_proto = ''HTTP/1.1'', cl_contentLength = 2, cl_transferEncoding = [],
      cl_header = [(''X-Api-Key'', [key]), (''Accept'', [''*/*''])]\<rparr>"

definition example_ops :: "rec_op list" where
  "example_ops = [BeginAttempt 0 ''{}'' ''?/main'' 0, RespWriter, RespWrite io_fine ''x'',
     BeginAttempt 5 ''[]'' ''?/main'' 1, ResponseHeaders 200 [(''Api-Key'', [''topsecret-key''])], Outcome ''OK'' 200 200 []]"

definition example_recorder :: reqRecorder where
  "example_recorder = rec_run id (\<lambda>t. []) example_config example_ops (newReqRecorder id ''id'' 0 (example_client ''k'') ''{}'')"

theorem recorder_well_formed_witness: "map at_index (rc_attempts example_recorder) = [1, 2]"
proof -
  have "length (rc_attempts example_recorder) = 2" by code_simp
  with recorder_well_formed [OF example_recorder_def refl] show ?thesis by (simp add: upt_rec)
qed

definition example_env_archive :: archive_env where
  "example_env_archive = \<lparr>en_fmt = (\<lambda>t. []), en_build = \<lparr>bd_version = [], bd_commit = [], bd_buildDate = [], bd_dirty = [],
     bd_settings = None\<rparr>, en_parse = (\<lambda>u. None), en_upstream = []\<rparr>"

theorem archive_restores_witness:
  "case finish id example_env_archive 8 9 None rd_fine example_recorder (w_new\<lparr>ds_limit := None\<rparr>) of
     Inl e \<Rightarrow> False
   | Inr (w, e) \<Rightarrow> e = None \<and> archived_request (ds_body w) = Some ''{}''"
proof -
  have r: "readable rd_fine" by (simp add: readable_def rd_fine_def)
  obtain w where w: "finish id example_env_archive 8 9 None rd_fine example_recorder (w_new\<lparr>ds_limit := None\<rparr>) = Inr (w, None)"
    by (simp add: finish_def Let_def archive_streams_lemma [OF r] w_write_def w_new_def)
  from archive_restores [OF example_recorder_def r w] w show ?thesis by simp
qed

theorem archive_hides_secrets_witness:
  "finish id example_env_archive 1 2 None rd_fine
      (rec_run id (\<lambda>t. []) example_config example_ops (newReqRecorder id ''id'' 0 (example_client ''first-secret'') ''{}'')) w_new =
   finish id example_env_archive 1 2 None rd_fine
      (rec_run id (\<lambda>t. []) example_config example_ops (newReqRecorder id ''id'' 0 (example_client ''other-secret'') ''{}'')) w_new"
proof (rule archive_hides_secrets)
  have "list_all2 same_entry (cl_header (example_client ''first-secret'')) (cl_header (example_client ''other-secret''))"
    by code_simp
  then show "same_client (example_client ''first-secret'') (example_client ''other-secret'')"
    by (simp add: same_client_def same_uri_def) (simp add: example_client_def)
  have e: "same_entry x x" for x by (simp add: same_entry_def same_hint_def list_all2_same)
  have h: "list_all2 same_entry h h" for h by (simp add: list_all2_same e)
  show "list_all2 same_op example_ops example_ops" by (simp add: example_ops_def e)
qed

end
