(* ===== verification/Recorded.thy ===== *)
theory Recorded
  imports Failing Recorder
begin

text \<open>
  The handler with its request recorder: the calls on the recorder that \<open>handle\<close> and what it
  calls make (main.go), in the order they make them, beside the handler they observe. The
  recorder never changes what the handler does, so a call list is a function of the same
  request, rounds and states.
\<close>

section \<open>What the recorder is told\<close>

text \<open>
  The labels of an attempt, and the calls so far. \<open>re_now\<close> and \<open>re_io\<close> give the time and the
  file operations of the call of that number, \<open>re_entries\<close> lists a header in the order its
  names are stored, and \<open>re_who\<close> labels a request with a given body.
\<close>

record recording =
  re_now :: "nat \<Rightarrow> int"
  re_io :: "nat \<Rightarrow> spool_io"
  re_entries :: "header \<Rightarrow> header_entries"
  re_who :: "bytes \<Rightarrow> bytes"

record trail =
  tr_who :: bytes
  tr_chain :: bytes
  tr_ops :: "rec_op list"

definition say :: "rec_op list \<Rightarrow> trail \<Rightarrow> trail" where
  "say ops a = a\<lparr>tr_ops := tr_ops a @ ops\<rparr>"

text \<open>The writes to the archive's sink of one body.\<close>

fun tee :: "recording \<Rightarrow> bytes list \<Rightarrow> trail \<Rightarrow> trail" where
  "tee R [] a = a"
| "tee R (c # cs) a = tee R cs (say [RespWrite (re_io R (length (tr_ops a))) c] a)"

definition begin_attempt :: "recording \<Rightarrow> hstate \<Rightarrow> trail \<Rightarrow> trail" where
  "begin_attempt R s a = say [BeginAttempt (re_now R (length (tr_ops a))) (hs_body s) (tr_who a) (hs_proxyRetries s)] a"

section \<open>Decisions\<close>

text \<open>\<open>tryLocalRetry\<close> notes a retry it is going to wait for, even when the wait is cut short.\<close>

definition note_local :: "handler \<Rightarrow> clock \<Rightarrow> failure \<Rightarrow> hstate \<Rightarrow> trail \<Rightarrow> trail" where
  "note_local H ck f s a =
     (if fallbackActive s \<or> txLocalRetries (hd_cfg H) \<le> 0 \<or> txLocalRetries (hd_cfg H) \<le> hs_proxyRetries s
         \<or> \<not> f_transient f \<or> \<not> budgetLeft H
      then a
      else let wait = localRetryDelay (hd_cfg H) (f_retryAfter f) (hs_proxyRetries s) in
        if \<not> canWait ck wait then a else say [AttemptRetry ''local_retry'' wait] a)"

text \<open>\<open>swapToFallback\<close> notes the swap and relabels the request.\<close>

definition note_swap :: "recording \<Rightarrow> handler \<Rightarrow> clock \<Rightarrow> bytes \<Rightarrow> hstate \<Rightarrow> trail \<Rightarrow> trail" where
  "note_swap R H ck reason s a =
     (case swapToFallback H ck s of
        (False, _) \<Rightarrow> a
      | (True, s1) \<Rightarrow>
          let target = fst (nextFallback H (hs_pending s)) in
          (say [ModelSwap reason (modelOf (hs_body s)) target] a)
            \<lparr>tr_who := tr_chain a @ ''~>'' @ re_who R (hs_body s1), tr_chain := tr_chain a @ ''~>'' @ target\<rparr>)"

definition note_advance :: "recording \<Rightarrow> handler \<Rightarrow> clock \<Rightarrow> failure \<Rightarrow> hstate \<Rightarrow> trail \<Rightarrow> trail" where
  "note_advance R H ck f s a =
     (if fallbackActive s \<and> claudeFallbackAction f = fallbackNext then note_swap R H ck (f_code f) s a else a)"

definition note_legacy :: "trail \<Rightarrow> trail" where
  "note_legacy a = say [AttemptRetry ''legacy_fast_retry'' legacy_wait] a"

section \<open>One attempt\<close>

definition note_transport_error :: "recording \<Rightarrow> handler \<Rightarrow> round \<Rightarrow> go_error \<Rightarrow> hstate \<Rightarrow> trail \<Rightarrow> trail" where
  "note_transport_error R H rn e s0 a0 =
     (let s = s0\<lparr>hs_last := classifyTransport e (rn_ctx rn)\<rparr>;
          a = note_local H (rn_local rn) (hs_last s) s (say [AttemptFailure (hs_last s) ''transport_error''] a0)
      in case tryLocalRetry H (rn_local rn) (hs_last s) s of
           (True, s1) \<Rightarrow> a
         | (False, s1) \<Rightarrow>
             if (fallbackActive s1 \<or> txLocalRetries (hd_cfg H) = 0) \<and> legacy_ready H rn s1
             then note_legacy a
             else note_advance R H (rn_swap rn) (hs_last s1) s1 a)"

text \<open>\<open>readHTTPErrorBody\<close> and \<open>classifyUpstreamHTTPError\<close> with a recorder.\<close>

definition note_error_reply :: "recording \<Rightarrow> response \<Rightarrow> failure \<Rightarrow> trail \<Rightarrow> trail" where
  "note_error_reply R resp f a =
     say [ResponseReadError (rs_err resp), AttemptFailure f ''http_error'']
       (tee R (rs_chunks resp) (say [ResponseHeaders (rs_status resp) (re_entries R (rs_header resp)), RespWriter] a))"

definition note_http_error :: "recording \<Rightarrow> handler \<Rightarrow> round \<Rightarrow> response \<Rightarrow> hstate \<Rightarrow> trail \<Rightarrow> trail" where
  "note_http_error R H rn resp s0 a0 =
     (let f = classifyUpstreamHTTPError (hd_env H) (rn_ctx rn) (hd_path H) (hd_recorded H) resp (fallbackActive s0);
          s = s0\<lparr>hs_last := f\<rparr>;
          a = note_error_reply R resp f a0
      in if hd_intercept H \<and> isModelSafeguardRefusal f
         then note_swap R H (rn_swap rn) ''safeguard'' (hold_safeguard f s) a
         else case advanceFallback H (rn_swap rn) f s of
                (True, s1) \<Rightarrow> note_advance R H (rn_swap rn) f s a
              | (False, s1) \<Rightarrow>
                  let a1 = note_local H (rn_local rn) (hs_last s1) s1 a in
                  (case tryLocalRetry H (rn_local rn) (hs_last s1) s1 of
                     (True, s2) \<Rightarrow> a1
                   | (False, s2) \<Rightarrow>
                       if \<not> fallbackActive s2 \<and> txLocalRetries (hd_cfg H) = 0 \<and> f_retryAfter (hs_last s2) = 0
                          \<and> legacy_ready H rn s2
                       then note_legacy a1 else a1))"

definition note_advance_or_retry :: "recording \<Rightarrow> handler \<Rightarrow> round \<Rightarrow> hstate \<Rightarrow> trail \<Rightarrow> trail" where
  "note_advance_or_retry R H rn s a =
     (case advanceFallback H (rn_swap rn) (hs_last s) s of
        (True, s1) \<Rightarrow> note_advance R H (rn_swap rn) (hs_last s) s a
      | (False, s1) \<Rightarrow> note_local H (rn_local rn) (hs_last s1) s1 a)"

text \<open>The chunks the spool accepts: the archive's sink comes after it in \<open>io.MultiWriter\<close>.\<close>

fun accepted :: "config \<Rightarrow> (int \<Rightarrow> spool_io) \<Rightarrow> spool \<Rightarrow> bytes list \<Rightarrow> bytes list \<times> go_error option" where
  "accepted cfg io sp [] = ([], None)"
| "accepted cfg io sp (c # cs) =
     (case spool_write cfg (io (sp_total sp)) sp c of
        (sp', Some e) \<Rightarrow> ([], Some e)
      | (sp', None) \<Rightarrow> apfst ((#) c) (accepted cfg io sp' cs))"

definition note_plain_body :: "recording \<Rightarrow> handler \<Rightarrow> round \<Rightarrow> response \<Rightarrow> hstate \<Rightarrow> trail \<Rightarrow> trail" where
  "note_plain_body R H rn resp s a0 =
     (case accepted (hd_cfg H) (hd_io H) newSpool (rs_chunks resp) of (chunks, failed) \<Rightarrow>
      let readErr = (case failed of Some e \<Rightarrow> Some e | None \<Rightarrow> rs_err resp);
          a = say [ResponseReadError readErr]
                (tee R chunks (say [ResponseHeaders (rs_status resp) (re_entries R (rs_header resp)), RespWriter] a0))
      in case bufferNonSSE (hd_cfg H) (hd_io H) (rn_ctx rn) (rn_timedOut rn) resp of
           Inl f \<Rightarrow>
             note_advance_or_retry R H rn (s\<lparr>hs_last := f\<rparr>) (say [AttemptFailure f ''non_sse_read_error''] a)
         | Inr sp \<Rightarrow>
             let w = (hs_w s)\<lparr>ds_header := header_overlay (ds_header (hs_w s)) (safeResponseHeaders (rs_header resp) False),
                              ds_status := Some (rs_status resp)\<rparr>
             in case replayRaw (hd_rd H) sp w of
                  (w', Some e) \<Rightarrow>
                    say [AttemptResult ''drop'', Outcome ''DROP'' (rs_status resp) (rs_status resp) ''non_sse_replay_failed''] a
                | (w', None) \<Rightarrow>
                    say [AttemptResult ''success'', ProxyRetries (hs_proxyRetries s),
                         Outcome ''OK'' (rs_status resp) (rs_status resp) []] a)"

text \<open>The bytes of the reads a capture handles until it returns.\<close>

fun captured_reads :: "'m capture \<Rightarrow> input list \<Rightarrow> 'm engine \<Rightarrow> bytes list" where
  "captured_reads G [] s = []"
| "captured_reads G (i # is) s =
     (case i of Read data err ctx \<Rightarrow> if data \<noteq> [] then [data] else [] | _ \<Rightarrow> [])
     @ (case capture_step G i s of Inl r \<Rightarrow> [] | Inr s' \<Rightarrow> captured_reads G is s')"

definition wire_reads :: "handler \<Rightarrow> response \<Rightarrow> 'm wire \<Rightarrow> 'm \<Rightarrow> downstream \<Rightarrow> input list \<Rightarrow> bytes list" where
  "wire_reads H resp W m w inputs =
     (let G = \<lparr>g_cfg = hd_cfg H, g_wire = W, g_hdr = rs_header resp, g_io = hd_io H, g_keepEvery = hd_window H,
               g_progressGated = hd_gated H, g_earlyCommit = hd_earlyCommit H\<rparr>
      in captured_reads G inputs (engine0 G m w stats0))"

definition stream_reads :: "handler \<Rightarrow> bytes \<Rightarrow> response \<Rightarrow> downstream \<Rightarrow> input list \<Rightarrow> bytes list" where
  "stream_reads H body resp w inputs =
     (if isResponsesPath (hd_path H) then
        wire_reads H resp (openai_wire (hd_rd H)) (newOpenAIWire (hd_cfg H)) w inputs
      else if isGeminiPath (hd_path H) then
        wire_reads H resp (gemini_wire (hd_env H) (hd_rd H)) (newGeminiWire body) w inputs
      else
        wire_reads H resp (anthropic_wire (hd_renum H) (hd_cfg H) (hd_rd H))
          (anthropic_start (hd_intercept H) (hd_gated H)) w inputs)"

definition note_stream :: "recording \<Rightarrow> handler \<Rightarrow> round \<Rightarrow> response \<Rightarrow> hstate \<Rightarrow> trail \<Rightarrow> trail" where
  "note_stream R H rn resp s0 a0 =
     (case capture_with_wire H (hs_body s0) resp (hs_w s0) (rn_inputs rn) of
        None \<Rightarrow> a0
      | Some c \<Rightarrow>
          let s = s0\<lparr>hs_w := cp_w c\<rparr>;
              n = hs_proxyRetries s0;
              a = say [AttemptStats (cp_st c)]
                    (tee R (stream_reads H (hs_body s0) resp (hs_w s0) (rn_inputs rn))
                      (say [RespWriter, ResponseHeaders (rs_status resp) (re_entries R (rs_header resp))] a0))
          in case cp_fail c of
               None \<Rightarrow> say [AttemptResult ''success'', ProxyRetries n, Outcome ''OK'' 200 200 []] a
             | Some f \<Rightarrow>
                 let b = say [AttemptFailure f ''sse_failure''] a in
                 (case st_heldRefusal (cp_st c) of
                    Some sp \<Rightarrow> note_swap R H (rn_swap rn) ''refusal'' ((hold_refusal resp c sp s)\<lparr>hs_last := f\<rparr>) b
                  | None \<Rightarrow>
                      if \<not> cp_wrote c \<and> hd_intercept H \<and> isModelSafeguardRefusal f then
                        note_swap R H (rn_swap rn) ''safeguard'' (hold_safeguard f s) b
                      else if cp_wrote c then
                        (if f_delivered f
                         then say [AttemptResult ''fail'', ProxyRetries n, Outcome ''FAIL'' 200 200 (f_code f)] b
                         else say [AttemptResult ''drop'', ProxyRetries n, Outcome ''DROP'' 200 200 (f_code f)] b)
                      else note_advance_or_retry R H rn (s\<lparr>hs_last := f\<rparr>) b))"

definition note_attempt :: "recording \<Rightarrow> handler \<Rightarrow> round \<Rightarrow> hstate \<Rightarrow> trail \<Rightarrow> trail" where
  "note_attempt R H rn s a0 =
     (let a = begin_attempt R s a0 in
      case rn_reply rn of
        Inl e \<Rightarrow> note_transport_error R H rn e s a
      | Inr resp \<Rightarrow>
          if rs_status resp < 200 \<or> 300 \<le> rs_status resp then note_http_error R H rn resp s a
          else if \<not> isEventStream (header_get (rs_header resp) ''Content-Type'') then note_plain_body R H rn resp s a
          else note_stream R H rn resp s a)"

section \<open>The answer\<close>

definition note_surfaced :: "handler \<Rightarrow> bool \<Rightarrow> failure \<Rightarrow> rec_op" where
  "note_surfaced H canRetry f =
     Outcome (if canRetry then ''RETRY'' else ''FAIL'') (origStatusOf f) (fst (retrySurfaceFor (hd_path H) f canRetry)) (f_code f)"

definition note_held :: "bytes \<Rightarrow> bufferedStream \<Rightarrow> downstream \<Rightarrow> rec_op list" where
  "note_held firstWho b w =
     [DeliveredAnswer firstWho (Some (bs_st b)),
      (case deliverHeldRefusal b w of
         Aborted _ \<Rightarrow> Outcome ''DROP'' 200 200 ''refusal_replay_failed''
       | Done _ \<Rightarrow> Outcome ''OK'' 200 200 [])]"

definition note_answer :: "handler \<Rightarrow> bytes \<Rightarrow> ctx_err \<Rightarrow> ctx_err \<Rightarrow> hstate \<Rightarrow> trail \<Rightarrow> trail" where
  "note_answer H firstWho ctx clientCtx s a =
     (let last1 = (if ctx \<noteq> CtxOk then ended_failure ctx else hs_last s);
          canRetry = (\<not> fallbackActive s \<and> f_transient last1 \<and> budgetLeft H);
          n = ProxyRetries (hs_proxyRetries s)
      in if fallbackActive s \<and> clientCtx = CtxOk \<and> claudeFallbackAction last1 \<noteq> fallbackStop then
           (case hs_held s of
              Some b \<Rightarrow> say (n # note_held firstWho b (hs_w s)) a
            | None \<Rightarrow>
                (case hs_safeguard s of
                   Some f \<Rightarrow> say [n, DeliveredAnswer firstWho None, n, note_surfaced H canRetry f] a
                 | None \<Rightarrow> say [n, note_surfaced H canRetry last1] a))
         else say [n, note_surfaced H canRetry last1] a)"

fun note_loop :: "recording \<Rightarrow> handler \<Rightarrow> bytes \<Rightarrow> round list \<Rightarrow> hstate \<Rightarrow> trail \<Rightarrow> trail" where
  "note_loop R H firstWho [] s a = a"
| "note_loop R H firstWho (rn # rns) s a =
     (let a' = note_attempt R H rn s a in
      case attempt H rn s of
        Again s' \<Rightarrow> note_loop R H firstWho rns s' a'
      | Leave s' \<Rightarrow> note_answer H firstWho (rn_endCtx rn) (rn_clientCtx rn) s' a'
      | Return x \<Rightarrow> a'
      | Capturing \<Rightarrow> a')"

section \<open>The single-shot proxy\<close>

text \<open>The chunks the client takes, and the error the copy ends with.\<close>

fun copied :: "(downstream \<Rightarrow> go_error option) \<Rightarrow> bool \<Rightarrow> downstream \<Rightarrow> bytes list \<Rightarrow> bytes list \<times> go_error option" where
  "copied flush sse w [] = ([], None)"
| "copied flush sse w (c # cs) =
     (case w_write w c of
        (w', Some e) \<Rightarrow> ([], Some e)
      | (w', None) \<Rightarrow>
          (case (if sse then flush w' else None) of
             Some e \<Rightarrow> ([], Some e)
           | None \<Rightarrow> apfst ((#) c) (copied flush sse w' cs)))"

text \<open>
  Why a copy failed: \<open>timedOut\<close> is the flag of the byte-idle timer, \<open>osTimeout\<close> whether
  \<open>errors.Is\<close> finds \<open>os.ErrDeadlineExceeded\<close> (the connection's deadline).
\<close>

definition drop_failure :: "ctx_err \<Rightarrow> bool \<Rightarrow> bool \<Rightarrow> go_error \<Rightarrow> failure" where
  "drop_failure ctx timedOut osTimeout e =
     (if ctx \<noteq> CtxOk then classifyTransport e ctx
      else if timedOut then idle_failure
      else if osTimeout then classifyTransport (ctx_error CtxDeadline) ctx
      else failure0\<lparr>f_transient := True, f_status := 502, f_atype := ''api_error'',
             f_code := ''response_read_error'', f_message := error_text e\<rparr>)"

definition single_shot_stats :: "response \<Rightarrow> systemOneMetadata \<Rightarrow> rec_op list" where
  "single_shot_stats resp m =
     (case (sm_inputTokens m, sm_outputTokens m) of
        (Some i, Some o') \<Rightarrow>
          [AttemptStats (stats0\<lparr>st_mode := ''single-shot'', st_bytes := int (length (concat (rs_chunks resp))),
             st_model := sm_model m, st_inputTok := i, st_inTok := i, st_outTok := o'\<rparr>)]
      | _ \<Rightarrow> [])"

definition note_proxyOnce ::
    "recording \<Rightarrow> env \<Rightarrow> config \<Rightarrow> ctx_err \<Rightarrow> bool \<Rightarrow> bool \<Rightarrow> (downstream \<Rightarrow> go_error option) \<Rightarrow> bytes \<Rightarrow> bytes \<Rightarrow> header
     \<Rightarrow> bytes \<Rightarrow> go_error + response \<Rightarrow> downstream \<Rightarrow> trail \<Rightarrow> trail" where
  "note_proxyOnce R E cfg ctx timedOut osTimeout flush meth path hdr body reply w a00 =
     (let a0 = say [BeginAttempt (re_now R (length (tr_ops a00))) body (re_who R body) 0] a00;
          retryCount = atoiSafe (header_get hdr ''X-Stainless-Retry-Count'');
          surfaced = (\<lambda>f. let canRetry = (f_transient f \<and> retryCount < sdkRetryCap cfg) in
            Outcome (if canRetry then ''RETRY'' else ''FAIL'') (origStatusOf f) (fst (retrySurfaceFor path f canRetry)) (f_code f))
      in case reply of
           Inl e \<Rightarrow> let f = classifyTransport e ctx in say [AttemptFailure f ''transport_error'', surfaced f] a0
         | Inr resp \<Rightarrow>
             if (rs_status resp < 200 \<or> 300 \<le> rs_status resp)
                \<and> \<not> (rs_status resp = 304 \<and> (meth = ''GET'' \<or> meth = ''HEAD''))
             then let f = classifyUpstreamHTTPError E ctx path True resp False
                  in say [surfaced f] (note_error_reply R resp f a0)
             else
               let w1 = proxyOnce_head meth resp w;
                   sse = isEventStream (header_get (rs_header resp) ''Content-Type'');
                   a1 = say [ResponseHeaders (rs_status resp) (re_entries R (rs_header resp)), RespWriter] a0;
                   status = rs_status resp;
                   dropped = (\<lambda>a e. let f = drop_failure ctx timedOut osTimeout e in
                     say [ResponseReadError (Some e), AttemptFailure f ''drop'', Outcome ''DROP'' status status (f_code f)] a)
               in case (if sse then flush w1 else None) of
                    Some e \<Rightarrow> dropped a1 e
                  | None \<Rightarrow>
                      (case copied flush sse w1 (rs_chunks resp) of
                         (chunks, failed) \<Rightarrow>
                           let a = tee R chunks a1 in
                           case (case failed of Some e \<Rightarrow> Some e | None \<Rightarrow> rs_err resp) of
                             Some e \<Rightarrow> dropped a e
                           | None \<Rightarrow>
                               say (AttemptResult ''success''
                                    # (if isSystemOnePath path then single_shot_stats resp (observed_metadata resp) else [])
                                    @ [Outcome ''OK'' status status []]) a))"

section \<open>A whole request\<close>

text \<open>
  What a request is recorded as: the recorder exists once the body has been read. The last
  three arguments are the request, what a single-shot request meets, and the rounds of a
  buffered one.
\<close>

definition note_handle ::
    "recording \<Rightarrow> server \<Rightarrow> bool \<Rightarrow> bool \<Rightarrow> request \<Rightarrow> ctx_err \<Rightarrow> go_error + response \<Rightarrow> round list \<Rightarrow> downstream \<Rightarrow> rec_op list" where
  "note_handle R S timedOut osTimeout rq ctx reply rns w =
     (let body = rq_body rq; reqWho = re_who R body;
          a = \<lparr>tr_who = reqWho, tr_chain = modelOf body, tr_ops = []\<rparr>
      in if \<not> transactional rq body then
           tr_ops (note_proxyOnce R (sv_env S) (sv_cfg S) ctx timedOut osTimeout (sv_flush S)
                     (rq_method rq) (rq_path rq) (rq_header rq) body reply w a)
         else (case start S rq body w of (H, s) \<Rightarrow> tr_ops (note_loop R H reqWho rns s a)))"

section \<open>The outcome on file is the one the client got\<close>

text \<open>
  What the answer alone says of how the request ended, given the failure \<open>broke\<close> the stream
  of the last attempt ended with, if any: an aborted response is a drop; one whose stream
  ended with a failure failed; a success status is a delivered answer; any other status is an
  offered retry or a failure, as \<open>X-Should-Retry\<close> says.
\<close>

definition ending :: "failure option \<Rightarrow> exit \<Rightarrow> bytes" where
  "ending broke x =
     (case x of
        Aborted w \<Rightarrow> ''DROP''
      | Done w \<Rightarrow>
          if broke \<noteq> None then ''FAIL''
          else if (case ds_status w of None \<Rightarrow> False | Some st \<Rightarrow> 200 \<le> st \<and> st < 400) then ''OK''
          else if header_get (ds_header w) ''X-Should-Retry'' = ''true'' then ''RETRY''
          else ''FAIL'')"

text \<open>The failure in the stream of the attempt that returned.\<close>

fun stream_break :: "handler \<Rightarrow> round list \<Rightarrow> hstate \<Rightarrow> failure option" where
  "stream_break H [] s = None"
| "stream_break H (rn # rns) s =
     (case attempt H rn s of
        Again s' \<Rightarrow> stream_break H rns s'
      | Return x \<Rightarrow>
          (case rn_reply rn of
             Inl e \<Rightarrow> None
           | Inr resp \<Rightarrow>
               if \<not> isEventStream (header_get (rs_header resp) ''Content-Type'') then None
               else case capture_with_wire H (hs_body s) resp (hs_w s) (rn_inputs rn) of
                      None \<Rightarrow> None
                    | Some c \<Rightarrow> cp_fail c)
      | _ \<Rightarrow> None)"

definition broken_by :: "server \<Rightarrow> request \<Rightarrow> round list \<Rightarrow> downstream \<Rightarrow> failure option" where
  "broken_by S rq rns w =
     (if \<not> transactional rq (rq_body rq) then None
      else case start S rq (rq_body rq) w of (H, s) \<Rightarrow> stream_break H rns s)"

text \<open>
  \<open>told broke x op\<close>: the recorded outcome \<open>op\<close> is that of the answer \<open>x\<close>. The recorded status
  is the one sent (one that is not positive is sent as 502); the code is that of the failure
  in the stream, the one a surfaced failure gives as its reason, and empty for an answer; and
  the upstream's status is recorded as the sent one unless a failure was surfaced.
\<close>

fun told :: "failure option \<Rightarrow> exit \<Rightarrow> rec_op \<Rightarrow> bool" where
  "told broke x (Outcome tag orig st code) =
     (tag = ending broke x \<and>
      (ds_status (exit_client x) = Some st \<or> st \<le> 0 \<and> ds_status (exit_client x) = Some 502) \<and>
      (case broke of
         Some f \<Rightarrow> code = f_code f \<and> orig = st
       | None \<Rightarrow>
           (tag = ''OK'' \<longrightarrow> code = [] \<and> orig = st) \<and>
           (tag = ''DROP'' \<longrightarrow> orig = st) \<and>
           (tag \<in> {''RETRY'', ''FAIL''} \<longrightarrow>
              header_get (ds_header (exit_client x)) ''X-Steady-Proxy-Reason'' = code)))"
| "told broke x _ = False"

definition ends_told :: "failure option \<Rightarrow> exit \<Rightarrow> trail \<Rightarrow> bool" where
  "ends_told broke x a = (tr_ops a \<noteq> [] \<and> told broke x (last (tr_ops a)))"

lemma tr_ops_say [simp]: "tr_ops (say ops a) = tr_ops a @ ops"
  by (simp add: say_def)

lemma ends_told_say: "ops \<noteq> [] \<Longrightarrow> ends_told broke x (say ops a) = told broke x (last ops)"
  by (simp add: ends_told_def)

lemma errorWriterFor_reason:
  "header_get (ds_header (errorWriterFor path canRetry status atype msg ra code w)) ''X-Steady-Proxy-Reason'' = code"
  by (simp add: errorWriterFor_def writeOpenAIError_def writeGeminiError_def writeSystemOneError_def
      writeAnthropicError_def error_head_def Let_def)

lemma writeFailure_told:
  assumes "f_upstream f = None \<or> f_transient f \<or> \<not> canRetry"
  shows "(ds_status (writeFailure path isHead f canRetry st ty ra w) = Some st \<or>
          st \<le> 0 \<and> ds_status (writeFailure path isHead f canRetry st ty ra w) = Some 502) \<and>
    header_get (ds_header (writeFailure path isHead f canRetry st ty ra w)) ''X-Should-Retry''
      = (if canRetry then ''true'' else ''false'') \<and>
    header_get (ds_header (writeFailure path isHead f canRetry st ty ra w)) ''X-Steady-Proxy-Reason'' = f_code f"
  using assms
  by (auto simp: writeFailure_def Let_def errorWriterFor_signals errorWriterFor_reason signal_simps split: option.splits)

lemma surface_told:
  assumes "canRetry \<Longrightarrow> f_transient f" "unsuccessful f"
  shows "told None (Done (surface_failure jitter path isHead n canRetry f w))
    (Outcome (if canRetry then ''RETRY'' else ''FAIL'') orig (fst (retrySurfaceFor path f canRetry)) (f_code f))"
proof -
  have u: "f_upstream f = None \<or> f_transient f \<or> \<not> canRetry" using assms(1) by blast
  obtain st ty where r: "retrySurfaceFor path f canRetry = (st, ty)" by (metis surj_pair)
  from unsuccessful_surfaced [OF assms(2), of path canRetry] r have st: "st < 200 \<or> 400 \<le> st" by simp
  obtain ra where v: "surface_failure jitter path isHead n canRetry f w = writeFailure path isHead f canRetry st ty ra w"
    by (simp add: surface_failure_def Let_def r)
  note t = writeFailure_told [OF u, of path isHead st ty ra w]
  from t obtain s where s: "ds_status (writeFailure path isHead f canRetry st ty ra w) = Some s" "s < 200 \<or> 400 \<le> s" "s = st \<or> st \<le> 0 \<and> s = 502"
    using st by auto
  with t show ?thesis unfolding v by (auto simp: r ending_def)
qed

lemma answer_told:
  assumes "held_ok s" "fails_only s"
  shows "ends_told None (answer H ctx cctx s) (note_answer H firstWho ctx cctx s a)"
proof -
  have held: "told None (deliverHeldRefusal b (hs_w s)) (last (note_held firstWho b (hs_w s)))" if "hs_held s = Some b" for b
  proof -
    define v where "v = (hs_w s)\<lparr>ds_header := stream_header (bs_header b) ''buffered'' (ds_header (hs_w s)), ds_status := Some 200\<rparr>"
    have "appends v (fst (bs_replay b v))" using assms that by (simp add: held_ok_def)
    then have "ds_status (fst (bs_replay b v)) = Some 200" by (simp add: appends_def v_def)
    then show ?thesis
      by (cases "bs_replay b v")
        (auto simp: deliverHeldRefusal_def note_held_def v_def [symmetric] ending_def split: option.splits)
  qed
  have ne: "note_held firstWho b w \<noteq> []" for b w by (simp add: note_held_def)
  define last1 where "last1 = (if ctx \<noteq> CtxOk then ended_failure ctx else hs_last s)"
  define canRetry where "canRetry = (\<not> fallbackActive s \<and> f_transient last1 \<and> budgetLeft H)"
  define T where "T f = told None (Done (surface_failure (hd_jitter H) (hd_path H) False (hd_retryCount H) canRetry f (hs_w s)))
      (note_surfaced H canRetry f)" for f
  have sur: "T f" if "canRetry \<Longrightarrow> f_transient f" "unsuccessful f" for f
    unfolding T_def note_surfaced_def by (rule surface_told) (use that in auto)
  have l: "T last1" by (rule sur) (use assms(2) in \<open>simp_all add: canRetry_def last1_def fails_only_def\<close>)
  have n: "T f" if "fallbackActive s" "hs_safeguard s = Some f" for f
    by (rule sur) (use that assms(2) in \<open>simp_all add: canRetry_def fails_only_def\<close>)
  show ?thesis
    unfolding answer_def note_answer_def Let_def last1_def [symmetric] canRetry_def [symmetric]
    using held l n by (auto simp: ends_told_say ne T_def split: option.split simp del: told.simps)
qed

section \<open>Answers from inside the loop\<close>

lemma tee_ops: "tr_ops (tee R cs a) \<noteq> [] \<longleftrightarrow> tr_ops a \<noteq> [] \<or> cs \<noteq> []"
  by (induction R cs a rule: tee.induct) auto

lemma plain_told:
  assumes "on_plain_body H rn resp s = Return x" "200 \<le> rs_status resp" "rs_status resp < 300"
  shows "ends_told None x (note_plain_body R H rn resp s a)"
proof -
  have l: "or_leave r \<noteq> Return x" for r by (simp add: or_leave_def split: prod.split)
  have o: "advance_or_retry H rn t \<noteq> Return x" for t
    by (simp add: advance_or_retry_def l split: prod.split bool.split)
  obtain sp where b: "bufferNonSSE (hd_cfg H) (hd_io H) (rn_ctx rn) (rn_timedOut rn) resp = Inr sp"
    using assms o by (auto simp: on_plain_body_def split: sum.splits)
  define w where "w = (hs_w s)\<lparr>ds_header := header_overlay (ds_header (hs_w s)) (safeResponseHeaders (rs_header resp) False),
                              ds_status := Some (rs_status resp)\<rparr>"
  obtain w' e where r: "replayRaw (hd_rd H) sp w = (w', e)" by (metis surj_pair)
  have "ds_status w' = Some (rs_status resp)" using appends_replayRaw [of w "hd_rd H" sp] r by (simp add: appends_def w_def)
  then show ?thesis
    using assms
    by (cases e) (auto simp: on_plain_body_def note_plain_body_def b Let_def w_def [symmetric] r ends_told_say ending_def split: prod.split)
qed

lemma stream_told:
  assumes "on_stream H rn resp s = Return x" "capture_with_wire H (hs_body s) resp (hs_w s) (rn_inputs rn) = Some c"
  shows "ends_told (cp_fail c) x (note_stream R H rn resp s a)"
proof -
  have l: "or_leave r \<noteq> Return x" for r by (simp add: or_leave_def split: prod.split)
  have o: "advance_or_retry H rn t \<noteq> Return x" for t
    by (simp add: advance_or_retry_def l split: prod.split bool.split)
  note c = assms(2)
  from capture_with_wire_ok [OF c] have ok: "captured_ok (hs_w s) c" .
  show ?thesis
  proof (cases "cp_fail c")
    case None
    with ok have "ds_status (cp_w c) = Some 200" by (auto simp: captured_ok_def split: if_splits)
    with None assms show ?thesis by (auto simp: on_stream_def note_stream_def c Let_def ends_told_say ending_def)
  next
    case (Some f)
    with assms l o have w: "cp_wrote c" "st_heldRefusal (cp_st c) = None"
        "x = (if f_delivered f then Done (cp_w c) else Aborted (cp_w c))"
      by (auto simp: on_stream_def c Let_def split: option.splits if_splits prod.splits bool.splits)
    with ok have "ds_status (cp_w c) = Some 200" by (simp add: captured_ok_def)
    with w Some show ?thesis by (simp add: note_stream_def c Let_def ends_told_say ending_def)
  qed
qed

lemma return_told:
  assumes "attempt H rn s = Return x"
  shows "ends_told (stream_break H (rn # rns) s) x (note_attempt R H rn s a)"
proof -
  have o: "or_leave r \<noteq> Return x" "legacy_retry rn t \<noteq> Return x" for r t
    by (simp_all add: or_leave_def legacy_retry_def Let_def split: prod.split)
  have t: "on_transport_error H rn e s \<noteq> Return x" for e
    by (simp add: on_transport_error_def Let_def o split: prod.split bool.split)
  have h: "on_http_error H rn resp s \<noteq> Return x" for resp
    by (simp add: on_http_error_def Let_def o split: prod.split bool.split)
  obtain resp where r: "rn_reply rn = Inr resp" "200 \<le> rs_status resp" "rs_status resp < 300"
    using assms t h by (auto simp: attempt_def split: sum.splits if_splits)
  show ?thesis
  proof (cases "isEventStream (header_get (rs_header resp) ''Content-Type'')")
    case False
    with assms r have "on_plain_body H rn resp s = Return x" by (simp add: attempt_def)
    from plain_told [OF this r(2,3)] assms False r show ?thesis by (simp add: note_attempt_def Let_def)
  next
    case True
    with assms r have o: "on_stream H rn resp s = Return x" by (simp add: attempt_def)
    then obtain c where c: "capture_with_wire H (hs_body s) resp (hs_w s) (rn_inputs rn) = Some c"
      by (auto simp: on_stream_def split: option.splits)
    from stream_told [OF o c] assms True r c show ?thesis by (simp add: note_attempt_def Let_def)
  qed
qed

lemma loop_told:
  "handle_loop H rns s = Inl x \<Longrightarrow> held_ok s \<Longrightarrow> fails_only s \<Longrightarrow>
   ends_told (stream_break H rns s) x (note_loop R H firstWho rns s a)"
proof (induction rns arbitrary: s a)
  case (Cons rn rns)
  note k = attempt_ok [of H s rn] and q = attempt_fails [OF Cons.prems(3), of H rn]
  show ?case
  proof (cases "attempt H rn s")
    case (Again u)
    with k q Cons.prems have "held_ok u" "fails_only u" by (simp_all add: verdict_ok_def keeps_def verdict_fails_def)
    with Cons Again show ?thesis by simp
  next
    case (Leave u)
    with k q Cons.prems have "held_ok u" "fails_only u" by (simp_all add: verdict_ok_def keeps_def verdict_fails_def)
    with Cons.prems Leave answer_told show ?thesis by auto
  next
    case (Return y)
    with return_told [OF this, of rns R a] Cons.prems show ?thesis by simp
  qed (use Cons.prems in simp)
qed simp

lemma copied_copy_body:
  "copied flush sse w cs = (ds, e) \<Longrightarrow> snd (copy_body flush sse w cs) = e"
  by (induction flush sse w cs arbitrary: ds rule: copy_body.induct)
    (auto split: prod.splits option.splits simp: apfst_def map_prod_def)

lemma proxyOnce_told:
  "ends_told None (proxyOnce E cfg ctx jitter flush True meth path hdr reply w)
     (note_proxyOnce R E cfg ctx timedOut osTimeout flush meth path hdr body reply w a)"
proof (cases reply)
  case (Inl e)
  then show ?thesis
    by (simp add: proxyOnce_def note_proxyOnce_def Let_def ends_told_say surface_told del: told.simps)
next
  case (Inr resp)
  define v where "v = proxyOnce_head meth resp w"
  define sse where "sse = isEventStream (header_get (rs_header resp) ''Content-Type'')"
  have v: "ds_status v = Some (rs_status resp)" by (simp add: v_def proxyOnce_head_def)
  obtain u e where c: "copy_body flush sse v (rs_chunks resp) = (u, e)" by (metis surj_pair)
  obtain ds e' where d: "copied flush sse v (rs_chunks resp) = (ds, e')" by (metis surj_pair)
  have e: "e' = e" using copied_copy_body [OF d] c by simp
  have u: "ds_status u = Some (rs_status resp)" using copy_body_status [of flush sse v "rs_chunks resp"] c v by simp
  show ?thesis
    using u v unfolding proxyOnce_def note_proxyOnce_def Let_def Inr sum.case v_def [symmetric] sse_def [symmetric] c d e
    by (auto simp: ends_told_say surface_told unsuccessful_upstream simp del: told.simps split: option.split)
      (auto simp: ending_def)
qed

text \<open>
  C5. The archive says how the request ended. When a recorded request returns, the outcome in
  its archive is the one its answer has: a drop exactly when the response was aborted; else a
  failure when the capture of the stream the client read reports one, with its code; else an
  answer exactly when the client got a success status, an offered retry exactly when it got
  another one with \<open>X-Should-Retry: true\<close>, and a failure when it got one without, both with
  the code the client was given as the reason. The status
  on file is the one the client was sent. This holds on every route and for every way through
  the attempt loop.
\<close>

theorem outcome_recorded:
  assumes "sv_recorded S" "readBody (sv_cfg S) rq = BodyRead body"
    and "handle S False False rq ctx reply rns w = Inl x"
    and "rec = rec_run sha fmt cfg (note_handle R S timedOut osTimeout rq ctx reply rns w) rec0"
  shows "told (broken_by S rq rns w) x (Outcome (rc_outcome rec) (rc_origStatus rec) (rc_status rec) (rc_code rec))"
proof -
  let ?ops = "note_handle R S timedOut osTimeout rq ctx reply rns w"
  have b: "body = rq_body rq" using assms(2) by (auto simp: readBody_def split: if_splits option.splits)
  have "held_ok s \<and> fails_only s" if "start S rq body w = (H, s)" for H s
    using that by (auto simp: start_def Let_def held_ok_def fails_only_def unsuccessful_def split: prod.splits if_splits)
  then have "?ops \<noteq> [] \<and> told (broken_by S rq rns w) x (last ?ops)"
    using assms(1-3) loop_told [of _ rns _ x] proxyOnce_told unfolding b
    by (auto simp: handle_def note_handle_def broken_by_def Let_def ends_told_def split: if_splits prod.splits)
  then obtain ops op where o: "?ops = ops @ [op]" "told (broken_by S rq rns w) x op" by (metis append_butlast_last_id)
  have r: "rec = rec_step sha fmt cfg op (rec_run sha fmt cfg ops rec0)" by (simp add: assms(4) o(1) rec_run_def)
  show ?thesis using o(2) by (cases op) (simp_all add: r note_outcome_def del: told.simps(1))
qed

section \<open>The attempts on file are the requests sent\<close>

text \<open>The bodies sent upstream, one per attempt.\<close>

fun sent :: "handler \<Rightarrow> round list \<Rightarrow> hstate \<Rightarrow> bytes list" where
  "sent H [] s = []"
| "sent H (rn # rns) s = hs_body s # (case attempt H rn s of Again s' \<Rightarrow> sent H rns s' | _ \<Rightarrow> [])"

fun begun :: "rec_op list \<Rightarrow> bytes list" where
  "begun [] = []"
| "begun (BeginAttempt now body reqWho n # ops) = body # begun ops"
| "begun (_ # ops) = begun ops"

lemma begun_append [simp]: "begun (xs @ ys) = begun xs @ begun ys"
  by (induction xs rule: begun.induct) simp_all

lemma begun_tee [simp]: "begun (tr_ops (tee R cs a)) = begun (tr_ops a)"
  by (induction R cs a rule: tee.induct) simp_all

lemma begun_notes [simp]:
  "begun (tr_ops (note_local H ck f s a)) = begun (tr_ops a)"
  "begun (tr_ops (note_swap R H ck reason s a)) = begun (tr_ops a)"
  "begun (tr_ops (note_legacy a)) = begun (tr_ops a)"
  by (simp_all add: note_local_def note_swap_def note_legacy_def Let_def split: prod.split bool.split)

lemma begun_advance [simp]:
  "begun (tr_ops (note_advance R H ck f s a)) = begun (tr_ops a)"
  by (simp add: note_advance_def)

lemma begun_advance_or_retry [simp]:
  "begun (tr_ops (note_advance_or_retry R H rn s a)) = begun (tr_ops a)"
  by (simp add: note_advance_or_retry_def split: prod.split bool.split)

lemma begun_ways [simp]:
  "begun (tr_ops (note_transport_error R H rn e s a)) = begun (tr_ops a)"
  "begun (tr_ops (note_http_error R H rn resp s a)) = begun (tr_ops a)"
  "begun (tr_ops (note_plain_body R H rn resp s a)) = begun (tr_ops a)"
  "begun (tr_ops (note_stream R H rn resp s a)) = begun (tr_ops a)"
  by (simp_all add: note_transport_error_def note_http_error_def note_error_reply_def note_plain_body_def
      note_stream_def Let_def split: prod.split bool.split sum.split option.split)

lemma begun_answer [simp]: "begun (tr_ops (note_answer H firstWho ctx cctx s a)) = begun (tr_ops a)"
  by (simp add: note_answer_def note_held_def note_surfaced_def Let_def split: option.split exit.split)

lemma begun_attempt: "begun (tr_ops (note_attempt R H rn s a)) = begun (tr_ops a) @ [hs_body s]"
  by (simp add: note_attempt_def begin_attempt_def Let_def split: sum.split)

lemma begun_loop: "begun (tr_ops (note_loop R H firstWho rns s a)) = begun (tr_ops a) @ sent H rns s"
  by (induction R H firstWho rns s a rule: note_loop.induct) (simp add: begun_attempt Let_def split: verdict.split)+

text \<open>Every operation but the beginning of an attempt keeps the size and digest of each body.\<close>

definition body_keys :: "reqRecorder \<Rightarrow> (int \<times> bytes) list" where
  "body_keys rec = map (\<lambda>a. (at_bodySize a, at_bodySHA a)) (rc_attempts rec)"

lemma body_keys_update:
  assumes "\<And>a. at_request (f a) = at_request a"
  shows "body_keys (update_cur f rec) = body_keys rec"
proof -
  have "map (\<lambda>(i, r, n, d, b). (n, d)) (map at_request (rc_attempts q)) = body_keys q" for q
    by (simp add: body_keys_def at_request_def comp_def)
  from this [of "update_cur f rec"] this [of rec] update_cur_request [of f rec, OF assms] show ?thesis by simp
qed

lemma body_keys_fields [simp]:
  "body_keys (rec\<lparr>rc_stats := st\<rparr>) = body_keys rec" "body_keys (rec\<lparr>rc_outcomeWho := ow\<rparr>) = body_keys rec"
  "body_keys (rec\<lparr>rc_proxyRetries := n\<rparr>) = body_keys rec" "body_keys (rec\<lparr>rc_outcome := oc\<rparr>) = body_keys rec"
  "body_keys (rec\<lparr>rc_origStatus := n\<rparr>) = body_keys rec" "body_keys (rec\<lparr>rc_status := n\<rparr>) = body_keys rec"
  "body_keys (rec\<lparr>rc_code := c\<rparr>) = body_keys rec"
  by (simp_all add: body_keys_def)

lemma body_keys_begin:
  "body_keys (beginAttempt sha fmt now body reqWho n rec) = body_keys rec @ [(int (length body), hex_encode (sha body))]"
proof -
  have f: "body_keys (finishCurrentAttempt sha now rec) = body_keys rec"
    unfolding finishCurrentAttempt_def by (rule body_keys_update) simp
  obtain ref archived rec2 where b:
      "bodyReference sha body (attempt_body_ref (length (rc_attempts (finishCurrentAttempt sha now rec)) + 1))
         ((finishCurrentAttempt sha now rec)\<lparr>rc_stats := None, rc_outcomeWho := reqWho\<rparr>) = (ref, archived, rec2)"
    by (metis prod_cases3)
  then have "rc_attempts rec2 = rc_attempts (finishCurrentAttempt sha now rec)"
    by (auto simp: bodyReference_def Let_def split: if_splits)
  with b f show ?thesis by (simp add: beginAttempt_def Let_def body_keys_def)
qed

lemma body_keys_step:
  "body_keys (rec_step sha fmt cfg op rec) =
     body_keys rec @ map (\<lambda>p. (int (length p), hex_encode (sha p))) (begun [op])"
  by (cases op)
    (simp_all add: body_keys_begin recorder_ops finishCurrentAttempt_def body_keys_update pointer_request Let_def
      split: option.split)

lemma body_keys_run:
  "body_keys (rec_run sha fmt cfg ops rec) =
     body_keys rec @ map (\<lambda>p. (int (length p), hex_encode (sha p))) (begun ops)"
proof (induction ops arbitrary: rec)
  case (Cons op ops)
  have "begun (op # ops) = begun [op] @ begun ops" by (metis append_Cons append_Nil begun_append)
  with Cons [of "rec_step sha fmt cfg op rec"] show ?case by (simp add: rec_run_def body_keys_step)
qed (simp add: rec_run_def)

text \<open>What a request sends upstream: one body when it is not buffered, else one per round.\<close>

definition sent_upstream :: "server \<Rightarrow> request \<Rightarrow> round list \<Rightarrow> downstream \<Rightarrow> bytes list" where
  "sent_upstream S rq rns w =
     (if \<not> transactional rq (rq_body rq) then [rq_body rq]
      else case start S rq (rq_body rq) w of (H, s) \<Rightarrow> sent H rns s)"

lemma begun_handle:
  "begun (note_handle R S timedOut osTimeout rq ctx reply rns w) = sent_upstream S rq rns w"
proof -
  have "begun (tr_ops (note_proxyOnce R E cfg ctx t1 t2 flush meth path hdr body reply w a)) = begun (tr_ops a) @ [body]"
    for E cfg t1 t2 flush meth path hdr body a
    by (simp add: note_proxyOnce_def note_error_reply_def single_shot_stats_def Let_def
        split: sum.split option.split prod.split)
  then show ?thesis by (simp add: note_handle_def sent_upstream_def begun_loop Let_def split: prod.split)
qed

text \<open>
  C11. The archive shows what was sent. The attempts on file are, in order, the requests the
  proxy sent upstream for the client's one, and following the body reference of each gives a
  stored body of the size and the digest of the one that was sent, so the same one wherever
  the digest tells the stored bodies apart.
\<close>

theorem attempts_recorded:
  assumes "rec = rec_run sha fmt cfg (note_handle R S timedOut osTimeout rq ctx reply rns w)
      (newReqRecorder sha rid now r (rq_body rq))"
  shows "list_all2 (\<lambda>a p. \<exists>q. refers sha (rq_body rq) (rc_attempts rec) (at_bodyRef a) q \<and> bodyKey sha q = bodyKey sha p)
    (rc_attempts rec) (sent_upstream S rq rns w)"
proof -
  have "body_keys (newReqRecorder sha rid now r (rq_body rq)) = []"
    by (simp add: newReqRecorder_def body_keys_def Let_def)
  then have k: "map (\<lambda>a. (at_bodySize a, at_bodySHA a)) (rc_attempts rec) =
      map (\<lambda>p. (int (length p), hex_encode (sha p))) (sent_upstream S rq rns w)"
    using body_keys_run [of sha fmt cfg _ "newReqRecorder sha rid now r (rq_body rq)"]
    unfolding body_keys_def [symmetric] assms begun_handle [symmetric, of S rq rns w R timedOut osTimeout ctx reply] by simp
  then have l: "length (rc_attempts rec) = length (sent_upstream S rq rns w)" by (metis length_map)
  show ?thesis
  proof (rule list_all2_all_nthI [OF l])
    fix i assume i: "i < length (rc_attempts rec)"
    from attempt_refers [OF assms nth_mem [OF i]] obtain q where
        "refers sha (rq_body rq) (rc_attempts rec) (at_bodyRef (rc_attempts rec ! i)) q"
        "int (length q) = at_bodySize (rc_attempts rec ! i)" "hex_encode (sha q) = at_bodySHA (rc_attempts rec ! i)"
      by blast
    moreover from arg_cong [OF k, of "\<lambda>xs. xs ! i"] i l
    have "at_bodySize (rc_attempts rec ! i) = int (length (sent_upstream S rq rns w ! i)) \<and>
        at_bodySHA (rc_attempts rec ! i) = hex_encode (sha (sent_upstream S rq rns w ! i))" by simp
    ultimately show "\<exists>q. refers sha (rq_body rq) (rc_attempts rec) (at_bodyRef (rc_attempts rec ! i)) q \<and>
        bodyKey sha q = bodyKey sha (sent_upstream S rq rns w ! i)" by (auto simp: bodyKey_def)
  qed
qed

section \<open>Examples\<close>

definition example_recording :: recording where
  "example_recording = \<lparr>re_now = int, re_io = (\<lambda>_. io_fine), re_entries = (\<lambda>_. []), re_who = (\<lambda>b. modelOf b @ ''/main'')\<rparr>"

definition recorded_server :: server where
  "recorded_server = example_server\<lparr>sv_recorded := True\<rparr>"

definition recorded_run :: reqRecorder where
  "recorded_run = rec_run id (\<lambda>t. []) example_config
     (note_handle example_recording recorded_server False False example_post CtxOk (Inl EOF) [failing_round, failing_round] w_new)
     (newReqRecorder id ''id'' 0 (example_client ''secret'') (rq_body example_post))"

theorem outcome_recorded_witness:
  "case handle recorded_server False False example_post CtxOk (Inl EOF) [failing_round, failing_round] w_new of
     Inl x \<Rightarrow> told (broken_by recorded_server example_post [failing_round, failing_round] w_new) x
       (Outcome (rc_outcome recorded_run) (rc_origStatus recorded_run) (rc_status recorded_run) (rc_code recorded_run))
   | Inr s \<Rightarrow> False"
proof -
  have "case handle recorded_server False False example_post CtxOk (Inl EOF) [failing_round, failing_round] w_new of
     Inl x \<Rightarrow> True | Inr s \<Rightarrow> False"
    by code_simp
  then obtain x where x: "handle recorded_server False False example_post CtxOk (Inl EOF) [failing_round, failing_round] w_new = Inl x"
    by (auto split: sum.splits)
  have b: "readBody (sv_cfg recorded_server) example_post = BodyRead (rq_body example_post)" by code_simp
  have r: "sv_recorded recorded_server" by (simp add: recorded_server_def)
  from outcome_recorded [OF r b x recorded_run_def] x show ?thesis by (simp del: told.simps)
qed

theorem attempts_recorded_witness:
  "list_all2 (\<lambda>a p. \<exists>q. refers id (rq_body example_post) (rc_attempts recorded_run) (at_bodyRef a) q \<and> bodyKey id q = bodyKey id p)
     (rc_attempts recorded_run) (sent_upstream recorded_server example_post [failing_round, failing_round] w_new)"
  by (rule attempts_recorded [OF recorded_run_def])

end
