(* ===== verification/Transport.thy ===== *)
theory Transport
  imports Surfacing
begin

text \<open>
  The client side of the proxy (transport.go, and \<open>roundTrip\<close> of main.go): the request sent
  upstream, the context of one attempt with its no-output deadline, the errors a cancelled
  attempt reports, the writer that flushes every chunk, and the reader that bounds the time
  spent waiting for upstream bytes. The reader shares a timer, a flag and the body with the
  timer's goroutine, so it is a step relation over their interleavings; time is a number.
\<close>

section \<open>The request sent upstream\<close>

record upstream_request =
  uq_method :: bytes
  uq_url :: bytes
  uq_host :: bytes
  uq_header :: header
  uq_body :: bytes

text \<open>
  \<open>roundTrip\<close> up to \<open>client.Do\<close>. The escaped path, the raw query and \<open>ForceQuery\<close> are those of
  the parsed URL of the client; \<open>newRequest\<close> is the error of \<open>http.NewRequestWithContext\<close>, if
  it refuses the method or the URL.
\<close>

definition upstream_url :: "config \<Rightarrow> bytes \<Rightarrow> bytes \<Rightarrow> bool \<Rightarrow> bytes" where
  "upstream_url cfg escapedPath rawQuery forceQuery =
     upstream cfg @ escapedPath @ (if rawQuery \<noteq> [] \<or> forceQuery then ''?'' @ rawQuery else [])"

definition roundTrip_request ::
    "config \<Rightarrow> (bytes \<Rightarrow> bytes \<Rightarrow> go_error option) \<Rightarrow> bytes \<Rightarrow> bytes \<Rightarrow> bytes \<Rightarrow> bool \<Rightarrow> header \<Rightarrow> bytes
     \<Rightarrow> go_error + upstream_request" where
  "roundTrip_request cfg newRequest meth escapedPath rawQuery forceQuery hdr body =
     (let u = upstream_url cfg escapedPath rawQuery forceQuery
      in case newRequest meth u of
           Some e \<Rightarrow> Inl e
         | None \<Rightarrow>
             Inr \<lparr>uq_method = meth, uq_url = u, uq_host = upstreamHost cfg,
                  uq_header = header_set (copyForwardHeaders (\<lambda>_. None) hdr) ''Accept-Encoding'' ''identity'',
                  uq_body = body\<rparr>)"

definition roundTrip ::
    "config \<Rightarrow> (bytes \<Rightarrow> bytes \<Rightarrow> go_error option) \<Rightarrow> (upstream_request \<Rightarrow> go_error + response)
     \<Rightarrow> bytes \<Rightarrow> bytes \<Rightarrow> bytes \<Rightarrow> bool \<Rightarrow> header \<Rightarrow> bytes \<Rightarrow> go_error + response" where
  "roundTrip cfg newRequest client_do meth escapedPath rawQuery forceQuery hdr body =
     (case roundTrip_request cfg newRequest meth escapedPath rawQuery forceQuery hdr body of
        Inl e \<Rightarrow> Inl e
      | Inr rq \<Rightarrow> client_do rq)"

section \<open>The context of an attempt\<close>

text \<open>
  \<open>context.Cause\<close> of the attempt's context, and whether the deadline's timer still runs. The
  first cancellation fixes the cause.
\<close>

record attemptCtx =
  ac_cause :: "go_error option"
  ac_timer :: bool

definition deadlineExceeded :: go_error where
  "deadlineExceeded = OtherError ''context deadline exceeded'' True False"

definition canceled :: go_error where
  "canceled = OtherError ''context canceled'' False True"

definition cancel_with :: "go_error \<Rightarrow> attemptCtx \<Rightarrow> attemptCtx" where
  "cancel_with e c = (case ac_cause c of None \<Rightarrow> c\<lparr>ac_cause := Some e\<rparr> | Some _ \<Rightarrow> c)"

fun ctx_cause :: "ctx_err \<Rightarrow> go_error option" where
  "ctx_cause CtxOk = None"
| "ctx_cause CtxDeadline = Some deadlineExceeded"
| "ctx_cause CtxCanceled = Some canceled"

text \<open>What can happen to the context while the attempt runs, in the order it happens.\<close>

datatype ctx_event = TimerFires | ParentEnds ctx_err

fun ctx_step :: "ctx_event \<Rightarrow> attemptCtx \<Rightarrow> attemptCtx" where
  "ctx_step TimerFires c = (if ac_timer c then (cancel_with deadlineExceeded c)\<lparr>ac_timer := False\<rparr> else c)"
| "ctx_step (ParentEnds e) c = (case ctx_cause e of None \<Rightarrow> c | Some x \<Rightarrow> cancel_with x c)"

text \<open>The context an attempt starts with: \<open>left\<close> is the time until the deadline, \<open>None\<close> for a
  zero deadline.\<close>

definition attempt_context :: "ctx_err \<Rightarrow> int option \<Rightarrow> attemptCtx" where
  "attempt_context parent left =
     (let c = \<lparr>ac_cause = ctx_cause parent, ac_timer = False\<rparr>
      in case left of
           None \<Rightarrow> c
         | Some d \<Rightarrow> if d \<le> 0 then cancel_with deadlineExceeded c else c\<lparr>ac_timer := True\<rparr>)"

text \<open>\<open>errors.Join\<close> of two errors: its text has a line of each.\<close>

definition errors_join :: "go_error \<Rightarrow> go_error \<Rightarrow> go_error" where
  "errors_join e e' = OtherError (error_text e @ [CHR 10] @ error_text e')
     (is_deadline e \<or> is_deadline e') (is_canceled e \<or> is_canceled e')"

definition join_cause :: "attemptCtx \<Rightarrow> go_error \<Rightarrow> go_error" where
  "join_cause c e = (case ac_cause c of None \<Rightarrow> e | Some cause \<Rightarrow> errors_join e cause)"

definition stopDeadline :: "attemptCtx \<Rightarrow> attemptCtx" where
  "stopDeadline c = c\<lparr>ac_timer := False\<rparr>"

text \<open>\<open>cleanup\<close>: the timer is stopped and \<open>cancel (nil)\<close> makes the cause \<open>context.Canceled\<close>.\<close>

definition cleanup :: "attemptCtx \<Rightarrow> attemptCtx" where
  "cleanup c = cancel_with canceled (stopDeadline c)"

text \<open>
  \<open>roundTripBefore\<close>: \<open>evs\<close> is what happens to the context until the round trip returns \<open>reply\<close>.
  A reply keeps its context for the reads of its body.
\<close>

definition roundTripBefore ::
    "ctx_err \<Rightarrow> int option \<Rightarrow> ctx_event list \<Rightarrow> go_error + response \<Rightarrow> go_error + response \<times> attemptCtx" where
  "roundTripBefore parent left evs reply =
     (let c = fold ctx_step evs (attempt_context parent left)
      in case reply of
           Inl e \<Rightarrow> Inl (join_cause c e)
         | Inr resp \<Rightarrow> Inr (resp, c))"

text \<open>\<open>cancelBody\<close>: a read that fails after the context has ended reports why it ended.\<close>

definition cancelBody_Read :: "attemptCtx \<Rightarrow> bytes \<times> go_error option \<Rightarrow> bytes \<times> go_error option" where
  "cancelBody_Read c r =
     (case r of
        (p, None) \<Rightarrow> (p, None)
      | (p, Some EOF) \<Rightarrow> (p, Some EOF)
      | (p, Some e) \<Rightarrow> (p, Some (join_cause c e)))"

definition cancelBody_Close :: "go_error option \<Rightarrow> attemptCtx \<Rightarrow> attemptCtx \<times> go_error option" where
  "cancelBody_Close closeErr c = (cleanup c, closeErr)"

section \<open>The flushing writer\<close>

definition flushingWriter_Write :: "(downstream \<Rightarrow> go_error option) \<Rightarrow> downstream \<Rightarrow> bytes \<Rightarrow> downstream \<times> go_error option" where
  "flushingWriter_Write flush w p =
     (case w_write w p of
        (w', Some e) \<Rightarrow> (w', Some e)
      | (w', None) \<Rightarrow> (w', flush w'))"

lemma copy_body_flushes:
  "copy_body flush True w (c # cs) =
     (case flushingWriter_Write flush w c of
        (w', Some e) \<Rightarrow> (w', Some e)
      | (w', None) \<Rightarrow> copy_body flush True w' cs)"
  by (simp add: flushingWriter_Write_def split: prod.split option.split)

section \<open>Why an attempt was cancelled\<close>

text \<open>The reasons to cancel, in the order they come: the first one is the cause.\<close>

definition cancel_reasons :: "ctx_err \<Rightarrow> int option \<Rightarrow> ctx_event list \<Rightarrow> go_error list" where
  "cancel_reasons parent left evs =
     (case ctx_cause parent of None \<Rightarrow> [] | Some x \<Rightarrow> [x])
     @ (case left of None \<Rightarrow> [] | Some d \<Rightarrow> if d \<le> 0 then [deadlineExceeded] else [])
     @ concat (map (\<lambda>ev. case ev of
          TimerFires \<Rightarrow> (case left of None \<Rightarrow> [] | Some d \<Rightarrow> if d \<le> 0 then [] else [deadlineExceeded])
        | ParentEnds e \<Rightarrow> (case ctx_cause e of None \<Rightarrow> [] | Some x \<Rightarrow> [x])) evs)"

lemma ctx_fold_fixed: "ac_cause c = Some x \<Longrightarrow> ac_cause (fold ctx_step evs c) = Some x"
proof (induction evs arbitrary: c)
  case (Cons ev evs)
  from Cons.prems have "ac_cause (ctx_step ev c) = Some x"
    by (cases ev) (auto simp: cancel_with_def split: option.split)
  then show ?case using Cons.IH by simp
qed simp

lemma ctx_fold_first:
  assumes "ac_cause c = None" "ac_timer c = timed"
  shows "ac_cause (fold ctx_step evs c) =
    (case concat (map (\<lambda>ev. case ev of TimerFires \<Rightarrow> if timed then [deadlineExceeded] else []
        | ParentEnds e \<Rightarrow> (case ctx_cause e of None \<Rightarrow> [] | Some x \<Rightarrow> [x])) evs) of
       [] \<Rightarrow> None | x # _ \<Rightarrow> Some x)"
  using assms
proof (induction evs arbitrary: c)
  case (Cons ev evs)
  show ?case
  proof (cases ev)
    case TimerFires
    with Cons show ?thesis by (cases timed) (auto simp: cancel_with_def ctx_fold_fixed)
  next
    case (ParentEnds e)
    with Cons show ?thesis by (cases "ctx_cause e") (auto simp: cancel_with_def ctx_fold_fixed)
  qed
qed simp

lemma attempt_cause:
  "ac_cause (fold ctx_step evs (attempt_context parent left)) =
     (case cancel_reasons parent left evs of [] \<Rightarrow> None | x # _ \<Rightarrow> Some x)"
proof (cases "ac_cause (attempt_context parent left)")
  case None
  then show ?thesis
    by (subst ctx_fold_first [OF None refl])
      (auto simp: attempt_context_def cancel_reasons_def cancel_with_def split: option.splits if_splits
        intro!: arg_cong [where f = "\<lambda>l. case l of [] \<Rightarrow> None | x # _ \<Rightarrow> Some x"])
next
  case (Some x)
  then show ?thesis
    by (simp add: ctx_fold_fixed)
      (auto simp: attempt_context_def cancel_reasons_def cancel_with_def split: option.splits if_splits)
qed

lemma cancel_reasons_known: "x \<in> set (cancel_reasons parent left evs) \<Longrightarrow> x = deadlineExceeded \<or> x = canceled"
proof -
  have c: "ctx_cause e = Some y \<Longrightarrow> y = deadlineExceeded \<or> y = canceled" for e y by (cases e) auto
  assume "x \<in> set (cancel_reasons parent left evs)"
  then have "x = deadlineExceeded \<or> (\<exists>e. ctx_cause e = Some x)"
    unfolding cancel_reasons_def
    by (auto split: option.splits if_splits ctx_event.splits) (metis ctx_event.exhaust)
  then show ?thesis using c by blast
qed

text \<open>
  C30. A round trip that fails is taken for a client that went away exactly when the client
  is what ended it: the request's deadline has not passed, the transport's error is not a
  timeout, and the first reason to cancel the attempt, if there is one, is the client. An
  attempt the proxy's own deadline cancelled is therefore never one the client cancelled,
  whatever error the transport gives for it.
\<close>

theorem client_gone_exact:
  "case roundTripBefore parent left evs (Inl err) of
     Inr _ \<Rightarrow> False
   | Inl e \<Rightarrow>
       (f_code (classifyTransport e ctx) = ''client_gone'') =
         (ctx \<noteq> CtxDeadline \<and> \<not> is_deadline err \<and>
          (case cancel_reasons parent left evs of
             [] \<Rightarrow> ctx = CtxCanceled \<or> is_canceled err
           | r # _ \<Rightarrow> r = canceled))"
proof (cases "cancel_reasons parent left evs")
  case Nil
  then show ?thesis
    by (auto simp: roundTripBefore_def join_cause_def attempt_cause classifyTransport_def failDeadline_def)
next
  case (Cons r rs)
  then have "r = deadlineExceeded \<or> r = canceled" using cancel_reasons_known [of r parent left evs] by simp
  then show ?thesis using Cons
    by (auto simp: roundTripBefore_def join_cause_def attempt_cause classifyTransport_def failDeadline_def
        errors_join_def deadlineExceeded_def canceled_def)
qed

section \<open>The reader that bounds the wait for upstream bytes\<close>

text \<open>
  \<open>byteIdleReader\<close>. The timer is not yet made, runs until a time, has started its function,
  or is stopped. The reading goroutine is outside \<open>Read\<close>, past the first check, in the read
  of the body since a time, and then before \<open>Stop\<close> and before the second check with what
  the body returned. Several functions of the timer may be under way, before their store and
  before their close. \<open>ir_log\<close> lists what \<open>Read\<close> returned, and whether the flag was set.
\<close>

datatype idle_timer = Unset | Armed int | Fired | Stopped

datatype read_pc =
    Outside
  | Entered
  | Waiting int
  | Returned int int bytes "go_error option"
  | Halted bytes "go_error option"

record byteIdleReader =
  ir_idle :: int
  ir_now :: int
  ir_timer :: idle_timer
  ir_pc :: read_pc
  ir_storing :: nat
  ir_closing :: nat
  ir_timedOut :: bool
  ir_closed :: bool
  ir_log :: "(bytes \<times> go_error option \<times> bool) list"

definition withByteIdle :: "int \<Rightarrow> int \<Rightarrow> byteIdleReader" where
  "withByteIdle idle now = \<lparr>ir_idle = idle, ir_now = now, ir_timer = Unset, ir_pc = Outside, ir_storing = 0,
     ir_closing = 0, ir_timedOut = False, ir_closed = False, ir_log = []\<rparr>"

text \<open>
  Time may pass at any point. On a prompt scheduler it passes only outside \<open>Read\<close> or in the
  read of the body, never past the time of the timer, nor while a function of the timer is
  under way, nor in a read whose body has been closed.
\<close>

definition quiet :: "byteIdleReader \<Rightarrow> int \<Rightarrow> bool" where
  "quiet s d =
     (ir_storing s = 0 \<and> ir_closing s = 0 \<and>
      (case ir_timer s of Armed t \<Rightarrow> ir_now s + d \<le> t | _ \<Rightarrow> True) \<and>
      (case ir_pc s of Outside \<Rightarrow> True | Waiting _ \<Rightarrow> \<not> ir_closed s | _ \<Rightarrow> False))"

definition halt_timer :: "idle_timer \<Rightarrow> idle_timer" where
  "halt_timer t = (case t of Armed _ \<Rightarrow> Stopped | _ \<Rightarrow> t)"

inductive idle_step :: "bool \<Rightarrow> byteIdleReader \<Rightarrow> byteIdleReader \<Rightarrow> bool" where
  Tick: "0 < d \<Longrightarrow> (prompt \<Longrightarrow> quiet s d) \<Longrightarrow> idle_step prompt s (s\<lparr>ir_now := ir_now s + d\<rparr>)"
| Refuse: "ir_pc s = Outside \<Longrightarrow> ir_timedOut s
     \<Longrightarrow> idle_step prompt s (s\<lparr>ir_log := ir_log s @ [([], Some deadlineExceeded, True)]\<rparr>)"
| Enter: "ir_pc s = Outside \<Longrightarrow> \<not> ir_timedOut s \<Longrightarrow> idle_step prompt s (s\<lparr>ir_pc := Entered\<rparr>)"
| Arm: "ir_pc s = Entered
     \<Longrightarrow> idle_step prompt s (s\<lparr>ir_pc := Waiting (ir_now s), ir_timer := Armed (ir_now s + ir_idle s)\<rparr>)"
| Fire: "ir_timer s = Armed t \<Longrightarrow> t \<le> ir_now s
     \<Longrightarrow> idle_step prompt s (s\<lparr>ir_timer := Fired, ir_storing := Suc (ir_storing s)\<rparr>)"
| Store: "ir_storing s = Suc n
     \<Longrightarrow> idle_step prompt s (s\<lparr>ir_storing := n, ir_closing := Suc (ir_closing s), ir_timedOut := True\<rparr>)"
| CloseBody: "ir_closing s = Suc n \<Longrightarrow> idle_step prompt s (s\<lparr>ir_closing := n, ir_closed := True\<rparr>)"
| BodyReturns: "ir_pc s = Waiting t \<Longrightarrow> idle_step prompt s (s\<lparr>ir_pc := Returned t (ir_now s) p e\<rparr>)"
| StopTimer: "ir_pc s = Returned t r p e
     \<Longrightarrow> idle_step prompt s (s\<lparr>ir_pc := Halted p e, ir_timer := halt_timer (ir_timer s)\<rparr>)"
| Judge: "ir_pc s = Halted p e
     \<Longrightarrow> idle_step prompt s (s\<lparr>ir_pc := Outside,
           ir_log := ir_log s @ [(p, if ir_timedOut s then Some deadlineExceeded else e, ir_timedOut s)]\<rparr>)"
| Drop: "ir_pc s = Outside \<Longrightarrow> idle_step prompt s (s\<lparr>ir_timer := halt_timer (ir_timer s)\<rparr>)"

inductive idle_reaches :: "bool \<Rightarrow> byteIdleReader \<Rightarrow> byteIdleReader \<Rightarrow> bool" where
  Here: "idle_reaches prompt s s"
| More: "idle_reaches prompt s t \<Longrightarrow> idle_step prompt t u \<Longrightarrow> idle_reaches prompt s u"

inductive_cases idle_stepE: "idle_step prompt s s'"

text \<open>
  A call of \<open>Read\<close> between the start of its timer and \<open>Stop\<close>, with the time its timer was
  started, and how long the read of the body in it has been waiting for the upstream, or
  waited until the body returned.
\<close>

definition call_since :: "byteIdleReader \<Rightarrow> int option" where
  "call_since s = (case ir_pc s of Waiting t \<Rightarrow> Some t | Returned t r p e \<Rightarrow> Some t | _ \<Rightarrow> None)"

definition upstream_wait :: "byteIdleReader \<Rightarrow> int option" where
  "upstream_wait s =
     (case ir_pc s of Waiting t \<Rightarrow> Some (ir_now s - t) | Returned t r p e \<Rightarrow> Some (r - t) | _ \<Rightarrow> None)"

text \<open>The reads that found the flag set come last, and each reports the deadline.\<close>

definition log_ok :: "bool \<Rightarrow> (bytes \<times> go_error option \<times> bool) list \<Rightarrow> bool" where
  "log_ok timedOut l =
     (\<exists>good late. l = good @ late \<and> list_all (\<lambda>(p, e, b). \<not> b) good \<and>
        list_all (\<lambda>(p, e, b). b \<and> e = Some deadlineExceeded) late \<and> (late \<noteq> [] \<longrightarrow> timedOut))"

lemma log_ok_simps [simp]: "log_ok t []" "log_ok t l \<Longrightarrow> log_ok True l"
  by (auto simp: log_ok_def)

lemma log_ok_late: "log_ok True l \<Longrightarrow> log_ok True (l @ [(p, Some deadlineExceeded, True)])"
proof -
  assume "log_ok True l"
  then obtain good late where "l = good @ late" "list_all (\<lambda>(p, e, b). \<not> b) good"
      "list_all (\<lambda>(p, e, b). b \<and> e = Some deadlineExceeded) late"
    by (auto simp: log_ok_def)
  then show ?thesis unfolding log_ok_def
    by (intro exI [of _ good] exI [of _ "late @ [(p, Some deadlineExceeded, True)]"]) simp
qed

lemma log_ok_good: "log_ok False l \<Longrightarrow> log_ok False (l @ [(p, e, False)])"
proof -
  assume "log_ok False l"
  then have "list_all (\<lambda>(p, e, b). \<not> b) l" by (auto simp: log_ok_def)
  then show ?thesis unfolding log_ok_def by (intro exI [of _ "l @ [(p, e, False)]"] exI [of _ "[]"]) simp
qed

text \<open>The timer only runs during a call of \<open>Read\<close>, until that call has lasted \<open>idle\<close>.\<close>

definition idle_inv :: "int \<Rightarrow> byteIdleReader \<Rightarrow> bool" where
  "idle_inv idle s =
     (ir_idle s = idle \<and>
      (case ir_timer s of Armed t \<Rightarrow> call_since s = Some (t - idle) | _ \<Rightarrow> True) \<and>
      log_ok (ir_timedOut s) (ir_log s))"

lemma idle_inv_start: "idle_inv idle (withByteIdle idle now)"
  by (simp add: idle_inv_def withByteIdle_def)

lemma idle_inv_step: "idle_step prompt s s' \<Longrightarrow> idle_inv idle s \<Longrightarrow> idle_inv idle s'"
  by (induction rule: idle_step.induct)
    (auto simp: idle_inv_def call_since_def halt_timer_def log_ok_late log_ok_good
      split: idle_timer.splits)

lemma idle_inv_reaches: "idle_reaches prompt s0 s \<Longrightarrow> idle_inv idle s0 \<Longrightarrow> idle_inv idle s"
  by (induction rule: idle_reaches.induct) (auto intro: idle_inv_step)

lemmas idle_inv_run = idle_inv_reaches [OF _ idle_inv_start]

lemma idle_reaches_trans: "idle_reaches prompt t u \<Longrightarrow> idle_reaches prompt s t \<Longrightarrow> idle_reaches prompt s u"
  by (induction rule: idle_reaches.induct) (auto intro: idle_reaches.intros)

lemma idle_reaches_step: "idle_step prompt s t \<Longrightarrow> idle_reaches prompt s t"
  by (rule More [OF Here])

text \<open>
  On a prompt scheduler a read of the body has its timer running and its time not over, or
  the timer's function is ending it at the very moment the time is over.
\<close>

definition prompt_inv :: "int \<Rightarrow> byteIdleReader \<Rightarrow> bool" where
  "prompt_inv idle s =
     (case call_since s of
        None \<Rightarrow> True
      | Some t0 \<Rightarrow>
          (case ir_timer s of
             Armed t \<Rightarrow> t = t0 + idle \<and> ir_now s \<le> t
           | Fired \<Rightarrow> ir_now s = t0 + idle \<and> (0 < ir_storing s \<or> 0 < ir_closing s \<or> ir_closed s)
           | _ \<Rightarrow> False))"

lemma prompt_inv_step:
  assumes "idle_step True s s'" "prompt_inv idle s" "ir_idle s = idle" "0 \<le> idle"
  shows "prompt_inv idle s'"
  using assms(1)
proof (cases rule: idle_step.cases)
  case (Tick d)
  with assms show ?thesis
    by (cases "ir_pc s"; cases "ir_timer s") (simp_all add: prompt_inv_def call_since_def quiet_def)
qed (use assms in \<open>cases "ir_timer s"; simp add: prompt_inv_def call_since_def halt_timer_def split: read_pc.splits\<close>)+

lemma prompt_inv_run:
  "idle_reaches True (withByteIdle idle now) s \<Longrightarrow> 0 \<le> idle \<Longrightarrow> prompt_inv idle s"
proof (induction True "withByteIdle idle now" s rule: idle_reaches.induct)
  case Here
  then show ?case by (simp add: prompt_inv_def call_since_def withByteIdle_def)
next
  case (More t u)
  from idle_inv_run [OF More(1)] have "ir_idle t = idle" by (simp add: idle_inv_def)
  with More prompt_inv_step show ?case by blast
qed

text \<open>The functions of the timer that are under way can all finish, and then the body is closed.\<close>

lemma drain:
  "\<exists>u. idle_reaches prompt s u \<and> ir_storing u = 0 \<and> ir_closing u = 0 \<and> ir_pc u = ir_pc s \<and> ir_timer u = ir_timer s \<and>
     ir_now u = ir_now s \<and> ir_idle u = ir_idle s \<and> (ir_closed u = (ir_closed s \<or> 0 < ir_storing s \<or> 0 < ir_closing s))"
proof (induction "2 * ir_storing s + ir_closing s" arbitrary: s rule: less_induct)
  case less
  show ?case
  proof (cases "ir_storing s")
    case (Suc n)
    let ?t = "s\<lparr>ir_storing := n, ir_closing := Suc (ir_closing s), ir_timedOut := True\<rparr>"
    have "idle_reaches prompt s ?t" by (rule idle_reaches_step [OF Store [OF Suc]])
    with less [of ?t] Suc show ?thesis by (auto intro: idle_reaches_trans)
  next
    case z: 0
    show ?thesis
    proof (cases "ir_closing s")
      case (Suc n)
      let ?t = "s\<lparr>ir_closing := n, ir_closed := True\<rparr>"
      have "idle_reaches prompt s ?t" by (rule idle_reaches_step [OF CloseBody [OF Suc]])
      with less [of ?t] Suc z show ?thesis by (auto intro: idle_reaches_trans)
    qed (use z Here in auto)
  qed
qed

text \<open>
  C10. Idle bound. On a prompt scheduler a read of the upstream body never lasts longer than
  the configured idle time, and one that gets no bytes has its body closed, which interrupts
  it, by that time, without a step of the upstream.
\<close>

theorem idle_read_bounded:
  assumes "0 \<le> idle" "idle_reaches True (withByteIdle idle now) s" "ir_pc s = Waiting t0"
  shows "ir_now s \<le> t0 + idle \<and>
    (\<exists>u. idle_reaches True s u \<and> ir_closed u \<and> ir_pc u = Waiting t0 \<and> ir_now u \<le> t0 + idle)"
proof -
  have r: "call_since s = Some t0" using assms(3) by (simp add: call_since_def)
  from prompt_inv_run [OF assms(2,1)] have p: "prompt_inv idle s" .
  then have now: "ir_now s \<le> t0 + idle"
    using r by (auto simp: prompt_inv_def split: idle_timer.splits)
  obtain d where d: "idle_reaches True s d" "ir_storing d = 0" "ir_closing d = 0" "ir_pc d = Waiting t0"
      "ir_timer d = ir_timer s" "ir_now d = ir_now s" "ir_closed d = (ir_closed s \<or> 0 < ir_storing s \<or> 0 < ir_closing s)"
    using drain [of True s] assms(3) by metis
  show ?thesis
  proof (cases "ir_closed d")
    case True
    with d now show ?thesis by (intro conjI exI [of _ d]) simp_all
  next
    case False
    with p r d(7) have t: "ir_timer d = Armed (t0 + idle)"
      using d(5) by (auto simp: prompt_inv_def split: idle_timer.splits)
    define e where "e = d\<lparr>ir_now := t0 + idle\<rparr>"
    have "idle_reaches True d e"
    proof (cases "ir_now d = t0 + idle")
      case True
      then have "e = d" by (simp add: e_def)
      then show ?thesis by (simp add: Here)
    next
      case ne: False
      have "idle_step True d (d\<lparr>ir_now := ir_now d + (t0 + idle - ir_now d)\<rparr>)"
        using ne now d(2-4,6) t False by (intro Tick) (simp_all add: quiet_def)
      then show ?thesis unfolding e_def by (auto intro: idle_reaches_step)
    qed
    moreover define f where "f = e\<lparr>ir_timer := Fired, ir_storing := Suc (ir_storing e)\<rparr>"
    have "idle_reaches True e f" unfolding f_def
      by (rule idle_reaches_step, rule Fire [where t = "t0 + idle"]) (simp_all add: e_def t)
    moreover obtain u where u: "idle_reaches True f u" "ir_pc u = ir_pc f" "ir_now u = ir_now f" "ir_closed u"
      using drain [of True f] by (auto simp: f_def)
    ultimately have "idle_reaches True s u" using d(1) by (blast intro: idle_reaches_trans)
    with u d now show ?thesis by (intro conjI exI [of _ u]) (simp_all add: f_def e_def)
  qed
qed

text \<open>On a prompt scheduler no time passes between the return of the body and \<open>Stop\<close>.\<close>

lemma returned_now:
  "idle_reaches True (withByteIdle idle now) s \<Longrightarrow> ir_pc s = Returned t r p e \<Longrightarrow> r = ir_now s"
proof (induction True "withByteIdle idle now" s arbitrary: t r p e rule: idle_reaches.induct)
  case Here
  then show ?case by (simp add: withByteIdle_def)
next
  case (More a b)
  from More(3) show ?case
    by (cases rule: idle_step.cases) (use More in \<open>auto simp: quiet_def split: read_pc.splits\<close>)
qed

text \<open>A step that starts the timer's function.\<close>

definition fires :: "bool \<Rightarrow> byteIdleReader \<Rightarrow> byteIdleReader \<Rightarrow> bool" where
  "fires prompt a b = (idle_step prompt a b \<and> ir_storing a < ir_storing b)"

lemma alarm_fired:
  "idle_reaches prompt s0 s \<Longrightarrow> 0 < ir_storing s \<or> ir_timedOut s \<Longrightarrow> \<not> ir_timedOut s0 \<Longrightarrow> ir_storing s0 = 0 \<Longrightarrow>
   \<exists>a b. idle_reaches prompt s0 a \<and> fires prompt a b \<and> idle_reaches prompt b s"
proof (induction rule: idle_reaches.induct)
  case (More prompt s t u)
  show ?case
  proof (cases "0 < ir_storing t \<or> ir_timedOut t")
    case True
    with More obtain a b where "idle_reaches prompt s a" "fires prompt a b" "idle_reaches prompt b t" by blast
    with More(2) show ?thesis by (blast intro: idle_reaches.More)
  next
    case False
    from More(2) False More(4) have "ir_storing t < ir_storing u" by (cases rule: idle_step.cases) auto
    with More(1,2) show ?thesis by (auto simp: fires_def intro: Here)
  qed
qed simp

lemma fires_in_call:
  assumes "idle_reaches prompt (withByteIdle idle now) a" "fires prompt a b"
  shows "\<exists>t0. call_since a = Some t0 \<and> t0 + idle \<le> ir_now a"
proof -
  from idle_inv_run [OF assms(1)] have i: "idle_inv idle a" .
  from assms(2) have "idle_step prompt a b" "ir_storing a < ir_storing b" by (simp_all add: fires_def)
  then show ?thesis using i by (cases rule: idle_stepE) (auto simp: idle_inv_def)
qed

text \<open>
  C9. No false alarm. However the goroutines interleave and however late the timer runs, the
  flag is only ever set by a function of the timer that started during a call of \<open>Read\<close> which
  had lasted the whole idle time: time spent between reads, writing to a slow client or to the
  archive, never cuts a response. On a prompt scheduler the read of the upstream body in that
  call had itself waited for the idle time. A read that finds the flag set reports the
  deadline, and so does every later one, so a cut body is never taken for a complete one.
\<close>

theorem idle_reader_exact:
  assumes "0 \<le> idle" "idle_reaches prompt (withByteIdle idle now) s"
  shows "log_ok (ir_timedOut s) (ir_log s) \<and>
    (ir_timedOut s \<longrightarrow>
      (\<exists>a b t0. idle_reaches prompt (withByteIdle idle now) a \<and> fires prompt a b \<and> idle_reaches prompt b s \<and>
         call_since a = Some t0 \<and> t0 + idle \<le> ir_now a \<and> (prompt \<longrightarrow> upstream_wait a = Some idle)))"
proof (intro conjI impI)
  from idle_inv_run [OF assms(2)] show "log_ok (ir_timedOut s) (ir_log s)" by (simp add: idle_inv_def)
  assume "ir_timedOut s"
  with alarm_fired [OF assms(2)] obtain a b where
      a: "idle_reaches prompt (withByteIdle idle now) a" "fires prompt a b" "idle_reaches prompt b s"
    by (auto simp: withByteIdle_def)
  from fires_in_call [OF a(1,2)] obtain t0 where t: "call_since a = Some t0" "t0 + idle \<le> ir_now a" by blast
  have "upstream_wait a = Some idle" if p: prompt
  proof -
    from p a(1) have r: "idle_reaches True (withByteIdle idle now) a" by simp
    from prompt_inv_run [OF r assms(1)] t have "ir_now a = t0 + idle"
      by (auto simp: prompt_inv_def split: idle_timer.splits)
    with t(1) returned_now [OF r] show ?thesis
      by (auto simp: call_since_def upstream_wait_def split: read_pc.splits)
  qed
  with a t show "\<exists>a b t0. idle_reaches prompt (withByteIdle idle now) a \<and> fires prompt a b \<and> idle_reaches prompt b s \<and>
      call_since a = Some t0 \<and> t0 + idle \<le> ir_now a \<and> (prompt \<longrightarrow> upstream_wait a = Some idle)" by blast
qed

section \<open>Examples\<close>

definition stalled :: "int \<Rightarrow> byteIdleReader" where
  "stalled now = (withByteIdle 5 0)\<lparr>ir_now := now, ir_pc := Waiting 0, ir_timer := Armed 5\<rparr>"

lemma stalled_reached: "idle_reaches True (withByteIdle 5 0) (stalled 5)"
proof -
  have "idle_reaches True (withByteIdle 5 0) ((withByteIdle 5 0)\<lparr>ir_pc := Entered\<rparr>)"
    by (rule idle_reaches_step [OF Enter]) (simp_all add: withByteIdle_def)
  moreover have "idle_step True ((withByteIdle 5 0)\<lparr>ir_pc := Entered\<rparr>) (stalled 0)"
    using Arm [of "(withByteIdle 5 0)\<lparr>ir_pc := Entered\<rparr>" True] by (simp add: withByteIdle_def stalled_def)
  ultimately have "idle_reaches True (withByteIdle 5 0) (stalled 0)" by (rule More)
  moreover have "idle_step True (stalled 0) (stalled 5)"
    using Tick [of 5 True "stalled 0"] by (simp add: stalled_def withByteIdle_def quiet_def)
  ultimately show ?thesis by (rule More)
qed

theorem idle_read_bounded_witness:
  "ir_now (stalled 5) \<le> 0 + 5 \<and>
   (\<exists>u. idle_reaches True (stalled 5) u \<and> ir_closed u \<and> ir_pc u = Waiting 0 \<and> ir_now u \<le> 0 + 5)"
  by (rule idle_read_bounded [OF _ stalled_reached]) (simp_all add: stalled_def)

definition alarmed :: byteIdleReader where
  "alarmed = (stalled 5)\<lparr>ir_timer := Fired, ir_closing := 1, ir_timedOut := True\<rparr>"

lemma alarmed_reached: "idle_reaches True (withByteIdle 5 0) alarmed"
proof -
  let ?f = "(stalled 5)\<lparr>ir_timer := Fired, ir_storing := Suc 0\<rparr>"
  have "idle_step True (stalled 5) ?f"
    using Fire [of "stalled 5" 5 True] by (simp add: stalled_def withByteIdle_def)
  with stalled_reached have "idle_reaches True (withByteIdle 5 0) ?f" by (rule More)
  moreover have "idle_step True ?f alarmed"
    using Store [of ?f 0 True] by (simp add: stalled_def withByteIdle_def alarmed_def)
  ultimately show ?thesis by (rule More)
qed

theorem idle_reader_exact_witness:
  "\<exists>a b. idle_reaches True (withByteIdle 5 0) a \<and> fires True a b \<and> idle_reaches True b alarmed \<and> upstream_wait a = Some 5"
  using idle_reader_exact [OF _ alarmed_reached] by (auto simp: alarmed_def)

end
