(* ===== verification/Serve.thy ===== *)
theory Serve
  imports Recorded Version Transport
begin

text \<open>
  The server's handler (main.go: \<open>handle\<close>): the version endpoint, then the proxy.
\<close>

definition serve ::
    "build \<Rightarrow> server \<Rightarrow> bool \<Rightarrow> bool \<Rightarrow> request \<Rightarrow> ctx_err \<Rightarrow> go_error + response \<Rightarrow> round list \<Rightarrow> downstream
     \<Rightarrow> exit + hstate" where
  "serve B S noRead noWrite rq ctx reply rns w =
     (case handleVersionRequest B (rq_method rq) (rq_path rq) w of
        Some w' \<Rightarrow> Inl (Done w')
      | None \<Rightarrow> handle S noRead noWrite rq ctx reply rns w)"

lemma version_answers: "handleVersionRequest B meth path w = Some w' \<Longrightarrow> ds_status w' \<noteq> None"
  by (auto simp: handleVersionRequest_def http_error_def encode_to_def Let_def split: if_splits)

definition example_build :: build where
  "example_build = \<lparr>bd_version = ''1.2'', bd_commit = [], bd_buildDate = [], bd_dirty = [], bd_settings = None\<rparr>"

text \<open>
  C22. When the handler returns, the client has been sent a status line: no branch, however
  early or late, leaves the request without an answer.
\<close>

theorem every_answer_has_status:
  assumes "serve B S noRead noWrite rq ctx reply rns w = Inl x"
  shows "ds_status (exit_client x) \<noteq> None"
  using assms version_answers handler_answers by (auto simp: serve_def split: option.splits)

theorem every_answer_has_status_witness:
  "case serve example_build example_server False False example_post CtxOk (Inl EOF) [failing_round, failing_round] w_new of
     Inl x \<Rightarrow> ds_status (exit_client x) \<noteq> None | Inr s \<Rightarrow> False"
proof -
  have "case serve example_build example_server False False example_post CtxOk (Inl EOF) [failing_round, failing_round] w_new of
     Inl x \<Rightarrow> True | Inr s \<Rightarrow> False"
    by code_simp
  then obtain x where x: "serve example_build example_server False False example_post CtxOk (Inl EOF) [failing_round, failing_round] w_new = Inl x"
    by (auto split: sum.splits)
  from every_answer_has_status [OF x] x show ?thesis by simp
qed

end
