(* ===== verification/Log_Fields.thy ===== *)
theory Log_Fields
  imports Redact Responses_Errors
begin

text \<open>
  The fields of the access log (main.go): the optional fields of a line, the sizes in it, and
  the quoting of what an upstream says about a refusal. What a line is made of is a text; the
  logger itself is not modelled.
\<close>

section \<open>Optional fields\<close>

definition effortField :: "bytes \<Rightarrow> bytes" where
  "effortField effort = (if effort = [] then [] else ''  '' @ effort)"

definition att :: "int \<Rightarrow> bytes" where
  "att n = (if n = 0 then [] else ''  attempt='' @ append_int n)"

definition retryField :: "int \<Rightarrow> bytes" where
  "retryField secs = (if secs \<le> 0 then [] else ''  retry-after='' @ append_int secs @ ''s'')"

definition localRetryModeField :: "bytes \<Rightarrow> bytes" where
  "localRetryModeField mode = (if mode = [] then [] else ''  mode='' @ mode)"

definition proxyRetryField :: "int \<Rightarrow> bytes" where
  "proxyRetryField n = (if n \<le> 0 then [] else ''  proxy-retries='' @ append_int n)"

definition prunField :: "int \<Rightarrow> bytes" where
  "prunField n = (if n \<le> 0 then [] else ''  prun='' @ append_int n)"

text \<open>\<open>vlog\<close> lines about local retries; \<open>wait\<close> is the duration rounded to milliseconds, as text.\<close>

definition logLocalRetry :: "bytes \<Rightarrow> bytes \<Rightarrow> failure \<Rightarrow> bytes \<Rightarrow> int \<Rightarrow> int \<Rightarrow> int \<Rightarrow> bytes \<Rightarrow> bytes" where
  "logLocalRetry reqWho effort f wait retryNum retryMax sdkAttempt mode =
     ''[local-retry] '' @ reqWho @ effortField effort @ '' '' @ f_code f @ '' '' @ itoa (origStatusOf f)
     @ '' wait='' @ wait @ '' retry='' @ append_int retryNum @ ''/'' @ append_int retryMax
     @ att sdkAttempt @ localRetryModeField mode"

definition logLocalRetrySkip :: "bytes \<Rightarrow> bytes \<Rightarrow> failure \<Rightarrow> bytes \<Rightarrow> int \<Rightarrow> bytes \<Rightarrow> bytes" where
  "logLocalRetrySkip reqWho effort f wait sdkAttempt reason =
     ''[local-retry] '' @ reqWho @ effortField effort @ '' '' @ f_code f @ '' '' @ itoa (origStatusOf f)
     @ '' wait='' @ wait @ '' skip='' @ reason @ att sdkAttempt"

section \<open>Sizes\<close>

text \<open>\<open>%.1f\<close> of a float64 that is not negative: its exact value, correctly rounded.\<close>

definition fixed1 :: "rat \<Rightarrow> bytes" where
  "fixed1 r = (let t = half_even (r * 10) in append_int (t div 10) @ ''.'' @ append_int (t mod 10))"

definition htok :: "int \<Rightarrow> bytes" where
  "htok n = (if 1000 \<le> n then fixed1 (fl (fl (of_int n) / 1000)) @ ''k'' else append_int n)"

definition hbytes :: "int \<Rightarrow> bytes" where
  "hbytes n =
     (if 1048576 \<le> n then fixed1 (fl (fl (of_int n) / 1048576)) @ ''MB''
      else if 1024 \<le> n then fixed1 (fl (fl (of_int n) / 1024)) @ ''KB''
      else append_int n @ ''B'')"

section \<open>Quoting what an upstream says\<close>

text \<open>
  \<open>strconv.Quote\<close>: \<open>printable\<close> is \<open>unicode.IsPrint\<close> past ASCII, whose tables are a parameter.
\<close>

fun rune_val :: "bytes \<Rightarrow> int" where
  "rune_val [a] = byte_val a"
| "rune_val [a, b] = (byte_val a mod 32) * 64 + byte_val b mod 64"
| "rune_val [a, b, c] = (byte_val a mod 16) * 4096 + (byte_val b mod 64) * 64 + byte_val c mod 64"
| "rune_val [a, b, c, d] =
     (byte_val a mod 8) * 262144 + (byte_val b mod 64) * 4096 + (byte_val c mod 64) * 64 + byte_val d mod 64"
| "rune_val _ = 0"

definition is_print :: "(int \<Rightarrow> bool) \<Rightarrow> int \<Rightarrow> bool" where
  "is_print printable r = (if r < 128 then 32 \<le> r \<and> r < 127 else printable r)"

definition go_quote_rune :: "(int \<Rightarrow> bool) \<Rightarrow> bytes \<Rightarrow> bytes" where
  "go_quote_rune printable s =
     (let r = rune_val s
      in if r = 34 \<or> r = 92 then CHR 92 # s
         else if is_print printable r then s
         else if r = 7 then [CHR 92, CHR ''a''] else if r = 8 then [CHR 92, CHR ''b'']
         else if r = 12 then [CHR 92, CHR ''f''] else if r = 10 then [CHR 92, CHR ''n'']
         else if r = 13 then [CHR 92, CHR ''r''] else if r = 9 then [CHR 92, CHR ''t'']
         else if r = 11 then [CHR 92, CHR ''v'']
         else if r < 32 \<or> r = 127 then [CHR 92, CHR ''x''] @ hex_digits 2 r
         else if r < 65536 then [CHR 92, CHR ''u''] @ hex_digits 4 r
         else [CHR 92, CHR ''U''] @ hex_digits 8 r)"

function go_quote_body :: "(int \<Rightarrow> bool) \<Rightarrow> bytes \<Rightarrow> bytes" where
  "go_quote_body printable [] = []"
| "go_quote_body printable (c # s) =
     (if rune_len (c # s) = 0 then [CHR 92, CHR ''x''] @ hex_digits 2 (byte_val c) @ go_quote_body printable s
      else go_quote_rune printable (take (rune_len (c # s)) (c # s)) @ go_quote_body printable (drop (rune_len (c # s)) (c # s)))"
  by pat_completeness auto
termination
  by (relation "measure (\<lambda>(p, s). length s)") (auto simp del: rune_len.simps)

definition go_quote :: "(int \<Rightarrow> bool) \<Rightarrow> bytes \<Rightarrow> bytes" where
  "go_quote printable s = [CHR 34] @ go_quote_body printable s @ [CHR 34]"

definition refusalFields :: "(int \<Rightarrow> bool) \<Rightarrow> bytes \<Rightarrow> bytes \<Rightarrow> bytes" where
  "refusalFields printable category reason =
     (if category \<noteq> [] then ''  refusal-category='' @ go_quote printable category else [])
     @ (if reason \<noteq> [] then ''  refusal-reason='' @ go_quote printable reason else [])"

section \<open>Nothing an upstream says can split a line\<close>

definition no_control :: "char \<Rightarrow> bool" where
  "no_control c = (32 \<le> byte_val c \<and> byte_val c \<noteq> 127)"

lemma hex_char_plain: "0 \<le> n \<Longrightarrow> n < 16 \<Longrightarrow> no_control (hex_char n)"
  by (simp add: no_control_def hex_char_def)

lemma hex_digits_plain: "0 \<le> n \<Longrightarrow> list_all no_control (hex_digits k n)"
  by (induction k arbitrary: n) (simp_all add: hex_char_plain)

lemma plain_chars: "list_all no_control [CHR 92, CHR ''u'', CHR ''U'', CHR ''x'', CHR ''a'', CHR ''b'', CHR ''f'',
    CHR ''n'', CHR ''r'', CHR ''t'', CHR ''v'', CHR 34]"
  by code_simp

text \<open>A rune of several bytes has no ASCII byte.\<close>

lemma rune_bytes:
  assumes "rune_len (c # s) \<noteq> 0"
  shows "take (rune_len (c # s)) (c # s) = [c] \<and> byte_val c < 128 \<or>
         list_all (\<lambda>b. 128 \<le> byte_val b) (take (rune_len (c # s)) (c # s))"
proof -
  let ?w = "rune_width (byte_val c)"
  from assms have t: "tail_ok (byte_val c) (take (?w - 1) s)" and l: "rune_len (c # s) = ?w" "?w \<noteq> 0"
    by (auto simp: rune_len.simps split: if_splits)
  then have tk: "take (rune_len (c # s)) (c # s) = c # take (?w - 1) s" by (cases ?w) simp_all
  show ?thesis
  proof (cases "byte_val c < 128")
    case True
    then have "?w = 1" by (simp add: rune_width_def)
    with tk True show ?thesis by simp
  next
    case False
    have "list_all (\<lambda>b. 128 \<le> byte_val b) (take (?w - 1) s)"
      using t by (auto simp: tail_ok_def second_ok_def cont_byte_def byte_in_def list_all_iff split: list.splits if_splits)
    with tk False show ?thesis by simp
  qed
qed

lemma rune_val_pos: "0 \<le> rune_val s"
  by (cases s rule: rune_val.cases) simp_all

lemma quote_rune_plain:
  assumes "s = [c] \<and> byte_val c < 128 \<or> list_all (\<lambda>b. 128 \<le> byte_val b) s"
  shows "list_all no_control (go_quote_rune printable s)"
proof -
  have multi: "list_all no_control s" if "list_all (\<lambda>b. 128 \<le> byte_val b) s"
    using that by (auto simp: list_all_iff no_control_def)
  have single: "list_all no_control s" if "s = [c]" "rune_val s \<in> {34, 92} \<or> is_print printable (rune_val s)" "byte_val c < 128"
    using that by (auto simp: no_control_def is_print_def)
  show ?thesis
    using assms plain_chars multi single hex_digits_plain [OF rune_val_pos [of s]]
    by (auto simp: go_quote_rune_def Let_def)
qed

lemma quote_body_plain: "list_all no_control (go_quote_body printable s)"
proof (induction printable s rule: go_quote_body.induct)
  case (2 printable c s)
  show ?case
  proof (cases "rune_len (c # s) = 0")
    case True
    with 2(1) plain_chars show ?thesis by (simp add: hex_digits_plain)
  next
    case False
    from 2(2) [OF False] quote_rune_plain [OF rune_bytes [OF False]] False
    show ?thesis by simp
  qed
qed simp

text \<open>
  Whatever an upstream reports about a refusal, the fields it is logged in hold no control
  character: they cannot end the line, forge another one or send a terminal escape.
\<close>

theorem refusal_fields_plain: "list_all no_control (refusalFields printable category reason)"
proof -
  have "list_all no_control ''  refusal-category=''" "list_all no_control ''  refusal-reason=''"
    by code_simp+
  then show ?thesis using plain_chars by (simp add: refusalFields_def go_quote_def quote_body_plain)
qed

text \<open>
  The model name an upstream reports is not quoted: the first field of a line, written by
  \<open>whoWithResolvedModel\<close>, can carry a line break.
\<close>

lemma model_name_splits_line: "LF \<in> set (whoWithResolvedModel ''m/main'' (''a'' @ [LF] @ ''OK    b''))"
  by code_simp

end
