(* ===== verification/Spec2Isabelle.thy ===== *)
theory Spec2Isabelle
  imports Anthropic_Wire Responses_Wire Gemini_Wire Gemini_Number Systemone Classify Json_Wf Config Serve Log_Fields
begin

text \<open>
  Verification library of steady-proxy, a buffering reverse proxy in Go between clients of
  the Anthropic Messages, OpenAI Responses, Gemini and System One APIs and one upstream
  gateway. The proxy holds a streamed answer back until it knows that the answer is
  complete, retries what a re-send can fix, and relays everything else.

  \<^bold>\<open>The program and its parts.\<close> A request enters at \<open>handle\<close> (main.go), which answers the
  version endpoint, reads the body and picks a path. A request that is not a streamed
  generation is relayed once (\<open>proxyOnce\<close>). Any other goes through the attempt loop: each
  attempt sends the body upstream (\<open>roundTripBefore\<close>, transport.go); an error reply is read
  and classified (classify.go, responses.go, gemini_errors.go, systemone.go); a stream is
  captured (\<open>captureSSECore\<close>, sse.go), where the SSE parser feeds the events to a wire
  (wire.go, responses.go, gemini.go) that validates them, buffers them in a spool and
  replays or streams them. A failure leads to a local retry, to another model of the
  fallback chain, or to an error answer in the format of the route. Beside this, a recorder
  (requestlog.go) keeps every attempt and writes one archive file per request.

  \<^bold>\<open>Foundations.\<close> Prelude: byte strings (lists of characters below 256), 64-bit integers as
  \<open>int\<close> with \<open>wrap64\<close> written out, and the functions of \<open>strings\<close> and \<open>strconv\<close> the code
  calls. Utf8, Json, Json_Encode, Json_Decode, Json_Wf, Base64: Go's decoders and encoders
  with their round trips; the JSON scanner is a step machine, decoding into structs follows
  \<open>encoding/json\<close> (case-folded keys, last one wins, type errors). Http: headers as maps
  from canonical keys, the hop-by-hop filters, contexts and errors of I/O. Routes: the path
  predicates.

  \<^bold>\<open>Failures.\<close> Failure: the \<open>failure\<close> struct and what a client sees of it. Classify,
  Responses_Errors, Gemini_Errors, Systemone: the classifiers of the four routes; their
  lemmas state the decision over HTTP and in the stream, and the delays waited, with the
  arithmetic of \<open>time.Duration\<close> and of float64 (rationals rounded by \<open>fl\<close>). Surfacing: reading
  an upstream error, the fallback policy, the error writers, the verbatim relay of a final
  answer, \<open>proxyOnce\<close>; its theorems say that the retry verdict is sent faithfully and a
  final reply with its own body and end-to-end headers.

  \<^bold>\<open>Streams.\<close> Sse_Parser: \<open>sseParser\<close>; equal events however the reads split the bytes, and
  re-parsing. Spool: the buffer in memory and file (locale \<open>byte_store\<close>). Anthropic_Stream,
  Blocks: event order and tool-input accounting (locale \<open>weighted_map\<close>). Tool_Replay, Replay:
  the normaliser of tool input and the buffered replay with its usage back-fill.
  Responses_Json, Responses_Replay, Responses_Coalesce: the strict readers of the Responses
  route and the replay that merges text deltas. Gemini_Json, Gemini_Number: the readers of
  the Gemini route and the exact arithmetic of its integers.

  \<^bold>\<open>The engine and its wires.\<close> Engine: \<open>captureSSECore\<close> over an interface of eight functions
  (\<open>wireModel\<close>), one input at a time: a read with its error and the state of the context, a
  tick of the keepalive timer, the idle timer, the end of the context. A list of inputs is
  one interleaving of the goroutines. The locale \<open>wire_laws\<close> is what a wire promises the
  engine, \<open>raw_wire\<close> adds verbatim replay, \<open>stats_wire\<close> that the held refusal is left alone;
  Anthropic_Wire, Responses_Wire, Gemini_Wire and Held interpret them on the code's wires.
  The theorems proved once in the engine (one head, only appended output, untouched client
  on an unwritten failure, termination) are inherited by every wire, and each wire adds what
  a buffered success means on its route.

  \<^bold>\<open>The handler.\<close> Config: \<open>parseConfig\<close>. Request: what is read of a request and \<open>swapModel\<close>.
  Transport: the upstream request, the cause of a cancelled attempt, and the byte-idle reader,
  whose timer, flag and body are shared by two goroutines: an inductive step relation with a
  flag for a prompt scheduler; safety holds for every interleaving and any delay, the bound
  on a read for a prompt one. Handler: one round of the loop per attempt; what the attempt
  met and what the clock said at each decision are the inputs of the round. Serve: the whole
  handler. Its theorems: every request is answered, retries are hidden, a held refusal is
  not lost.

  \<^bold>\<open>The archive.\<close> Redact: secrets, request ids and file names. Version: the build identity and
  its endpoint. Archive: the capture of a body and the streaming JSON writer, refined to the
  rendering of one JSON value. Recorder: the operations of \<open>reqRecorder\<close>, which the code calls
  through a pointer to the current attempt (an index here). Recorded: the calls the handler
  makes on it, beside the handler; so the archive's outcome and attempts are proved to be
  those of the request. Failing shows that every failure the wires and classifiers report
  (locale \<open>failing_wire\<close>) has a status that is no success, so the outcome on file can be told
  from the answer. Log_Fields: the fields of the access log.

  \<^bold>\<open>Bounds.\<close> Loops are structural recursion or recursion on a measure; there is no fuel. The
  attempt loop and the capture run over a list of rounds or inputs, and \<open>Inr\<close> says the list
  ended first; \<open>handler_returns\<close> shows that \<open>txLocalRetries\<close> plus the fallback models plus two
  rounds are enough, \<open>capture_terminates\<close> that an ending input is.

  \<^bold>\<open>Parameters.\<close> What the code takes from libraries or the system is an argument: URL parsing
  (\<open>en_parse\<close>, \<open>env_url\<close>, the escaped path), HTTP dates and the clock (\<open>env_until\<close>, \<open>clock\<close>,
  \<open>en_fmt\<close>), the jitter, file operations (\<open>spool_io\<close>, \<open>spool_rd\<close>, with the documented results),
  flushing, SHA-256 (\<open>sha\<close>), random bytes, the float64 printed for a decoded JSON number
  (\<open>renum\<close>), \<open>unicode.IsPrint\<close> past ASCII, and the client's connection (\<open>ds_limit\<close>: how many bytes
  it takes). An upstream error arrives in a read of its own, as the reading goroutine sends it.
  \<open>strings.ToLower\<close> and \<open>ToUpper\<close> are modelled on ASCII; every use compares with ASCII names.
  The statistics the recorder keeps a pointer to are recorded with the value they have when
  they are noted.

  \<^bold>\<open>Not modelled.\<close> \<open>main\<close> and the settings of the HTTP server and client, the logger, the
  directory, creation and permissions of the archive file (\<open>finish\<close> starts at the opened
  file), and the separate test upstream: they call the standard library and decide nothing.
\<close>

section \<open>Properties of the whole capture\<close>

text \<open>
  C23. Whatever the wire and however reads and timers interleave, the capture returns as
  soon as the upstream read ends or fails, the idle timer fires or the request's context
  is done; keepalive ticks alone never end it and never keep it from ending.
\<close>

theorem capture_terminates:
  assumes "i \<in> set inputs" "ends_capture i"
  shows "\<exists>r. captureSSECore G m w st inputs = Inl r"
  using assms by (rule capture_ends)

theorem capture_terminates_witness:
  "\<exists>r. captureSSECore (example_capture example_anthropic) (anthropic_start False False) w_new stats0
     [KeepTick, Read [] None CtxOk, IdleTick, KeepTick] = Inl r"
  by (rule capture_terminates [of IdleTick]) simp_all

end
